(* ===== verification/Pulse_Prelude.thy ===== *)
theory Pulse_Prelude
  imports Main "HOL-Library.Word" "HOL-Library.Sublist"
begin

text \<open>
  Prelude of the development: the machine integers and the strings of Rust as the other
  theories use them, the parts of the Rust standard library that the sources call on
  strings (\<open>str::trim\<close>, \<open>split_whitespace\<close>, \<open>lines\<close>, \<open>split\<close>, \<open>strip_prefix\<close>,
  \<open>split_at\<close>, \<open>parse\<close>, \<open>to_string\<close>) and the generic lemmas the components share.

  A Rust string is the list of its Unicode scalar values (\<open>rstr\<close>); its UTF-8 bytes are
  \<open>utf8\<close>, and every operation that the language defines on bytes (\<open>len\<close>, \<open>bytes\<close>,
  \<open>split_at\<close>) is defined through them. A literal of the source is \<open>lit ''...''\<close>.

  An \<open>i64\<close> and a \<open>u64\<close> are both \<open>64 word\<close>: a cast \<open>as i64\<close> keeps the bits, signed
  comparison is \<open><s\<close>, and \<open>sint\<close> and \<open>uint\<close> read the value. Arithmetic wraps, as
  in the release profile of the workspace (src/Cargo.toml sets no overflow checks there).
\<close>

subsection \<open>Named collections\<close>

named_theorems rust_str \<open>evaluation of the string functions of the standard library\<close>
named_theorems result_iff \<open>inversion of fallible computations\<close>

subsection \<open>Types\<close>

type_synonym u8 = "8 word"
type_synonym u16 = "16 word"
type_synonym u32 = "32 word"
type_synonym u64 = "64 word"
type_synonym i32 = "32 word"
type_synonym i64 = "64 word"
type_synonym rchar = nat
type_synonym rstr = "rchar list"

definition lit :: "string \<Rightarrow> rstr" where
  "lit s = map of_char s"

definition saturating_sub :: "'a::len word \<Rightarrow> 'a word \<Rightarrow> 'a word" where
  "saturating_sub a b = (if b \<le> a then a - b else 0)"

text \<open>\<open>i64::abs\<close> with wrapping arithmetic: the least value is its own absolute value.\<close>

definition wrapping_abs :: "i64 \<Rightarrow> i64" where
  "wrapping_abs x = (if x <s 0 then - x else x)"

text \<open>Both results of a \<open>Result\<close> in the order Isabelle's sum has them: \<open>Inl\<close> is \<open>Err\<close>.\<close>

definition bind_res :: "'e + 'a \<Rightarrow> ('a \<Rightarrow> 'e + 'b) \<Rightarrow> 'e + 'b" where
  "bind_res r f = (case r of Inl e \<Rightarrow> Inl e | Inr a \<Rightarrow> f a)"

definition ok_or :: "'a option \<Rightarrow> 'e \<Rightarrow> 'e + 'a" where
  "ok_or m e = (case m of None \<Rightarrow> Inl e | Some a \<Rightarrow> Inr a)"

definition unwrap_or :: "'a option \<Rightarrow> 'a \<Rightarrow> 'a" where
  "unwrap_or m d = (case m of None \<Rightarrow> d | Some a \<Rightarrow> a)"

subsection \<open>UTF-8\<close>

definition utf8_len :: "rchar \<Rightarrow> nat" where
  "utf8_len c = (if c < 0x80 then 1 else if c < 0x800 then 2 else if c < 0x10000 then 3 else 4)"

definition utf8_nat :: "rchar \<Rightarrow> nat list" where
  "utf8_nat c =
     (if c < 0x80 then [c]
      else if c < 0x800 then [0xC0 + c div 64, 0x80 + c mod 64]
      else if c < 0x10000 then [0xE0 + c div 4096, 0x80 + c div 64 mod 64, 0x80 + c mod 64]
      else [0xF0 + c div 262144, 0x80 + c div 4096 mod 64, 0x80 + c div 64 mod 64,
            0x80 + c mod 64])"

definition utf8 :: "rstr \<Rightarrow> u8 list" where
  "utf8 s = map word_of_nat (concat (map utf8_nat s))"

definition str_len :: "rstr \<Rightarrow> nat" where
  "str_len s = sum_list (map utf8_len s)"

text \<open>A \<open>char\<close> of Rust is a Unicode scalar value.\<close>

definition is_scalar :: "rchar \<Rightarrow> bool" where
  "is_scalar c \<longleftrightarrow> c < 0xD800 \<or> (0xE000 \<le> c \<and> c < 0x110000)"

text \<open>\<open>str::split_at\<close>: \<open>None\<close> is the panic at an index inside a character or past the end.\<close>

fun split_at :: "rstr \<Rightarrow> nat \<Rightarrow> (rstr \<times> rstr) option" where
  "split_at s 0 = Some ([], s)"
| "split_at [] (Suc n) = None"
| "split_at (c # s) (Suc n) =
     (if Suc n < utf8_len c then None
      else map_option (\<lambda>(a, b). (c # a, b)) (split_at s (Suc n - utf8_len c)))"

subsection \<open>Characters and pieces of a string\<close>

text \<open>The code points with the Unicode property White\_Space.\<close>

definition is_ws :: "rchar \<Rightarrow> bool" where
  "is_ws c \<longleftrightarrow> (9 \<le> c \<and> c \<le> 13) \<or> c = 32 \<or> c = 0x85 \<or> c = 0xA0 \<or> c = 0x1680 \<or>
     (0x2000 \<le> c \<and> c \<le> 0x200A) \<or> c = 0x2028 \<or> c = 0x2029 \<or> c = 0x202F \<or>
     c = 0x205F \<or> c = 0x3000"

definition trim_start :: "rstr \<Rightarrow> rstr" where
  "trim_start s = dropWhile is_ws s"

definition trim_end :: "rstr \<Rightarrow> rstr" where
  "trim_end s = rev (dropWhile is_ws (rev s))"

definition trim :: "rstr \<Rightarrow> rstr" where
  "trim s = trim_end (trim_start s)"

function split_whitespace :: "rstr \<Rightarrow> rstr list" where
  "split_whitespace s =
     (case dropWhile is_ws s of
        [] \<Rightarrow> []
      | c # t \<Rightarrow> (c # takeWhile (\<lambda>x. \<not> is_ws x) t)
                 # split_whitespace (dropWhile (\<lambda>x. \<not> is_ws x) t))"
  by pat_completeness auto
termination
proof (relation "measure length", goal_cases)
  case 1
  show ?case by simp
next
  case (2 s c t)
  then have "length (c # t) \<le> length s"
    by (metis length_dropWhile_le)
  moreover have "length (dropWhile (\<lambda>x. \<not> is_ws x) t) \<le> length t"
    by (rule length_dropWhile_le)
  ultimately show ?case by simp
qed

declare split_whitespace.simps [simp del]

text \<open>\<open>str::split\<close> with a character: always at least one piece.\<close>

fun split_char :: "rchar \<Rightarrow> rstr \<Rightarrow> rstr list" where
  "split_char d [] = [[]]"
| "split_char d (c # s) =
     (if c = d then [] # split_char d s
      else (case split_char d s of [] \<Rightarrow> [[c]] | p # ps \<Rightarrow> (c # p) # ps))"

definition split_once :: "rchar \<Rightarrow> rstr \<Rightarrow> (rstr \<times> rstr) option" where
  "split_once d s =
     (case dropWhile (\<lambda>c. c \<noteq> d) s of
        [] \<Rightarrow> None
      | _ # rest \<Rightarrow> Some (takeWhile (\<lambda>c. c \<noteq> d) s, rest))"

text \<open>\<open>str::split_inclusive('\<newline>')\<close>, then one \<open>'\<newline>'\<close> and one \<open>'\r'\<close> before it removed.\<close>

fun split_inclusive :: "rchar \<Rightarrow> rstr \<Rightarrow> rstr list" where
  "split_inclusive d [] = []"
| "split_inclusive d (c # s) =
     (if c = d then [c] # split_inclusive d s
      else (case split_inclusive d s of [] \<Rightarrow> [[c]] | p # ps \<Rightarrow> (c # p) # ps))"

definition chomp :: "rstr \<Rightarrow> rstr" where
  "chomp l =
     (if l \<noteq> [] \<and> last l = 10
      then (let k = butlast l in if k \<noteq> [] \<and> last k = 13 then butlast k else k)
      else l)"

definition lines :: "rstr \<Rightarrow> rstr list" where
  "lines s = map chomp (split_inclusive 10 s)"

definition starts_with :: "rstr \<Rightarrow> rstr \<Rightarrow> bool" where
  "starts_with p s \<longleftrightarrow> take (length p) s = p"

definition strip_prefix :: "rstr \<Rightarrow> rstr \<Rightarrow> rstr option" where
  "strip_prefix p s = (if starts_with p s then Some (drop (length p) s) else None)"

subsection \<open>Integers read and printed in decimal\<close>

definition digit :: "rchar \<Rightarrow> nat option" where
  "digit c = (if 48 \<le> c \<and> c \<le> 57 then Some (c - 48) else None)"

fun digits_val :: "nat \<Rightarrow> rstr \<Rightarrow> nat option" where
  "digits_val acc [] = Some acc"
| "digits_val acc (c # s) =
     (case digit c of None \<Rightarrow> None | Some d \<Rightarrow> digits_val (10 * acc + d) s)"

definition parse_nat :: "rstr \<Rightarrow> nat option" where
  "parse_nat s = (if s = [] then None else digits_val 0 s)"

text \<open>
  \<open>from_str\<close> of the integer types: an optional sign (a minus for the signed types only), at
  least one digit, nothing else, and the value in range.
\<close>

definition strip_plus :: "rstr \<Rightarrow> rstr" where
  "strip_plus s = (case s of [] \<Rightarrow> [] | c # r \<Rightarrow> if c = 43 then r else s)"

definition parse_unsigned :: "nat \<Rightarrow> rstr \<Rightarrow> nat option" where
  "parse_unsigned w s =
     (case parse_nat (strip_plus s) of
        None \<Rightarrow> None | Some n \<Rightarrow> if n < 2 ^ w then Some n else None)"

definition parse_signed :: "nat \<Rightarrow> rstr \<Rightarrow> int option" where
  "parse_signed w s =
     (if s \<noteq> [] \<and> hd s = 45
      then (case parse_nat (tl s) of
         None \<Rightarrow> None | Some n \<Rightarrow> if n \<le> 2 ^ (w - 1) then Some (- int n) else None)
      else (case parse_nat (strip_plus s) of
         None \<Rightarrow> None | Some n \<Rightarrow> if n < 2 ^ (w - 1) then Some (int n) else None))"

definition parse_u64 :: "rstr \<Rightarrow> u64 option" where
  "parse_u64 s = map_option word_of_nat (parse_unsigned 64 s)"

definition parse_u32 :: "rstr \<Rightarrow> u32 option" where
  "parse_u32 s = map_option word_of_nat (parse_unsigned 32 s)"

definition parse_u16 :: "rstr \<Rightarrow> u16 option" where
  "parse_u16 s = map_option word_of_nat (parse_unsigned 16 s)"

definition parse_i64 :: "rstr \<Rightarrow> i64 option" where
  "parse_i64 s = map_option word_of_int (parse_signed 64 s)"

definition parse_i32 :: "rstr \<Rightarrow> i32 option" where
  "parse_i32 s = map_option word_of_int (parse_signed 32 s)"

fun show_nat :: "nat \<Rightarrow> rstr" where
  "show_nat n = (if n < 10 then [48 + n] else show_nat (n div 10) @ [48 + n mod 10])"

declare show_nat.simps [simp del]

definition show_int :: "int \<Rightarrow> rstr" where
  "show_int i = (if i < 0 then 45 # show_nat (nat (- i)) else show_nat (nat i))"

definition show_i64 :: "i64 \<Rightarrow> rstr" where
  "show_i64 x = show_int (sint x)"

subsection \<open>Lemmas: results\<close>

lemma bind_res_simps [simp]:
  "bind_res (Inl e) f = Inl e" "bind_res (Inr a) f = f a"
  by (simp_all add: bind_res_def)

lemma bind_res_Inr_iff [result_iff]:
  "bind_res r f = Inr b \<longleftrightarrow> (\<exists>a. r = Inr a \<and> f a = Inr b)"
  by (cases r) auto

lemma bind_res_Inl_iff [result_iff]:
  "bind_res r f = Inl e \<longleftrightarrow> r = Inl e \<or> (\<exists>a. r = Inr a \<and> f a = Inl e)"
  by (cases r) auto

lemma ok_or_simps [simp]:
  "ok_or None e = Inl e" "ok_or (Some a) e = Inr a"
  by (simp_all add: ok_or_def)

lemma ok_or_iff [result_iff]:
  "ok_or m e = Inr a \<longleftrightarrow> m = Some a" "ok_or m e = Inl e' \<longleftrightarrow> m = None \<and> e' = e"
  by (cases m; auto)+

lemma unwrap_or_simps [simp]:
  "unwrap_or None d = d" "unwrap_or (Some a) d = a"
  by (simp_all add: unwrap_or_def)

subsection \<open>Lemmas: machine integers\<close>

lemma unat_saturating_sub [simp]: "unat (saturating_sub a b) = unat a - unat b"
  by (auto simp: saturating_sub_def unat_sub word_le_nat_alt)

lemma saturating_sub_le: "saturating_sub a b \<le> a"
  by (simp add: word_le_nat_alt)

lemma unat_u8_less: "unat (b :: u8) < 256"
proof -
  have "unat b < 2 ^ LENGTH(8)" by (rule unsigned_less)
  then show ?thesis by simp
qed

lemma sint_wrapping_abs: "sint x \<noteq> - (2 ^ 63) \<Longrightarrow> sint (wrapping_abs x) = \<bar>sint x\<bar>"
proof -
  assume ne: "sint x \<noteq> - (2 ^ 63)"
  have lo: "- (2 ^ 63) \<le> sint x" and hi: "sint x < 2 ^ 63"
    using sint_greater_eq [of x] sint_less [of x] by simp_all
  have "sint (- x) = - sint x"
    using ne lo hi signed_take_bit_int_eq_self [of 63 "- sint x"]
    by (simp add: sint_word_ariths)
  then show ?thesis
    by (simp add: wrapping_abs_def word_sless_alt)
qed

subsection \<open>Lemmas: UTF-8\<close>

lemma length_utf8_nat [simp]: "length (utf8_nat c) = utf8_len c"
  by (simp add: utf8_nat_def utf8_len_def)

lemma utf8_len_pos [simp]: "0 < utf8_len c" "utf8_len c \<noteq> 0"
  by (simp_all add: utf8_len_def)

lemma length_utf8 [simp]: "length (utf8 s) = str_len s"
  by (simp add: utf8_def str_len_def length_concat o_def)

lemma str_len_simps [simp]: "str_len [] = 0" "str_len (c # s) = utf8_len c + str_len s"
  "str_len (s @ t) = str_len s + str_len t"
  by (simp_all add: str_len_def)

lemma utf8_append [simp]: "utf8 [] = []" "utf8 (s @ t) = utf8 s @ utf8 t"
  by (simp_all add: utf8_def)

lemma length_le_str_len: "length s \<le> str_len s"
  by (induction s) (auto simp: utf8_len_def)

text \<open>
  UTF-8 is prefix-free: the first byte of a character fixes how many bytes it has, and the
  bytes give the character back.
\<close>

lemma utf8_len_by_head:
  "c < 0x110000 \<Longrightarrow>
   utf8_len c = (let h = hd (utf8_nat c) in
     if h < 0x80 then 1 else if h < 0xE0 then 2 else if h < 0xF0 then 3 else 4)"
  by (auto simp: utf8_nat_def utf8_len_def Let_def)

lemma div_mod_eq_imp_eq: "(c::nat) div k = d div k \<Longrightarrow> c mod k = d mod k \<Longrightarrow> c = d"
  by (metis div_mult_mod_eq)

lemma utf8_nat_inj:
  assumes "utf8_nat c = utf8_nat d" "utf8_len c = utf8_len d"
  shows "c = d"
proof (cases "c < 0x80")
  case True
  with assms show ?thesis
    by (simp add: utf8_nat_def utf8_len_def split: if_splits)
next
  case False
  with assms have last: "c mod 64 = d mod 64"
    by (simp add: utf8_nat_def utf8_len_def split: if_splits)
  have "c div 64 = d div 64"
  proof (cases "c < 0x800")
    case True
    with False assms show ?thesis
      by (simp add: utf8_nat_def utf8_len_def split: if_splits)
  next
    case no2: False
    with assms have mid: "c div 64 mod 64 = d div 64 mod 64"
      by (simp add: utf8_nat_def utf8_len_def split: if_splits)
    have "c div 4096 = d div 4096"
    proof (cases "c < 0x10000")
      case True
      with no2 assms show ?thesis
        by (simp add: utf8_nat_def utf8_len_def split: if_splits)
    next
      case False
      with assms have "c div 262144 = d div 262144" "c div 4096 mod 64 = d div 4096 mod 64"
        by (simp_all add: utf8_nat_def utf8_len_def split: if_splits)
      then show ?thesis
        by (intro div_mod_eq_imp_eq [of "c div 4096" 64 "d div 4096"])
          (simp_all add: div_mult2_eq [symmetric])
    qed
    with mid show ?thesis
      by (intro div_mod_eq_imp_eq [of "c div 64" 64 "d div 64"])
        (simp_all add: div_mult2_eq [symmetric])
  qed
  with last show ?thesis by (intro div_mod_eq_imp_eq [of c 64 d])
qed

lemma utf8_nat_prefix_free:
  assumes "c < 0x110000" "d < 0x110000" and eq: "utf8_nat c @ xs = utf8_nat d @ ys"
  shows "c = d \<and> xs = ys"
proof -
  have ne: "utf8_nat c \<noteq> []" "utf8_nat d \<noteq> []"
    by (simp_all flip: length_0_conv)
  with eq have "hd (utf8_nat c) = hd (utf8_nat d)"
    by (metis hd_append2)
  with assms(1,2) have len: "utf8_len c = utf8_len d"
    by (simp add: utf8_len_by_head)
  with eq have "utf8_nat c = utf8_nat d" "xs = ys"
    by simp_all
  with len show ?thesis by (simp add: utf8_nat_inj)
qed

lemma utf8_nat_byte: "c < 0x110000 \<Longrightarrow> b \<in> set (utf8_nat c) \<Longrightarrow> b < 256"
  by (auto simp: utf8_nat_def split: if_splits)

lemma concat_utf8_nat_inj:
  assumes "\<forall>c \<in> set s. c < 0x110000" "\<forall>c \<in> set t. c < 0x110000"
    and "concat (map utf8_nat s) = concat (map utf8_nat t)"
  shows "s = t"
  using assms
proof (induction s arbitrary: t)
  case Nil
  then show ?case
    by (cases t) (auto simp flip: length_0_conv)
next
  case (Cons c s)
  show ?case
  proof (cases t)
    case Nil
    with Cons.prems show ?thesis by (auto simp flip: length_0_conv)
  next
    case (Cons d t')
    with Cons.prems have "c = d \<and> concat (map utf8_nat s) = concat (map utf8_nat t')"
      by (intro utf8_nat_prefix_free) auto
    with Cons Cons.prems Cons.IH [of t'] show ?thesis by simp
  qed
qed

lemma map_word_of_nat_inj:
  "\<forall>b \<in> set xs. b < 256 \<Longrightarrow> \<forall>b \<in> set ys. b < 256 \<Longrightarrow>
   map (word_of_nat :: nat \<Rightarrow> u8) xs = map word_of_nat ys \<Longrightarrow> xs = ys"
proof (induction xs arbitrary: ys)
  case Nil
  then show ?case by simp
next
  case (Cons x xs)
  then obtain y ys' where y: "ys = y # ys'" by (cases ys) auto
  with Cons.prems have eq: "(word_of_nat x :: u8) = word_of_nat y" and lt: "x < 2 ^ 8" "y < 2 ^ 8"
    by simp_all
  from eq have "take_bit 8 x = take_bit 8 y" by (simp add: word_of_nat_eq_iff)
  with lt have "x = y" by (simp only: take_bit_nat_eq_self)
  moreover have "xs = ys'" using Cons.prems y by (intro Cons.IH) simp_all
  ultimately show ?case using y by simp
qed

text \<open>Two strings with the same bytes are the same string.\<close>

lemma utf8_inj:
  assumes "\<forall>c \<in> set s. is_scalar c" "\<forall>c \<in> set t. is_scalar c" "utf8 s = utf8 t"
  shows "s = t"
proof -
  have bound: "\<forall>c \<in> set s. c < 0x110000" "\<forall>c \<in> set t. c < 0x110000"
    using assms(1,2) by (auto simp: is_scalar_def)
  then have "concat (map utf8_nat s) = concat (map utf8_nat t)"
    using assms(3) unfolding utf8_def
    by (intro map_word_of_nat_inj) (auto dest: utf8_nat_byte)
  with bound show ?thesis by (rule concat_utf8_nat_inj)
qed

subsection \<open>Lemmas: decimal numbers\<close>

lemma digit_48_plus [simp]: "d < 10 \<Longrightarrow> digit (48 + d) = Some d"
  by (simp add: digit_def)

lemma digits_val_append:
  "digits_val acc (s @ t) = (case digits_val acc s of None \<Rightarrow> None | Some a \<Rightarrow> digits_val a t)"
  by (induction s arbitrary: acc) (auto split: option.splits)

lemma digits_val_show_nat: "digits_val 0 (show_nat n) = Some n"
proof (induction n rule: show_nat.induct)
  case (1 n)
  show ?case
  proof (cases "n < 10")
    case True
    then show ?thesis by (simp add: show_nat.simps [of n])
  next
    case False
    with 1 have "digits_val 0 (show_nat (n div 10)) = Some (n div 10)" by simp
    with False show ?thesis
      by (simp add: show_nat.simps [of n] digits_val_append)
  qed
qed

lemma show_nat_not_Nil [simp]: "show_nat n \<noteq> []"
  by (simp add: show_nat.simps [of n])

lemma show_nat_digits: "c \<in> set (show_nat n) \<Longrightarrow> 48 \<le> c \<and> c \<le> 57"
proof (induction n rule: show_nat.induct)
  case (1 n)
  then show ?case
    by (cases "n < 10") (auto simp: show_nat.simps [of n])
qed

lemma parse_nat_show_nat [simp]: "parse_nat (show_nat n) = Some n"
  by (simp add: parse_nat_def digits_val_show_nat)

lemma hd_show_nat: "48 \<le> hd (show_nat n)" "hd (show_nat n) \<le> 57"
  using show_nat_digits [of "hd (show_nat n)" n] by simp_all

lemma strip_plus_show_nat [simp]: "strip_plus (show_nat n) = show_nat n"
  using hd_show_nat [of n] by (cases "show_nat n") (auto simp: strip_plus_def)

lemma parse_unsigned_show_nat: "n < 2 ^ w \<Longrightarrow> parse_unsigned w (show_nat n) = Some n"
  by (simp add: parse_unsigned_def)

lemma parse_signed_show_int:
  assumes "- (2 ^ (w - 1)) \<le> i" "i < 2 ^ (w - 1)"
  shows "parse_signed w (show_int i) = Some i"
proof (cases "i < 0")
  case True
  have "nat (- i) \<le> 2 ^ (w - 1)"
    using assms(1) by (metis minus_le_iff nat_le_iff of_nat_numeral of_nat_power)
  with True show ?thesis
    by (simp add: show_int_def parse_signed_def)
next
  case False
  have "nat i < 2 ^ (w - 1)"
    using assms(2) False by (metis nat_less_iff not_less of_nat_numeral of_nat_power)
  moreover have "hd (show_nat (nat i)) \<noteq> 45"
    using hd_show_nat [of "nat i"] by simp
  ultimately show ?thesis
    using False by (simp add: show_int_def parse_signed_def)
qed

text \<open>A printed \<open>i64\<close> is read back as itself.\<close>

lemma parse_i64_show_i64 [simp]: "parse_i64 (show_i64 x) = Some x"
proof -
  have "parse_signed 64 (show_int (sint x)) = Some (sint x)"
    using sint_greater_eq [of x] sint_less [of x] by (intro parse_signed_show_int) simp_all
  then show ?thesis by (simp add: parse_i64_def show_i64_def)
qed

lemma show_i64_chars: "c \<in> set (show_i64 x) \<Longrightarrow> c = 45 \<or> (48 \<le> c \<and> c \<le> 57)"
  by (auto simp: show_i64_def show_int_def dest: show_nat_digits split: if_splits)

lemma digits_val_bound:
  "digits_val acc s = Some n \<Longrightarrow> n < (acc + 1) * 10 ^ length s"
proof (induction s arbitrary: acc)
  case Nil
  then show ?case by simp
next
  case (Cons c s)
  then obtain d where d: "digit c = Some d" "digits_val (10 * acc + d) s = Some n"
    by (auto split: option.splits)
  then have "n < (10 * acc + d + 1) * 10 ^ length s" by (intro Cons.IH)
  also have "\<dots> \<le> (10 * acc + 10) * 10 ^ length s"
    using d(1) by (intro mult_right_mono) (auto simp: digit_def split: if_splits)
  also have "\<dots> = (acc + 1) * 10 ^ length (c # s)" by (simp add: algebra_simps)
  finally show ?case .
qed

lemma parse_nat_bound: "parse_nat s = Some n \<Longrightarrow> n < 10 ^ length s"
  using digits_val_bound [of 0 s n] by (simp add: parse_nat_def split: if_splits)

lemma digits_val_digits: "digits_val acc s = Some n \<Longrightarrow> c \<in> set s \<Longrightarrow> 48 \<le> c \<and> c \<le> 57"
  by (induction s arbitrary: acc) (auto simp: digit_def split: option.splits if_splits)

subsection \<open>Lemmas: pieces of a string\<close>

lemma lit_simps [rust_str]: "lit [] = []" "lit (c # s) = of_char c # lit s"
  by (simp_all add: lit_def)

lemma split_at_Some:
  "split_at s n = Some (a, b) \<Longrightarrow> s = a @ b \<and> str_len a = n"
proof (induction s n arbitrary: a b rule: split_at.induct)
  case (3 c s n)
  then show ?case by (auto split: if_splits)
qed auto

lemma split_at_append [simp]: "split_at (a @ b) (str_len a) = Some (a, b)"
proof (induction a)
  case Nil
  then show ?case by simp
next
  case (Cons c a)
  obtain n where n: "utf8_len c + str_len a = Suc n"
    by (metis add_is_0 not0_implies_Suc utf8_len_pos(2))
  then have "Suc n - utf8_len c = str_len a" "\<not> Suc n < utf8_len c" by simp_all
  with n Cons show ?case by simp
qed

text \<open>\<open>split_at\<close> panics exactly off the character boundaries.\<close>

lemma split_at_None_iff: "split_at s n = None \<longleftrightarrow> (\<nexists>a b. s = a @ b \<and> str_len a = n)"
proof
  assume "split_at s n = None"
  then show "\<nexists>a b. s = a @ b \<and> str_len a = n" using split_at_append by force
next
  assume "\<nexists>a b. s = a @ b \<and> str_len a = n"
  then show "split_at s n = None"
    by (cases "split_at s n") (auto dest: split_at_Some)
qed

lemma strip_prefix_Some_iff: "strip_prefix p s = Some r \<longleftrightarrow> s = p @ r"
  unfolding strip_prefix_def starts_with_def
  by (metis append_eq_conv_conj append_take_drop_id option.discI option.inject)

lemma split_once_Some_iff: "split_once d s = Some (a, b) \<longleftrightarrow> s = a @ d # b \<and> d \<notin> set a"
proof
  assume "split_once d s = Some (a, b)"
  then obtain x where "dropWhile (\<lambda>c. c \<noteq> d) s = x # b" "a = takeWhile (\<lambda>c. c \<noteq> d) s"
    by (auto simp: split_once_def split: list.splits)
  moreover from this have "x = d"
    using hd_dropWhile [of "\<lambda>c. c \<noteq> d" s] by simp
  moreover have "d \<notin> set (takeWhile (\<lambda>c. c \<noteq> d) s)"
    using set_takeWhileD [of d "\<lambda>c. c \<noteq> d" s] by auto
  ultimately show "s = a @ d # b \<and> d \<notin> set a"
    using takeWhile_dropWhile_id [of "\<lambda>c. c \<noteq> d" s] by simp
next
  assume "s = a @ d # b \<and> d \<notin> set a"
  moreover from this have "\<forall>x \<in> set a. x \<noteq> d" by auto
  ultimately show "split_once d s = Some (a, b)"
    by (simp add: split_once_def takeWhile_append2 dropWhile_append2)
qed

lemma sint_diff_small:
  fixes a b :: i64
  assumes "\<bar>sint a - sint b\<bar> < 2 ^ 63"
  shows "sint (a - b) = sint a - sint b"
proof -
  have "signed_take_bit 63 (sint a - sint b) = sint a - sint b"
    using assms by (intro signed_take_bit_int_eq_self) simp_all
  then show ?thesis by (simp add: sint_word_ariths)
qed

end
