(* ===== verification/Pulse_F64.thy ===== *)
theory Pulse_F64
  imports Complex_Main Pulse_Prelude
begin

text \<open>
  The type \<open>f64\<close> of Rust: IEEE 754 double precision with rounding to nearest, ties to even.
  A number is its sign and the exact rational magnitude, so that every operation is the exact
  operation followed by \<open>f64_round\<close>; signed zeros, infinities and NaN are kept apart.
  The definitions compute; the lemmas say that rounding never crosses a representable number
  (\<open>rnd_mag_le\<close>, \<open>rnd_mag_ge\<close>), from which the bounds on percentages, rates and delays of
  the components follow.
\<close>

subsection \<open>Definitions\<close>

datatype f64 = FNaN | FInf bool | FNum bool rat

definition pow2 :: "int \<Rightarrow> rat" where
  "pow2 e = (if 0 \<le> e then of_int (2 ^ nat e) else 1 / of_int (2 ^ nat (- e)))"

fun log2_int :: "int \<Rightarrow> int" where
  "log2_int n = (if n \<le> 1 then 0 else 1 + log2_int (n div 2))"

declare log2_int.simps [simp del]

text \<open>The exponent of a positive rational: the \<open>e\<close> with \<open>2\<^sup>e \<le> m < 2\<^sup>e\<^sup>+\<^sup>1\<close>.\<close>

definition exponent :: "rat \<Rightarrow> int" where
  "exponent m =
     (let (a, b) = quotient_of m; k = log2_int a - log2_int b
      in if pow2 k \<le> m then k else k - 1)"

text \<open>Rounding to the nearest integer, ties to even.\<close>

definition rne :: "rat \<Rightarrow> int" where
  "rne x = (let f = \<lfloor>x\<rfloor>; d = x - of_int f in
     if d < 1 / 2 then f else if 1 / 2 < d then f + 1 else if even f then f else f + 1)"

definition ulp_exp :: "rat \<Rightarrow> int" where
  "ulp_exp m = max (exponent m) (-1022) - 52"

definition rnd_mag :: "rat \<Rightarrow> rat" where
  "rnd_mag m =
     (if m \<le> 0 then 0 else (let u = pow2 (ulp_exp m) in of_int (rne (m / u)) * u))"

definition f64_round :: "bool \<Rightarrow> rat \<Rightarrow> f64" where
  "f64_round neg m = (let r = rnd_mag m in if 0 < r \<and> 1024 \<le> exponent r then FInf neg else FNum neg r)"

definition f64_of_rat :: "rat \<Rightarrow> f64" where
  "f64_of_rat x = f64_round (x < 0) \<bar>x\<bar>"

text \<open>An integer cast (\<open>as f64\<close>) rounds to nearest.\<close>

definition f64_of_nat :: "nat \<Rightarrow> f64" where
  "f64_of_nat n = f64_round False (of_nat n)"

definition signed_val :: "bool \<Rightarrow> rat \<Rightarrow> rat" where
  "signed_val neg m = (if neg then - m else m)"

fun f64_neg :: "f64 \<Rightarrow> f64" where
  "f64_neg FNaN = FNaN"
| "f64_neg (FInf s) = FInf (\<not> s)"
| "f64_neg (FNum s a) = FNum (\<not> s) a"

fun f64_add :: "f64 \<Rightarrow> f64 \<Rightarrow> f64" where
  "f64_add FNaN _ = FNaN"
| "f64_add _ FNaN = FNaN"
| "f64_add (FInf s) (FInf t) = (if s = t then FInf s else FNaN)"
| "f64_add (FInf s) (FNum _ _) = FInf s"
| "f64_add (FNum _ _) (FInf t) = FInf t"
| "f64_add (FNum s a) (FNum t b) =
     (let x = signed_val s a + signed_val t b in
      if x = 0 then FNum (s \<and> t) 0 else f64_of_rat x)"

definition f64_sub :: "f64 \<Rightarrow> f64 \<Rightarrow> f64" where
  "f64_sub x y = f64_add x (f64_neg y)"

fun f64_mul :: "f64 \<Rightarrow> f64 \<Rightarrow> f64" where
  "f64_mul FNaN _ = FNaN"
| "f64_mul _ FNaN = FNaN"
| "f64_mul (FInf s) (FInf t) = FInf (s \<noteq> t)"
| "f64_mul (FInf s) (FNum t b) = (if b = 0 then FNaN else FInf (s \<noteq> t))"
| "f64_mul (FNum s a) (FInf t) = (if a = 0 then FNaN else FInf (s \<noteq> t))"
| "f64_mul (FNum s a) (FNum t b) = f64_round (s \<noteq> t) (a * b)"

fun f64_div :: "f64 \<Rightarrow> f64 \<Rightarrow> f64" where
  "f64_div FNaN _ = FNaN"
| "f64_div _ FNaN = FNaN"
| "f64_div (FInf s) (FInf t) = FNaN"
| "f64_div (FInf s) (FNum t b) = FInf (s \<noteq> t)"
| "f64_div (FNum s a) (FInf t) = FNum (s \<noteq> t) 0"
| "f64_div (FNum s a) (FNum t b) =
     (if b = 0 then (if a = 0 then FNaN else FInf (s \<noteq> t)) else f64_round (s \<noteq> t) (a / b))"

text \<open>The comparisons of \<open>PartialOrd\<close>: NaN is not comparable, the two zeros are equal.\<close>

instantiation f64 :: ord
begin

fun less_eq_f64 :: "f64 \<Rightarrow> f64 \<Rightarrow> bool" where
  "less_eq_f64 FNaN _ = False"
| "less_eq_f64 _ FNaN = False"
| "less_eq_f64 (FInf s) (FInf t) = (s \<or> \<not> t)"
| "less_eq_f64 (FInf s) (FNum _ _) = s"
| "less_eq_f64 (FNum _ _) (FInf t) = (\<not> t)"
| "less_eq_f64 (FNum s a) (FNum t b) = (signed_val s a \<le> signed_val t b)"

definition less_f64 :: "f64 \<Rightarrow> f64 \<Rightarrow> bool" where
  "less_f64 x y \<longleftrightarrow> x \<le> y \<and> \<not> y \<le> x"

instance ..

end

text \<open>\<open>f64::max\<close> gives the other argument when one is NaN.\<close>

definition f64_max :: "f64 \<Rightarrow> f64 \<Rightarrow> f64" where
  "f64_max x y = (if x = FNaN then y else if y = FNaN then x else if x < y then y else x)"

text \<open>The saturating cast \<open>as u64\<close>.\<close>

fun f64_to_u64 :: "f64 \<Rightarrow> u64" where
  "f64_to_u64 FNaN = 0"
| "f64_to_u64 (FInf neg) = (if neg then 0 else - 1)"
| "f64_to_u64 (FNum neg a) =
     (if neg then 0 else if 18446744073709551616 \<le> a then - 1 else word_of_int \<lfloor>a\<rfloor>)"

text \<open>\<open>Duration::as_secs_f64\<close> of a duration in nanoseconds.\<close>

definition as_secs_f64 :: "nat \<Rightarrow> f64" where
  "as_secs_f64 ns =
     f64_add (f64_of_nat (ns div 1000000000))
       (f64_div (f64_of_nat (ns mod 1000000000)) (f64_of_nat 1000000000))"

subsection \<open>Reading a number\<close>

text \<open>
  \<open>f64::from_str\<close>: an optional sign, then \<open>inf\<close>, \<open>infinity\<close> or \<open>nan\<close> in any case, or
  digits with at most one point and at least one digit, then an optional exponent; the result
  is the decimal value, rounded once.
\<close>

definition ascii_lower :: "rchar \<Rightarrow> rchar" where
  "ascii_lower c = (if 65 \<le> c \<and> c \<le> 90 then c + 32 else c)"

definition is_digit :: "rchar \<Rightarrow> bool" where
  "is_digit c \<longleftrightarrow> 48 \<le> c \<and> c \<le> 57"

definition parse_exp :: "rstr \<Rightarrow> int option" where
  "parse_exp s =
     (case s of
        [] \<Rightarrow> Some 0
      | c # r \<Rightarrow>
          if c = 101 \<or> c = 69
          then (if r \<noteq> [] \<and> hd r = 45 then map_option (\<lambda>n. - int n) (parse_nat (tl r))
                else map_option int (parse_nat (strip_plus r)))
          else None)"

definition parse_decimal :: "rstr \<Rightarrow> rat option" where
  "parse_decimal s =
     (let ip = takeWhile is_digit s; r = dropWhile is_digit s;
          pt = (r \<noteq> [] \<and> hd r = 46);
          fp = (if pt then takeWhile is_digit (tl r) else []);
          rest = (if pt then dropWhile is_digit (tl r) else r)
      in if ip = [] \<and> fp = [] then None
         else (case (digits_val 0 (ip @ fp), parse_exp rest) of
                 (Some n, Some e) \<Rightarrow> Some (of_nat n * 10 powi (e - int (length fp)))
               | _ \<Rightarrow> None))"

definition parse_f64 :: "rstr \<Rightarrow> f64 option" where
  "parse_f64 s =
     (let neg = (s \<noteq> [] \<and> hd s = 45);
          t = (if s \<noteq> [] \<and> (hd s = 45 \<or> hd s = 43) then tl s else s);
          l = map ascii_lower t
      in if l = lit ''inf'' \<or> l = lit ''infinity'' then Some (FInf neg)
         else if l = lit ''nan'' then Some FNaN
         else map_option (f64_round neg) (parse_decimal t))"

subsection \<open>Lemmas: powers of two and exponents\<close>

lemma pow2_powi: "pow2 e = 2 powi e"
  by (simp add: pow2_def power_int_def inverse_eq_divide power_one_over)

lemma pow2_pos [simp]: "0 < pow2 e"
  by (simp add: pow2_powi)

lemma pow2_add: "pow2 (a + b) = pow2 a * pow2 b"
  by (simp add: pow2_powi power_int_add)

lemma pow2_diff: "pow2 (a - b) = pow2 a / pow2 b"
  by (simp add: pow2_powi power_int_diff)

lemma pow2_mono: "a \<le> b \<Longrightarrow> pow2 a \<le> pow2 b"
  by (simp add: pow2_powi power_int_increasing)

lemma pow2_nat: "pow2 (int n) = 2 ^ n"
  by (simp add: pow2_powi)

lemma log2_int_bounds:
  assumes "1 \<le> n"
  shows "0 \<le> log2_int n \<and> 2 ^ nat (log2_int n) \<le> n \<and> n < 2 * 2 ^ nat (log2_int n)"
  using assms
proof (induction n rule: log2_int.induct)
  case (1 n)
  show ?case
  proof (cases "n \<le> 1")
    case True
    with 1 have "n = 1" by simp
    then show ?thesis by (simp add: log2_int.simps [of 1])
  next
    case False
    let ?k = "log2_int (n div 2)"
    from False 1 have IH: "0 \<le> ?k" "2 ^ nat ?k \<le> n div 2" "n div 2 < 2 * 2 ^ nat ?k" by simp_all
    then have "(2::int) * 2 ^ nat ?k \<le> n" "n < 2 * (2 * 2 ^ nat ?k)" by linarith+
    with False IH(1) show ?thesis
      by (simp add: log2_int.simps [of n] nat_add_distrib)
  qed
qed

lemma log2_int_pow2:
  assumes "1 \<le> n"
  shows "pow2 (log2_int n) \<le> of_int n" "of_int n < pow2 (log2_int n + 1)"
proof -
  from log2_int_bounds [OF assms] have b: "0 \<le> log2_int n"
    "2 ^ nat (log2_int n) \<le> n" "n < 2 * 2 ^ nat (log2_int n)" by simp_all
  from b(1) have p: "pow2 (log2_int n) = of_int (2 ^ nat (log2_int n))" by (simp add: pow2_def)
  from b(2) show "pow2 (log2_int n) \<le> of_int n" unfolding p of_int_le_iff .
  have "pow2 (log2_int n + 1) = of_int (2 * 2 ^ nat (log2_int n))"
    by (simp add: pow2_add p) (simp add: pow2_def)
  with b(3) show "of_int n < pow2 (log2_int n + 1)" by (simp only: of_int_less_iff)
qed

lemma exponent_bounds:
  assumes "0 < m"
  shows "pow2 (exponent m) \<le> m" "m < pow2 (exponent m + 1)"
proof -
  obtain a b where ab: "quotient_of m = (a, b)" by (cases "quotient_of m")
  then have m: "m = of_int a / of_int b" and b: "1 \<le> b"
    using quotient_of_div quotient_of_denom_pos by (blast, fastforce)
  with assms have a: "1 \<le> a" by (simp add: zero_less_divide_iff)
  let ?k = "log2_int a - log2_int b"
  note la = log2_int_pow2 [OF a] and lb = log2_int_pow2 [OF b]
  have bpos: "0 < (of_int b :: rat)" using b by simp
  have "pow2 (?k - 1) = pow2 (log2_int a) / pow2 (log2_int b + 1)"
    by (simp add: diff_diff_eq flip: pow2_diff)
  also have "\<dots> \<le> of_int a / of_int b"
    using la(1) lb(2) bpos a by (intro frac_le) simp_all
  finally have lo: "pow2 (?k - 1) \<le> m" by (simp add: m)
  have "of_int a / of_int b < pow2 (log2_int a + 1) / pow2 (log2_int b)"
    using la(2) lb(1) bpos by (intro frac_less) (use a in simp_all)
  also have "\<dots> = pow2 (?k + 1)"
    by (simp add: algebra_simps flip: pow2_diff)
  finally have hi: "m < pow2 (?k + 1)" by (simp add: m)
  have e: "exponent m = (if pow2 ?k \<le> m then ?k else ?k - 1)"
    by (simp add: exponent_def ab)
  show "pow2 (exponent m) \<le> m" "m < pow2 (exponent m + 1)"
    using lo hi by (simp_all add: e)
qed

lemma exponent_ge_iff: "0 < m \<Longrightarrow> k \<le> exponent m \<longleftrightarrow> pow2 k \<le> m"
proof
  assume "0 < m" "k \<le> exponent m"
  then show "pow2 k \<le> m" using exponent_bounds(1) pow2_mono order_trans by blast
next
  assume m: "0 < m" and "pow2 k \<le> m"
  then have "pow2 k < pow2 (exponent m + 1)" using exponent_bounds(2) by fastforce
  then have "\<not> exponent m + 1 \<le> k" using pow2_mono by (metis not_less)
  then show "k \<le> exponent m" by simp
qed

subsection \<open>Lemmas: rounding\<close>

lemma rne_of_int [simp]: "rne (of_int z) = z"
  by (simp add: rne_def)

lemma rne_bounds: "\<lfloor>x\<rfloor> \<le> rne x" "rne x \<le> \<lceil>x\<rceil>"
proof -
  show "\<lfloor>x\<rfloor> \<le> rne x" by (simp add: rne_def Let_def)
  show "rne x \<le> \<lceil>x\<rceil>"
  proof (cases "x = of_int \<lfloor>x\<rfloor>")
    case True
    then have "rne x = \<lfloor>x\<rfloor>" by (metis rne_of_int)
    then show ?thesis by (simp add: floor_le_ceiling)
  next
    case False
    then have "\<lceil>x\<rceil> = \<lfloor>x\<rfloor> + 1" by (metis ceiling_altdef)
    then show ?thesis by (simp add: rne_def Let_def)
  qed
qed

lemma rne_ge: "of_int z \<le> x \<Longrightarrow> z \<le> rne x"
  by (meson le_floor_iff order_trans rne_bounds(1))

lemma rne_le: "x \<le> of_int z \<Longrightarrow> rne x \<le> z"
  using rne_bounds(2) [of x] by (meson ceiling_le order_trans)

text \<open>The finite numbers of the type, as rationals.\<close>

definition representable :: "rat \<Rightarrow> bool" where
  "representable r \<longleftrightarrow> (\<exists>k j. r = of_int k * pow2 j \<and> 0 \<le> k \<and> k < 2 ^ 53 \<and> -1074 \<le> j)"

lemma representableI:
  "r = of_int k * pow2 j \<Longrightarrow> 0 \<le> k \<Longrightarrow> k < 2 ^ 53 \<Longrightarrow> -1074 \<le> j \<Longrightarrow> representable r"
  unfolding representable_def by blast

lemma representable_of_nat: "n < 2 ^ 53 \<Longrightarrow> representable (of_nat n)"
  by (rule representableI [of _ "int n" 0]) (simp_all add: pow2_def)

lemma representable_nonneg: "representable r \<Longrightarrow> 0 \<le> r"
  by (auto simp: representable_def intro!: mult_nonneg_nonneg less_imp_le [OF pow2_pos])

lemma significand_bound: "k < 2 ^ 53 \<Longrightarrow> of_int k * pow2 j < pow2 (53 + j)"
proof -
  assume "k < 2 ^ 53"
  then have "of_int k < pow2 53" by (simp add: pow2_def)
  then show ?thesis by (simp add: pow2_add)
qed

lemma multiple_of_finer_unit:
  assumes "e \<le> j"
  obtains z where "of_int k * pow2 j = of_int z * pow2 e"
proof
  have "pow2 j = pow2 (j - e) * pow2 e" by (simp flip: pow2_add)
  also have "pow2 (j - e) = of_int (2 ^ nat (j - e))" using assms by (simp add: pow2_def)
  finally show "of_int k * pow2 j = of_int (k * 2 ^ nat (j - e)) * pow2 e" by simp
qed

lemma ulp_exp_ge: "-1074 \<le> ulp_exp m"
  by (simp add: ulp_exp_def)

text \<open>Rounding does not cross a representable number, from below or from above.\<close>

lemma rnd_mag_le:
  assumes r: "representable r" and "m \<le> r"
  shows "rnd_mag m \<le> r"
proof (cases "0 < m")
  case False
  with r show ?thesis by (simp add: rnd_mag_def representable_nonneg)
next
  case True
  let ?E = "ulp_exp m"
  from r obtain k j where kj: "r = of_int k * pow2 j" "0 \<le> k" "k < 2 ^ 53" "-1074 \<le> j"
    by (auto simp: representable_def)
  have "?E \<le> j"
  proof (rule ccontr)
    assume "\<not> ?E \<le> j"
    then have n: "exponent m \<ge> j + 53" using kj(4) by (simp add: ulp_exp_def)
    have "r < pow2 (53 + j)" using kj by (simp add: significand_bound)
    also have "\<dots> \<le> pow2 (exponent m)" using n by (intro pow2_mono) simp
    also have "\<dots> \<le> m" using True by (rule exponent_bounds)
    finally show False using assms(2) by simp
  qed
  then obtain z where z: "r = of_int z * pow2 ?E"
    using multiple_of_finer_unit kj(1) by metis
  with assms(2) have "m / pow2 ?E \<le> of_int z" by (simp add: pos_divide_le_eq)
  then have "rne (m / pow2 ?E) \<le> z" by (rule rne_le)
  with True z show ?thesis by (simp add: rnd_mag_def Let_def mult_right_mono)
qed

lemma rnd_mag_ge:
  assumes r: "representable r" and "r \<le> m"
  shows "r \<le> rnd_mag m"
proof (cases "0 < m")
  case False
  with assms show ?thesis by (simp add: rnd_mag_def)
next
  case True
  let ?E = "ulp_exp m"
  from r obtain k j where kj: "r = of_int k * pow2 j" "0 \<le> k" "k < 2 ^ 53" "-1074 \<le> j"
    by (auto simp: representable_def)
  have rnd: "rnd_mag m = of_int (rne (m / pow2 ?E)) * pow2 ?E"
    using True by (simp add: rnd_mag_def Let_def)
  show ?thesis
  proof (cases "?E \<le> j")
    case True
    then obtain z where z: "r = of_int z * pow2 ?E"
      using multiple_of_finer_unit kj(1) by metis
    with assms(2) have "of_int z \<le> m / pow2 ?E" by (simp add: pos_le_divide_eq)
    then have "z \<le> rne (m / pow2 ?E)" by (rule rne_ge)
    with z show ?thesis by (simp add: rnd mult_right_mono)
  next
    case False
    then have n: "exponent m \<ge> j + 53" and E: "?E = exponent m - 52"
      using kj(4) by (simp_all add: ulp_exp_def)
    have "r < pow2 (53 + j)" using kj by (simp add: significand_bound)
    also have "\<dots> \<le> pow2 (exponent m)" using n by (intro pow2_mono) simp
    also have pE: "pow2 (exponent m) = of_int (2 ^ 52) * pow2 ?E"
    proof -
      have "pow2 (exponent m) = pow2 52 * pow2 ?E" by (simp add: E flip: pow2_add)
      then show ?thesis by (simp add: pow2_def)
    qed
    also have "\<dots> \<le> rnd_mag m"
    proof -
      have "pow2 (exponent m) \<le> m" using \<open>0 < m\<close> by (rule exponent_bounds)
      then have "of_int (2 ^ 52) \<le> m / pow2 ?E"
        unfolding pE by (simp only: pos_le_divide_eq pow2_pos)
      then have "2 ^ 52 \<le> rne (m / pow2 ?E)" by (rule rne_ge)
      then show ?thesis
        unfolding rnd by (intro mult_right_mono) (simp_all only: of_int_le_iff pow2_pos less_imp_le)
    qed
    finally show ?thesis by simp
  qed
qed

lemma rnd_mag_representable [simp]: "representable r \<Longrightarrow> rnd_mag r = r"
  by (simp add: antisym rnd_mag_ge rnd_mag_le)

lemma rnd_mag_nonneg [simp]: "0 \<le> rnd_mag m"
  using rnd_mag_ge [of 0 m] representable_of_nat [of 0] by (cases "0 \<le> m") (auto simp: rnd_mag_def)

lemma f64_round_finite:
  assumes "representable r" "m \<le> r" "r < pow2 1024"
  shows "f64_round neg m = FNum neg (rnd_mag m)"
proof -
  have "rnd_mag m < pow2 1024"
    using rnd_mag_le [OF assms(1,2)] assms(3) by simp
  then show ?thesis
    by (auto simp: f64_round_def Let_def exponent_ge_iff)
qed

lemma f64_of_nat_exact: "n < 2 ^ 53 \<Longrightarrow> f64_of_nat n = FNum False (of_nat n)"
proof -
  assume n: "n < 2 ^ 53"
  have "(of_nat n :: rat) < pow2 53" using n by (simp add: pow2_def)
  also have "\<dots> \<le> pow2 1024" by (rule pow2_mono) simp
  finally show ?thesis
    using representable_of_nat [OF n] by (simp add: f64_of_nat_def f64_round_finite [of "of_nat n"])
qed

end
