(* ===== verification/Pulse_Proto.thy ===== *)
theory Pulse_Proto
  imports Pulse_F64
begin

text \<open>
  The types both programs share: the error enums of src/pulse-core/src/error.rs with the text
  their \<open>#[error(...)]\<close> attributes give, and the messages of
  src/pulse-core/proto/telemetry.proto, whose Rust types src/pulse-core/src/lib.rs includes and
  re-exports. A field of a record carries the initials of its message as a prefix.
\<close>

subsection \<open>Errors\<close>

text \<open>What the sources look at of a \<open>std::io::Error\<close>: whether its kind is
  \<open>ConnectionRefused\<close>, and its text.\<close>

record io_error =
  io_refused :: bool
  io_text :: rstr

datatype auth_error =
    MissingHeader rstr
  | InvalidSignature
  | ExpiredTimestamp i64 i64
  | InvalidKey
  | ClockError

datatype collector_error =
    ProcRead rstr io_error
  | Parse rstr rstr rstr

datatype probe_error =
    Timeout rstr u32
  | ConnectionRefused rstr
  | DnsFailure rstr rstr
  | Io io_error

primrec display_auth_error :: "auth_error \<Rightarrow> rstr" where
  "display_auth_error (MissingHeader h) = lit ''missing required header: '' @ h"
| "display_auth_error InvalidSignature = lit ''invalid HMAC signature''"
| "display_auth_error (ExpiredTimestamp drift mx) =
     lit ''timestamp drift '' @ show_i64 drift @ lit ''s exceeds maximum '' @ show_i64 mx @ lit ''s''"
| "display_auth_error InvalidKey = lit ''invalid HMAC key''"
| "display_auth_error ClockError = lit ''system clock error''"

primrec display_collector_error :: "collector_error \<Rightarrow> rstr" where
  "display_collector_error (ProcRead path src) =
     lit ''failed to read '' @ path @ lit '': '' @ io_text src"
| "display_collector_error (Parse path field detail) =
     lit ''failed to parse '' @ field @ lit '' from '' @ path @ lit '': '' @ detail"

primrec display_probe_error :: "probe_error \<Rightarrow> rstr" where
  "display_probe_error (Timeout target ms) =
     lit ''probe timed out after '' @ show_nat (unat ms) @ lit ''ms to '' @ target"
| "display_probe_error (ConnectionRefused target) = lit ''connection refused to '' @ target"
| "display_probe_error (DnsFailure host detail) =
     lit ''DNS resolution failed for '' @ host @ lit '': '' @ detail"
| "display_probe_error (Io e) = lit ''probe I/O error: '' @ io_text e"

subsection \<open>Telemetry messages\<close>

record network_interface =
  ni_name :: rstr
  ni_rx_bytes_sec :: u64
  ni_tx_bytes_sec :: u64
  ni_rx_bytes_total :: u64
  ni_tx_bytes_total :: u64

record temperature_sensor =
  ts_label :: rstr
  ts_temp_millicelsius :: i32

record node_stats =
  ns_node_id :: rstr
  ns_timestamp_ms :: i64
  ns_cpu_percent :: f64
  ns_cpu_per_core :: "f64 list"
  ns_load_avg_1 :: f64
  ns_load_avg_5 :: f64
  ns_load_avg_15 :: f64
  ns_mem_total :: u64
  ns_mem_used :: u64
  ns_mem_free :: u64
  ns_mem_available :: u64
  ns_mem_buffers :: u64
  ns_mem_cached :: u64
  ns_swap_total :: u64
  ns_swap_used :: u64
  ns_disk_read_bytes_sec :: u64
  ns_disk_write_bytes_sec :: u64
  ns_net_interfaces :: "network_interface list"
  ns_tcp_connections :: u32
  ns_udp_connections :: u32
  ns_uptime_seconds :: u64
  ns_temperatures :: "temperature_sensor list"

record ping_target =
  pt_host :: rstr
  pt_count :: u32
  pt_timeout_ms :: u32

record tcp_probe_cmd =
  tp_host :: rstr
  tp_port :: u32
  tp_timeout_ms :: u32

record probe_result =
  pr_target :: rstr
  pr_success :: bool
  pr_latency_us :: u64
  pr_error_message :: rstr

record heartbeat =
  hb_node_id :: rstr
  hb_timestamp_ms :: i64

datatype client_payload =
    PStats node_stats
  | PHeartbeat heartbeat
  | PProbeResult probe_result

text \<open>\<open>TelemetryMessage\<close> and \<open>ServerCommand\<close> are an optional \<open>oneof\<close> payload.\<close>

type_synonym telemetry_message = "client_payload option"

datatype server_payload =
    HeartbeatAck i64
  | AddPingTarget ping_target
  | AddTcpProbe tcp_probe_cmd
  | ConfigUpdate u32

type_synonym server_command = "server_payload option"

end
