(* ===== verification/Pulse_Metrics.thy ===== *)
theory Pulse_Metrics
  imports Pulse_Proto
begin

text \<open>
  src/pulse-server/src/metrics.rs: the Prometheus registry of the server. The state of the
  metrics is a record with one field per static of the source: a counter or gauge with labels is
  a function of its label values, a histogram is represented by its number of observations per
  label (the observed durations come from the clock and no code reads them back). The values are
  numbers of increments; the crate keeps them as doubles.

  \<open>metric_descs\<close> lists what each static registers under which name; a second registration of a
  name is refused by the crate and would be a panic of the \<open>unwrap\<close> in the initialiser.
\<close>

subsection \<open>Definitions\<close>

datatype metric_kind = CounterM | CounterVecM | GaugeM | HistogramVecM

record metric_desc =
  md_name :: rstr
  md_help :: rstr
  md_kind :: metric_kind
  md_labels :: "rstr list"
  md_buckets :: "rat list option"

text \<open>\<open>md_buckets\<close> are the bucket bounds where the source gives them.\<close>

definition metric_descs :: "metric_desc list" where
  "metric_descs =
    [\<lparr>md_name = lit ''http_requests_total'',
      md_help = lit ''Total number of HTTP requests processed'',
      md_kind = CounterVecM, md_labels = [lit ''path'', lit ''method'', lit ''status''],
      md_buckets = None\<rparr>,
     \<lparr>md_name = lit ''http_request_duration_seconds'',
      md_help = lit ''HTTP request durations in seconds'',
      md_kind = HistogramVecM, md_labels = [lit ''path'', lit ''method''],
      md_buckets = None\<rparr>,
     \<lparr>md_name = lit ''grpc_messages_received_total'',
      md_help = lit ''Total number of gRPC messages received from agents'',
      md_kind = CounterVecM, md_labels = [lit ''node_id'', lit ''message_type''],
      md_buckets = None\<rparr>,
     \<lparr>md_name = lit ''auth_failures_total'',
      md_help = lit ''Total number of authentication failures'',
      md_kind = CounterVecM, md_labels = [lit ''client_type'', lit ''reason''],
      md_buckets = None\<rparr>,
     \<lparr>md_name = lit ''ingestion_queue_depth'',
      md_help = lit ''Current number of items in the bounded database ingestion queue'',
      md_kind = GaugeM, md_labels = [],
      md_buckets = None\<rparr>,
     \<lparr>md_name = lit ''ingestion_drops_total'',
      md_help = lit ''Total number of ingestion items dropped due to queue saturation'',
      md_kind = CounterM, md_labels = [],
      md_buckets = None\<rparr>,
     \<lparr>md_name = lit ''db_query_duration_seconds'',
      md_help = lit ''Database query duration in seconds'',
      md_kind = HistogramVecM, md_labels = [lit ''operation''],
      md_buckets = Some [5 / 10000, 1 / 1000, 5 / 1000, 1 / 100, 25 / 1000, 5 / 100, 1 / 10, 25 / 100, 5 / 10, 1]\<rparr>,
     \<lparr>md_name = lit ''db_errors_total'',
      md_help = lit ''Total number of database errors encountered'',
      md_kind = CounterVecM, md_labels = [lit ''operation''],
      md_buckets = None\<rparr>,
     \<lparr>md_name = lit ''websocket_connections_active'',
      md_help = lit ''Active real-time WebSocket dashboard connections'',
      md_kind = GaugeM, md_labels = [],
      md_buckets = None\<rparr>,
     \<lparr>md_name = lit ''nodes_online_count'',
      md_help = lit ''Current number of active online monitored agents'',
      md_kind = GaugeM, md_labels = [],
      md_buckets = None\<rparr>,
     \<lparr>md_name = lit ''nodes_offline_count'',
      md_help = lit ''Current number of configured offline monitored agents'',
      md_kind = GaugeM, md_labels = [],
      md_buckets = None\<rparr>]"

record metrics =
  HTTP_REQUESTS :: "rstr \<times> rstr \<times> rstr \<Rightarrow> nat"
  HTTP_DURATION :: "rstr \<times> rstr \<Rightarrow> nat"
  GRPC_MESSAGES :: "rstr \<times> rstr \<Rightarrow> nat"
  AUTH_FAILURES :: "rstr \<times> rstr \<Rightarrow> nat"
  INGESTION_DEPTH :: nat
  INGESTION_DROPS :: nat
  DB_LATENCY :: "rstr \<Rightarrow> nat"
  DB_ERRORS :: "rstr \<Rightarrow> nat"
  WS_CONNECTIONS :: int
  NODES_ONLINE :: nat
  NODES_OFFLINE :: nat

definition metrics_new :: metrics where
  "metrics_new =
     \<lparr>HTTP_REQUESTS = (\<lambda>_. 0), HTTP_DURATION = (\<lambda>_. 0), GRPC_MESSAGES = (\<lambda>_. 0),
      AUTH_FAILURES = (\<lambda>_. 0), INGESTION_DEPTH = 0, INGESTION_DROPS = 0, DB_LATENCY = (\<lambda>_. 0),
      DB_ERRORS = (\<lambda>_. 0), WS_CONNECTIONS = 0, NODES_ONLINE = 0, NODES_OFFLINE = 0\<rparr>"

text \<open>\<open>with_label_values(ls).inc()\<close> and \<open>.observe(..)\<close> on the number of observations.\<close>

definition incr :: "'l \<Rightarrow> ('l \<Rightarrow> nat) \<Rightarrow> 'l \<Rightarrow> nat" where
  "incr l c = c(l := Suc (c l))"

definition inc_grpc_message :: "rstr \<Rightarrow> rstr \<Rightarrow> metrics \<Rightarrow> metrics" where
  "inc_grpc_message node kind = GRPC_MESSAGES_update (incr (node, kind))"

definition inc_auth_failure :: "rstr \<Rightarrow> rstr \<Rightarrow> metrics \<Rightarrow> metrics" where
  "inc_auth_failure client reason = AUTH_FAILURES_update (incr (client, reason))"

definition inc_ingestion_drop :: "metrics \<Rightarrow> metrics" where
  "inc_ingestion_drop = INGESTION_DROPS_update Suc"

definition inc_db_error :: "rstr \<Rightarrow> metrics \<Rightarrow> metrics" where
  "inc_db_error op = DB_ERRORS_update (incr op)"

definition observe_db_latency :: "rstr \<Rightarrow> metrics \<Rightarrow> metrics" where
  "observe_db_latency op = DB_LATENCY_update (incr op)"

definition count_http :: "rstr \<Rightarrow> rstr \<Rightarrow> rstr \<Rightarrow> metrics \<Rightarrow> metrics" where
  "count_http path meth status m =
     HTTP_DURATION_update (incr (path, meth)) (HTTP_REQUESTS_update (incr (path, meth, status)) m)"

subsection \<open>Lemmas\<close>

lemma incr_simps [simp]: "incr l c l = Suc (c l)" "k \<noteq> l \<Longrightarrow> incr l c k = c k"
  by (simp_all add: incr_def)

lemma incr_ge: "c k \<le> incr l c k"
  by (simp add: incr_def)

lemma metric_names_distinct: "distinct (map md_name metric_descs)"
  by (simp add: metric_descs_def lit_def)

end
