(* ===== verification/Pulse_Node.thy ===== *)
theory Pulse_Node
  imports Pulse_Metrics
begin

text \<open>
  The data of src/pulse-server/src/state.rs (\<open>NodeStatus\<close>, \<open>NodeInfo\<close>, \<open>NodeUpdate\<close>,
  \<open>IngestionItem\<close>) and the serialisable copies of src/pulse-server/src/grpc.rs.

  JSON values are those of the crate \<open>serde_json\<close>: a type variable \<open>'j\<close> with the functions of
  the crate the sources call as the record \<open>json_lib\<close>, an argument of the operations that use
  them. \<open>json_lib_ok\<close> states the documented behaviour the properties rely on.
\<close>

subsection \<open>Node records\<close>

datatype node_status = Online | Offline | Unknown

primrec display_node_status :: "node_status \<Rightarrow> rstr" where
  "display_node_status Online = lit ''online''"
| "display_node_status Offline = lit ''offline''"
| "display_node_status Unknown = lit ''unknown''"

record 'j node_info =
  nf_node_id :: rstr
  nf_hostname :: rstr
  nf_last_seen_ms :: i64
  nf_status :: node_status
  nf_latest_stats :: "'j option"

record 'j node_update =
  nu_node_id :: rstr
  nu_timestamp_ms :: i64
  nu_stats :: 'j

text \<open>The fields of the variants, in the order of the source: node id, timestamp, text and value
  of the statistics; node id, target, success, latency, error message, timestamp.\<close>

datatype 'j ingestion_item =
    IStats (ii_node_id: rstr) i64 rstr 'j
  | IProbe (ii_node_id: rstr) rstr bool i64 rstr i64

subsection \<open>The serialisable statistics\<close>

record net_iface_serializable =
  is_name :: rstr
  is_rx_bytes_sec :: u64
  is_tx_bytes_sec :: u64
  is_rx_bytes_total :: u64
  is_tx_bytes_total :: u64

record temp_serializable =
  tz_label :: rstr
  tz_temp_millicelsius :: i32

record stats_serializable =
  ss_cpu_percent :: f64
  ss_cpu_per_core :: "f64 list"
  ss_load_avg_1 :: f64
  ss_load_avg_5 :: f64
  ss_load_avg_15 :: f64
  ss_mem_total :: u64
  ss_mem_used :: u64
  ss_mem_free :: u64
  ss_mem_available :: u64
  ss_mem_buffers :: u64
  ss_mem_cached :: u64
  ss_swap_total :: u64
  ss_swap_used :: u64
  ss_disk_read_bytes_sec :: u64
  ss_disk_write_bytes_sec :: u64
  ss_net_interfaces :: "net_iface_serializable list"
  ss_tcp_connections :: u32
  ss_udp_connections :: u32
  ss_uptime_seconds :: u64
  ss_temperatures :: "temp_serializable list"

definition stats_serializable_from :: "node_stats \<Rightarrow> stats_serializable" where
  "stats_serializable_from s =
     \<lparr>ss_cpu_percent = ns_cpu_percent s,
      ss_cpu_per_core = ns_cpu_per_core s,
      ss_load_avg_1 = ns_load_avg_1 s,
      ss_load_avg_5 = ns_load_avg_5 s,
      ss_load_avg_15 = ns_load_avg_15 s,
      ss_mem_total = ns_mem_total s,
      ss_mem_used = ns_mem_used s,
      ss_mem_free = ns_mem_free s,
      ss_mem_available = ns_mem_available s,
      ss_mem_buffers = ns_mem_buffers s,
      ss_mem_cached = ns_mem_cached s,
      ss_swap_total = ns_swap_total s,
      ss_swap_used = ns_swap_used s,
      ss_disk_read_bytes_sec = ns_disk_read_bytes_sec s,
      ss_disk_write_bytes_sec = ns_disk_write_bytes_sec s,
      ss_net_interfaces = map (\<lambda>n.
        \<lparr>is_name = ni_name n,
         is_rx_bytes_sec = ni_rx_bytes_sec n,
         is_tx_bytes_sec = ni_tx_bytes_sec n,
         is_rx_bytes_total = ni_rx_bytes_total n,
         is_tx_bytes_total = ni_tx_bytes_total n\<rparr>) (ns_net_interfaces s),
      ss_tcp_connections = ns_tcp_connections s,
      ss_udp_connections = ns_udp_connections s,
      ss_uptime_seconds = ns_uptime_seconds s,
      ss_temperatures = map (\<lambda>t.
        \<lparr>tz_label = ts_label t,
         tz_temp_millicelsius = ts_temp_millicelsius t\<rparr>) (ns_temperatures s)\<rparr>"

subsection \<open>JSON values\<close>

record 'j json_lib =
  jl_null :: 'j
  jl_string :: "rstr \<Rightarrow> 'j"
  jl_i64 :: "i64 \<Rightarrow> 'j"
  jl_u64 :: "u64 \<Rightarrow> 'j"
  jl_f64 :: "f64 \<Rightarrow> 'j"
  jl_array :: "'j list \<Rightarrow> 'j"
  jl_object :: "(rstr \<times> 'j) list \<Rightarrow> 'j"
  jl_as_object :: "'j \<Rightarrow> (rstr \<rightharpoonup> 'j) option"
  jl_as_f64 :: "'j \<Rightarrow> f64 option"
  jl_as_u64 :: "'j \<Rightarrow> u64 option"
  jl_to_string :: "'j \<Rightarrow> rstr"
  jl_from_str :: "rstr \<Rightarrow> 'j option"
  jl_stats_to_value :: "stats_serializable \<Rightarrow> 'j option"

text \<open>The field names a derived \<open>Serialize\<close> writes, and the values it writes under them.\<close>

definition net_iface_value :: "'j json_lib \<Rightarrow> net_iface_serializable \<Rightarrow> 'j" where
  "net_iface_value J n = jl_object J
     [(lit ''name'', jl_string J (is_name n)),
      (lit ''rx_bytes_sec'', jl_u64 J (is_rx_bytes_sec n)),
      (lit ''tx_bytes_sec'', jl_u64 J (is_tx_bytes_sec n)),
      (lit ''rx_bytes_total'', jl_u64 J (is_rx_bytes_total n)),
      (lit ''tx_bytes_total'', jl_u64 J (is_tx_bytes_total n))]"

definition temp_value :: "'j json_lib \<Rightarrow> temp_serializable \<Rightarrow> 'j" where
  "temp_value J t = jl_object J
     [(lit ''label'', jl_string J (tz_label t)),
      (lit ''temp_millicelsius'', jl_i64 J (scast (tz_temp_millicelsius t)))]"

definition stats_fields :: "'j json_lib \<Rightarrow> stats_serializable \<Rightarrow> (rstr \<times> 'j) list" where
  "stats_fields J s =
     [(lit ''cpu_percent'', jl_f64 J (ss_cpu_percent s)),
      (lit ''cpu_per_core'', jl_array J (map (jl_f64 J) (ss_cpu_per_core s))),
      (lit ''load_avg_1'', jl_f64 J (ss_load_avg_1 s)),
      (lit ''load_avg_5'', jl_f64 J (ss_load_avg_5 s)),
      (lit ''load_avg_15'', jl_f64 J (ss_load_avg_15 s)),
      (lit ''mem_total'', jl_u64 J (ss_mem_total s)),
      (lit ''mem_used'', jl_u64 J (ss_mem_used s)),
      (lit ''mem_free'', jl_u64 J (ss_mem_free s)),
      (lit ''mem_available'', jl_u64 J (ss_mem_available s)),
      (lit ''mem_buffers'', jl_u64 J (ss_mem_buffers s)),
      (lit ''mem_cached'', jl_u64 J (ss_mem_cached s)),
      (lit ''swap_total'', jl_u64 J (ss_swap_total s)),
      (lit ''swap_used'', jl_u64 J (ss_swap_used s)),
      (lit ''disk_read_bytes_sec'', jl_u64 J (ss_disk_read_bytes_sec s)),
      (lit ''disk_write_bytes_sec'', jl_u64 J (ss_disk_write_bytes_sec s)),
      (lit ''net_interfaces'', jl_array J (map (net_iface_value J) (ss_net_interfaces s))),
      (lit ''tcp_connections'', jl_u64 J (ucast (ss_tcp_connections s))),
      (lit ''udp_connections'', jl_u64 J (ucast (ss_udp_connections s))),
      (lit ''uptime_seconds'', jl_u64 J (ss_uptime_seconds s)),
      (lit ''temperatures'', jl_array J (map (temp_value J) (ss_temperatures s)))]"

definition is_finite :: "f64 \<Rightarrow> bool" where
  "is_finite x \<longleftrightarrow> (case x of FNum _ _ \<Rightarrow> True | _ \<Rightarrow> False)"

text \<open>
  Documented behaviour of \<open>serde_json\<close>: an object built from distinct keys gives back the value
  of each key; a number made of a \<open>u64\<close> or a finite \<open>f64\<close> reads back as that number, a
  non-finite one is written as null, which is no number; a struct serialises to the object of its
  fields; the text of a value parses (a decimal fraction may differ in its last place, since the
  feature \<open>float_roundtrip\<close> is not enabled).
\<close>

definition json_lib_ok :: "'j json_lib \<Rightarrow> bool" where
  "json_lib_ok J \<longleftrightarrow>
     (\<forall>kvs. distinct (map fst kvs) \<longrightarrow> jl_as_object J (jl_object J kvs) = Some (map_of kvs)) \<and>
     (\<forall>n. jl_as_u64 J (jl_u64 J n) = Some n) \<and>
     (\<forall>x. is_finite x \<longrightarrow> jl_as_f64 J (jl_f64 J x) = Some x) \<and>
     (\<forall>x. \<not> is_finite x \<longrightarrow> jl_f64 J x = jl_null J) \<and>
     jl_as_f64 J (jl_null J) = None \<and>
     (\<forall>s. jl_stats_to_value J s = Some (jl_object J (stats_fields J s))) \<and>
     (\<forall>v. \<exists>v'. jl_from_str J (jl_to_string J v) = Some v')"

subsection \<open>Lemmas\<close>

lemma json_lib_okD:
  assumes "json_lib_ok J"
  shows "distinct (map fst kvs) \<Longrightarrow> jl_as_object J (jl_object J kvs) = Some (map_of kvs)"
    and "jl_as_u64 J (jl_u64 J n) = Some n"
    and "is_finite x \<Longrightarrow> jl_as_f64 J (jl_f64 J x) = Some x"
    and "\<not> is_finite x \<Longrightarrow> jl_as_f64 J (jl_f64 J x) = None"
    and "jl_stats_to_value J s = Some (jl_object J (stats_fields J s))"
    and "\<exists>v'. jl_from_str J (jl_to_string J v) = Some v'"
  using assms by (auto simp: json_lib_ok_def)

lemma stats_fields_distinct: "distinct (map fst (stats_fields J s))"
  by (simp add: stats_fields_def lit_def)

lemma stats_value_lookup:
  assumes "json_lib_ok J"
  shows "\<exists>v. jl_stats_to_value J s = Some v \<and> jl_as_object J v = Some (map_of (stats_fields J s))"
  using json_lib_okD(1) [OF assms stats_fields_distinct] json_lib_okD(5) [OF assms] by blast

lemma display_node_status_inj: "display_node_status a = display_node_status b \<Longrightarrow> a = b"
  by (cases a; cases b) (simp_all add: lit_def)

subsection \<open>An instance of the JSON functions\<close>

text \<open>Values as a datatype; the witnesses evaluate the model with it.\<close>

datatype demo_json =
    DNull
  | DString rstr
  | DInt int
  | DFloat f64
  | DArray "demo_json list"
  | DObject "(rstr \<times> demo_json) list"

definition demo_json_lib :: "demo_json json_lib" where
  "demo_json_lib =
     \<lparr>jl_null = DNull,
      jl_string = DString,
      jl_i64 = (\<lambda>n. DInt (sint n)),
      jl_u64 = (\<lambda>n. DInt (uint n)),
      jl_f64 = (\<lambda>x. if is_finite x then DFloat x else DNull),
      jl_array = DArray,
      jl_object = DObject,
      jl_as_object = (\<lambda>v. case v of DObject kvs \<Rightarrow> Some (map_of kvs) | _ \<Rightarrow> None),
      jl_as_f64 = (\<lambda>v. case v of DFloat x \<Rightarrow> Some x | DInt n \<Rightarrow> Some (f64_of_rat (of_int n)) | _ \<Rightarrow> None),
      jl_as_u64 = (\<lambda>v. case v of DInt n \<Rightarrow> if 0 \<le> n \<and> n < 2 ^ 64 then Some (word_of_int n) else None
                          | _ \<Rightarrow> None),
      jl_to_string = (\<lambda>v. case v of DString s \<Rightarrow> lit [CHR 0x22] @ s @ lit [CHR 0x22]
                             | DObject _ \<Rightarrow> lit ''{}'' | _ \<Rightarrow> lit ''null''),
      jl_from_str = (\<lambda>s. Some (if s = lit ''{}'' then DObject [] else DNull)),
      jl_stats_to_value = (\<lambda>s. Some (DObject
        (stats_fields
          \<lparr>jl_null = DNull, jl_string = DString, jl_i64 = (\<lambda>n. DInt (sint n)),
           jl_u64 = (\<lambda>n. DInt (uint n)), jl_f64 = (\<lambda>x. if is_finite x then DFloat x else DNull),
           jl_array = DArray, jl_object = DObject, jl_as_object = (\<lambda>_. None),
           jl_as_f64 = (\<lambda>_. None), jl_as_u64 = (\<lambda>_. None), jl_to_string = (\<lambda>_. []),
           jl_from_str = (\<lambda>_. None), jl_stats_to_value = (\<lambda>_. None)\<rparr> s)))\<rparr>"

definition demo_stats :: "rstr \<Rightarrow> node_stats" where
  "demo_stats n =
     \<lparr>ns_node_id = n, ns_timestamp_ms = 5, ns_cpu_percent = FNum False 50, ns_cpu_per_core = [],
      ns_load_avg_1 = FNum False 1, ns_load_avg_5 = FNum False 1, ns_load_avg_15 = FNum False 1,
      ns_mem_total = 1024, ns_mem_used = 512, ns_mem_free = 512, ns_mem_available = 512,
      ns_mem_buffers = 0, ns_mem_cached = 0, ns_swap_total = 0, ns_swap_used = 0,
      ns_disk_read_bytes_sec = 0, ns_disk_write_bytes_sec = 0, ns_net_interfaces = [],
      ns_tcp_connections = 1, ns_udp_connections = 0, ns_uptime_seconds = 60, ns_temperatures = []\<rparr>"

lemma demo_json_lib_ok: "json_lib_ok demo_json_lib"
proof -
  have "stats_fields demo_json_lib s = stats_fields
          \<lparr>jl_null = DNull, jl_string = DString, jl_i64 = (\<lambda>n. DInt (sint n)),
           jl_u64 = (\<lambda>n. DInt (uint n)), jl_f64 = (\<lambda>x. if is_finite x then DFloat x else DNull),
           jl_array = DArray, jl_object = DObject, jl_as_object = (\<lambda>_. None),
           jl_as_f64 = (\<lambda>_. None), jl_as_u64 = (\<lambda>_. None), jl_to_string = (\<lambda>_. []),
           jl_from_str = (\<lambda>_. None), jl_stats_to_value = (\<lambda>_. None)\<rparr> s" for s
    by (simp add: stats_fields_def demo_json_lib_def net_iface_value_def [abs_def] temp_value_def [abs_def])
  moreover have "uint n < 18446744073709551616" for n :: u64
    using uint_lt2p [of n] by simp
  ultimately show ?thesis
    by (simp add: json_lib_ok_def demo_json_lib_def)
qed

lemma demo_json_simps [simp]:
  "jl_array demo_json_lib = DArray" "jl_object demo_json_lib = DObject" "jl_u64 demo_json_lib n = DInt (uint n)"
  "jl_null demo_json_lib = DNull"
  by (simp_all add: demo_json_lib_def)

lemma demo_from_str [simp]:
  "jl_from_str demo_json_lib s = Some (if s = lit ''{}'' then DObject [] else DNull)"
  by (simp add: demo_json_lib_def)

end
