(* ===== verification/Pulse_Db.thy ===== *)
theory Pulse_Db
  imports Pulse_Node "HOL-Library.Multiset"
begin

text \<open>
  src/pulse-server/src/db.rs: the repository over PostgreSQL, with the tables of
  migrations/001_init.sql. Each statement of the source is a function on the tables; a
  constraint of the schema it violates is \<open>None\<close>. What happens to a call besides is its
  \<open>db_outcome\<close>, an argument: it is executed, it fails before it reaches the tables, or it is
  executed and the answer is lost. The clock is an argument (\<open>now_ms\<close>).

  SQL leaves the order of rows open where no \<open>ORDER BY\<close> fixes it: \<open>scan\<close> is the order in which
  a query meets the rows of a table, an argument that need only be a permutation.

  The schema's contract is the locale \<open>node_repository\<close>: every operation keeps the rows of the
  child tables attached to a node; \<open>pg\<close> proves it for the statements. What the queries answer after a
  history of calls (\<open>repo_op\<close>) is specified on the history itself: \<open>last_upsert\<close> and \<open>stored_by\<close>.
\<close>

subsection \<open>Tables\<close>

record node_record =
  nr_hostname :: rstr
  nr_last_seen :: i64
  nr_status :: rstr

record 'j snapshot_row =
  sr_node_id :: rstr
  sr_timestamp :: i64
  sr_stats_json :: 'j

record probe_row =
  pw_node_id :: rstr
  pw_target :: rstr
  pw_success :: bool
  pw_latency_us :: i64
  pw_error_message :: rstr
  pw_timestamp :: i64

record 'j database =
  db_nodes :: "rstr \<rightharpoonup> node_record"
  db_snapshots :: "'j snapshot_row list"
  db_probes :: "probe_row list"

definition database_new :: "'j database" where
  "database_new = \<lparr>db_nodes = Map.empty, db_snapshots = [], db_probes = []\<rparr>"

record 'j node_row =
  nw_id :: rstr
  nw_hostname :: rstr
  nw_last_seen :: i64
  nw_status :: rstr
  nw_stats_json :: "'j option"

record 'j snapshot_record =
  sd_node_id :: rstr
  sd_timestamp :: i64
  sd_stats_json :: 'j

subsection \<open>Calls\<close>

datatype db_outcome = Executed | NotExecuted | ReplyLost

datatype db_error = DbError

type_synonym 'j store = "'j database \<times> metrics"

text \<open>
  The frame all operations but \<open>cleanup_old_snapshots\<close> share: run the statement, the only await of the
  operation; then observe the latency, count an error, return.
\<close>

definition run_stmt ::
  "db_outcome \<Rightarrow> ('j database \<Rightarrow> ('r \<times> 'j database) option) \<Rightarrow> 'j database \<Rightarrow> (db_error + 'r) \<times> 'j database" where
  "run_stmt outcome stmt db =
     (case outcome of
        NotExecuted \<Rightarrow> (Inl DbError, db)
      | Executed \<Rightarrow> (case stmt db of None \<Rightarrow> (Inl DbError, db) | Some (r, db') \<Rightarrow> (Inr r, db'))
      | ReplyLost \<Rightarrow> (case stmt db of None \<Rightarrow> (Inl DbError, db) | Some (r, db') \<Rightarrow> (Inl DbError, db')))"

definition count_query :: "rstr \<Rightarrow> db_error + 'r \<Rightarrow> metrics \<Rightarrow> metrics" where
  "count_query op res m =
     (let m = observe_db_latency op m in case res of Inl _ \<Rightarrow> inc_db_error op m | Inr _ \<Rightarrow> m)"

definition query ::
  "rstr \<Rightarrow> db_outcome \<Rightarrow> ('j database \<Rightarrow> ('r \<times> 'j database) option) \<Rightarrow> 'j store \<Rightarrow>
   (db_error + 'r) \<times> 'j store" where
  "query op outcome stmt st =
     (let (db, m) = st;
          (res, db') = run_stmt outcome stmt db
      in (res, db', count_query op res m))"

lemmas query_defs = query_def run_stmt_def count_query_def

subsection \<open>Writing\<close>

definition upsert_node ::
  "db_outcome \<Rightarrow> i64 \<Rightarrow> rstr \<Rightarrow> rstr \<Rightarrow> rstr \<Rightarrow> 'j store \<Rightarrow> (db_error + unit) \<times> 'j store" where
  "upsert_node outcome now_ms node_id hostname status =
     query (lit ''upsert_node'') outcome (\<lambda>db.
       Some ((), db\<lparr>db_nodes := (db_nodes db)(node_id \<mapsto>
         \<lparr>nr_hostname = hostname, nr_last_seen = now_ms, nr_status = status\<rparr>)\<rparr>))"

definition insert_snapshot ::
  "'j json_lib \<Rightarrow> db_outcome \<Rightarrow> rstr \<Rightarrow> i64 \<Rightarrow> rstr \<Rightarrow> 'j store \<Rightarrow>
   (db_error + unit) \<times> 'j store" where
  "insert_snapshot J outcome node_id timestamp_ms stats_json =
     (let stats_val = unwrap_or (jl_from_str J stats_json) (jl_null J) in
      query (lit ''insert_snapshot'') outcome (\<lambda>db.
        if node_id \<in> dom (db_nodes db)
        then Some ((), db\<lparr>db_snapshots := db_snapshots db @
               [\<lparr>sr_node_id = node_id, sr_timestamp = timestamp_ms, sr_stats_json = stats_val\<rparr>]\<rparr>)
        else None))"

definition insert_probe_result ::
  "db_outcome \<Rightarrow> rstr \<Rightarrow> rstr \<Rightarrow> bool \<Rightarrow> i64 \<Rightarrow> rstr \<Rightarrow> i64 \<Rightarrow> 'j store \<Rightarrow>
   (db_error + unit) \<times> 'j store" where
  "insert_probe_result outcome node_id target success latency_us error_message timestamp =
     query (lit ''insert_probe_result'') outcome (\<lambda>db.
       if node_id \<in> dom (db_nodes db)
       then Some ((), db\<lparr>db_probes := db_probes db @
              [\<lparr>pw_node_id = node_id, pw_target = target, pw_success = success,
                pw_latency_us = latency_us, pw_error_message = error_message,
                pw_timestamp = timestamp\<rparr>]\<rparr>)
       else None)"

subsection \<open>Reading\<close>

text \<open>\<open>ORDER BY timestamp DESC\<close>\<close>

definition order_by_timestamp_desc :: "'j snapshot_row list \<Rightarrow> 'j snapshot_row list" where
  "order_by_timestamp_desc = sort_key (\<lambda>r. - sint (sr_timestamp r))"

definition node_info_of_row :: "'j node_row \<Rightarrow> 'j node_info" where
  "node_info_of_row row =
     (let status = (if nw_status row = lit ''online'' then Online
                    else if nw_status row = lit ''offline'' then Offline
                    else Unknown)
      in \<lparr>nf_node_id = nw_id row,
          nf_hostname = nw_hostname row,
          nf_last_seen_ms = nw_last_seen row,
          nf_status = status,
          nf_latest_stats = nw_stats_json row\<rparr>)"

text \<open>
  The rows of \<open>nodes n LEFT JOIN snapshots s ON s.node_id = n.id\<close> for one node, by descending
  timestamp: one row per snapshot, or one row without statistics.
\<close>

definition joined_rows ::
  "('j snapshot_row list \<Rightarrow> 'j snapshot_row list) \<Rightarrow> 'j database \<Rightarrow> rstr \<Rightarrow> 'j node_row list" where
  "joined_rows scan db node_id =
     (case db_nodes db node_id of
        None \<Rightarrow> []
      | Some n \<Rightarrow>
          (let row = (\<lambda>stats. \<lparr>nw_id = node_id, nw_hostname = nr_hostname n,
                 nw_last_seen = nr_last_seen n, nw_status = nr_status n, nw_stats_json = stats\<rparr>);
               snaps = order_by_timestamp_desc (filter (\<lambda>s. sr_node_id s = node_id) (scan (db_snapshots db)))
           in if snaps = [] then [row None] else map (\<lambda>s. row (Some (sr_stats_json s))) snaps))"

text \<open>
  The statement for all nodes is evaluated as SQL has it: the rows of the whole join, each with the
  timestamp of its snapshot (\<open>NULL\<close> where there is none), ordered by \<open>n.id\<close> and then by descending
  timestamp (\<open>NULL\<close> first), of which \<open>DISTINCT ON (n.id)\<close> keeps the first of each run with one id.
  \<open>ids\<close> lists the nodes in the order of the database's collation.
\<close>

definition left_join ::
  "('j snapshot_row list \<Rightarrow> 'j snapshot_row list) \<Rightarrow> 'j database \<Rightarrow> rstr list \<Rightarrow> ('j node_row \<times> i64 option) list" where
  "left_join scan db ids = concat (map (\<lambda>i.
     case db_nodes db i of
       None \<Rightarrow> []
     | Some n \<Rightarrow>
         (let row = (\<lambda>stats. \<lparr>nw_id = i, nw_hostname = nr_hostname n,
                nw_last_seen = nr_last_seen n, nw_status = nr_status n, nw_stats_json = stats\<rparr>);
              snaps = filter (\<lambda>s. sr_node_id s = i) (scan (db_snapshots db))
          in if snaps = [] then [(row None, None)]
             else map (\<lambda>s. (row (Some (sr_stats_json s)), Some (sr_timestamp s))) snaps)) ids)"

definition timestamp_rank :: "'a \<times> i64 option \<Rightarrow> int" where
  "timestamp_rank r = (case snd r of None \<Rightarrow> - (2 ^ 63) | Some t \<Rightarrow> - sint t)"

definition id_rank :: "rstr list \<Rightarrow> 'j node_row \<times> 'b \<Rightarrow> nat" where
  "id_rank ids r = length (takeWhile (\<lambda>i. i \<noteq> nw_id (fst r)) ids)"

lemma dropWhile_shorter [termination_simp]: "length (dropWhile P xs) < Suc (length xs)"
  by (simp add: le_imp_less_Suc length_dropWhile_le)

fun distinct_on :: "('a \<Rightarrow> 'k) \<Rightarrow> 'a list \<Rightarrow> 'a list" where
  "distinct_on key [] = []"
| "distinct_on key (r # rs) = r # distinct_on key (dropWhile (\<lambda>q. key q = key r) rs)"

definition all_rows ::
  "('j snapshot_row list \<Rightarrow> 'j snapshot_row list) \<Rightarrow> 'j database \<Rightarrow> rstr list \<Rightarrow> 'j node_row list" where
  "all_rows scan db ids =
     map fst (distinct_on (\<lambda>r. nw_id (fst r)) (sort_key (id_rank ids) (sort_key timestamp_rank (left_join scan db ids))))"

definition get_all_nodes ::
  "('j snapshot_row list \<Rightarrow> 'j snapshot_row list) \<Rightarrow> rstr list \<Rightarrow> db_outcome \<Rightarrow> 'j store \<Rightarrow>
   (db_error + 'j node_info list) \<times> 'j store" where
  "get_all_nodes scan ids outcome =
     query (lit ''get_all_nodes'') outcome (\<lambda>db. Some (map node_info_of_row (all_rows scan db ids), db))"

definition select_node ::
  "('j snapshot_row list \<Rightarrow> 'j snapshot_row list) \<Rightarrow> rstr \<Rightarrow> 'j database \<Rightarrow> ('j node_info option \<times> 'j database) option" where
  "select_node scan node_id db =
     Some (case take 1 (joined_rows scan db node_id) of
             [] \<Rightarrow> None
           | row # _ \<Rightarrow> Some (node_info_of_row row), db)"

definition get_node ::
  "('j snapshot_row list \<Rightarrow> 'j snapshot_row list) \<Rightarrow> db_outcome \<Rightarrow> rstr \<Rightarrow> 'j store \<Rightarrow>
   (db_error + 'j node_info option) \<times> 'j store" where
  "get_node scan outcome node_id =
     query (lit ''get_node'') outcome (select_node scan node_id)"

text \<open>A negative \<open>LIMIT\<close> is an error of the statement.\<close>

definition select_snapshots ::
  "('j snapshot_row list \<Rightarrow> 'j snapshot_row list) \<Rightarrow> rstr \<Rightarrow> i64 \<Rightarrow> i64 \<Rightarrow> i64 \<Rightarrow> 'j database \<Rightarrow>
   ('j snapshot_record list \<times> 'j database) option" where
  "select_snapshots scan node_id from_ms to_ms limit db =
     (if sint limit < 0 then None
      else Some (map (\<lambda>r. \<lparr>sd_node_id = sr_node_id r, sd_timestamp = sr_timestamp r,
                          sd_stats_json = sr_stats_json r\<rparr>)
             (take (nat (sint limit)) (order_by_timestamp_desc
               (filter (\<lambda>r. sr_node_id r = node_id \<and> from_ms \<le>s sr_timestamp r \<and> sr_timestamp r \<le>s to_ms)
                 (scan (db_snapshots db))))), db))"

definition get_snapshots ::
  "('j snapshot_row list \<Rightarrow> 'j snapshot_row list) \<Rightarrow> db_outcome \<Rightarrow> rstr \<Rightarrow> i64 \<Rightarrow> i64 \<Rightarrow> i64 \<Rightarrow>
   'j store \<Rightarrow> (db_error + 'j snapshot_record list) \<times> 'j store" where
  "get_snapshots scan outcome node_id from_ms to_ms limit =
     query (lit ''get_snapshots'') outcome (select_snapshots scan node_id from_ms to_ms limit)"

subsection \<open>Deleting\<close>

definition delete_snapshots :: "i64 \<Rightarrow> 'j database \<Rightarrow> nat \<times> 'j database" where
  "delete_snapshots before_ms db =
     (length (filter (\<lambda>r. sr_timestamp r <s before_ms) (db_snapshots db)),
      db\<lparr>db_snapshots := filter (\<lambda>r. \<not> sr_timestamp r <s before_ms) (db_snapshots db)\<rparr>)"

definition delete_probes :: "i64 \<Rightarrow> 'j database \<Rightarrow> nat \<times> 'j database" where
  "delete_probes before_ms db =
     (length (filter (\<lambda>r. pw_timestamp r <s before_ms) (db_probes db)),
      db\<lparr>db_probes := filter (\<lambda>r. \<not> pw_timestamp r <s before_ms) (db_probes db)\<rparr>)"

definition execute :: "db_outcome \<Rightarrow> ('j database \<Rightarrow> 'r \<times> 'j database) \<Rightarrow> 'j database \<Rightarrow>
  (db_error + 'r) \<times> 'j database" where
  "execute outcome stmt db =
     (case outcome of
        NotExecuted \<Rightarrow> (Inl DbError, db)
      | Executed \<Rightarrow> (let (r, db') = stmt db in (Inr r, db'))
      | ReplyLost \<Rightarrow> (let (r, db') = stmt db in (Inl DbError, db')))"

text \<open>The latency is observed only when both statements succeed.\<close>

definition cleanup_old_snapshots ::
  "db_outcome \<Rightarrow> db_outcome \<Rightarrow> i64 \<Rightarrow> 'j store \<Rightarrow> (db_error + nat) \<times> 'j store" where
  "cleanup_old_snapshots outcome_snaps outcome_probes before_ms st =
     (let (db, m) = st in
      case execute outcome_snaps (delete_snapshots before_ms) db of
        (Inl e, db) \<Rightarrow> (Inl e, db, inc_db_error (lit ''cleanup_old_snapshots'') m)
      | (Inr n, db) \<Rightarrow>
          (case execute outcome_probes (delete_probes before_ms) db of
             (Inl e, db) \<Rightarrow> (Inl e, db, inc_db_error (lit ''cleanup_old_snapshots'') m)
           | (Inr k, db) \<Rightarrow> (Inr (n + k), db, observe_db_latency (lit ''cleanup_old_snapshots'') m)))"

subsection \<open>Specification\<close>

text \<open>Every snapshot and every probe result belongs to a node of the table \<open>nodes\<close>.\<close>

definition db_ok :: "'j database \<Rightarrow> bool" where
  "db_ok db \<longleftrightarrow>
     finite (dom (db_nodes db)) \<and>
     sr_node_id ` set (db_snapshots db) \<subseteq> dom (db_nodes db) \<and>
     pw_node_id ` set (db_probes db) \<subseteq> dom (db_nodes db)"

definition scan_ok :: "('a list \<Rightarrow> 'a list) \<Rightarrow> bool" where
  "scan_ok scan \<longleftrightarrow> (\<forall>xs. mset (scan xs) = mset xs)"

text \<open>The part of a multiset of snapshots an answer may leave out: nothing newer than what it
  contains.\<close>

definition newest_of :: "'j snapshot_row list \<Rightarrow> 'j snapshot_row list \<Rightarrow> bool" where
  "newest_of rs all \<longleftrightarrow>
     sorted (map (\<lambda>r. - sint (sr_timestamp r)) rs) \<and>
     (\<exists>rest. mset all = mset rs + rest \<and>
        (\<forall>r \<in> set rs. \<forall>q \<in># rest. sint (sr_timestamp q) \<le> sint (sr_timestamp r)))"

text \<open>The nodes that have rows in a child table.\<close>

definition db_attached :: "'j store \<Rightarrow> rstr set" where
  "db_attached st = sr_node_id ` set (db_snapshots (fst st)) \<union> pw_node_id ` set (db_probes (fst st))"

definition db_known :: "'j store \<Rightarrow> rstr set" where
  "db_known st = dom (db_nodes (fst st))"

text \<open>A history of calls on the repository.\<close>

datatype repo_op =
    OpUpsert db_outcome i64 rstr rstr rstr
  | OpSnapshot db_outcome rstr i64 rstr
  | OpProbe db_outcome rstr rstr bool i64 rstr i64
  | OpCleanup db_outcome db_outcome i64

primrec repo_apply :: "'j json_lib \<Rightarrow> repo_op \<Rightarrow> 'j store \<Rightarrow> 'j store" where
  "repo_apply J (OpUpsert oc now n h s) st = snd (upsert_node oc now n h s st)"
| "repo_apply J (OpSnapshot oc n ts str) st = snd (insert_snapshot J oc n ts str st)"
| "repo_apply J (OpProbe oc n tg ok lat e ts) st = snd (insert_probe_result oc n tg ok lat e ts st)"
| "repo_apply J (OpCleanup o1 o2 b) st = snd (cleanup_old_snapshots o1 o2 b st)"

text \<open>
  What a history leaves behind, read off the history itself: of every node the last upsert that took
  effect; the snapshots and probe results whose call took effect, whose node had been upserted by
  then, and which no later cleanup that took effect was to remove. A call whose answer is lost takes
  effect; a cleanup reaches the probe results only when its first statement was answered.
\<close>

fun upsert_of :: "repo_op \<Rightarrow> (rstr \<times> node_record) option" where
  "upsert_of (OpUpsert oc now n h s) =
     (if oc = NotExecuted then None else Some (n, \<lparr>nr_hostname = h, nr_last_seen = now, nr_status = s\<rparr>))"
| "upsert_of _ = None"

definition last_upsert :: "repo_op list \<Rightarrow> rstr \<rightharpoonup> node_record" where
  "last_upsert ops = map_of (List.map_filter upsert_of (rev ops))"

fun snapshot_bound :: "repo_op \<Rightarrow> i64 option" where
  "snapshot_bound (OpCleanup o1 o2 b) = (if o1 = NotExecuted then None else Some b)"
| "snapshot_bound _ = None"

fun probe_bound :: "repo_op \<Rightarrow> i64 option" where
  "probe_bound (OpCleanup o1 o2 b) = (if o1 = Executed \<and> o2 \<noteq> NotExecuted then Some b else None)"
| "probe_bound _ = None"

definition outlives :: "(repo_op \<Rightarrow> i64 option) \<Rightarrow> i64 \<Rightarrow> repo_op list \<Rightarrow> bool" where
  "outlives bound ts later \<longleftrightarrow> (\<forall>op \<in> set later. \<forall>b. bound op = Some b \<longrightarrow> sint b \<le> sint ts)"

fun snapshot_of_op :: "'j json_lib \<Rightarrow> repo_op list \<Rightarrow> repo_op \<Rightarrow> repo_op list \<Rightarrow> 'j snapshot_row list" where
  "snapshot_of_op J earlier (OpSnapshot oc n ts str) later =
     (if oc \<noteq> NotExecuted \<and> n \<in> dom (last_upsert earlier) \<and> outlives snapshot_bound ts later
      then [\<lparr>sr_node_id = n, sr_timestamp = ts, sr_stats_json = unwrap_or (jl_from_str J str) (jl_null J)\<rparr>] else [])"
| "snapshot_of_op J earlier _ later = []"

fun probe_of_op :: "repo_op list \<Rightarrow> repo_op \<Rightarrow> repo_op list \<Rightarrow> probe_row list" where
  "probe_of_op earlier (OpProbe oc n tg ok lat e ts) later =
     (if oc \<noteq> NotExecuted \<and> n \<in> dom (last_upsert earlier) \<and> outlives probe_bound ts later
      then [\<lparr>pw_node_id = n, pw_target = tg, pw_success = ok, pw_latency_us = lat, pw_error_message = e, pw_timestamp = ts\<rparr>] else [])"
| "probe_of_op earlier _ later = []"

definition stored_by :: "(repo_op list \<Rightarrow> repo_op \<Rightarrow> repo_op list \<Rightarrow> 'r list) \<Rightarrow> repo_op list \<Rightarrow> 'r list" where
  "stored_by row ops = concat (map (\<lambda>i. row (take i ops) (ops ! i) (drop (Suc i) ops)) [0..<length ops])"

subsection \<open>Lemmas: calls\<close>

lemma query_NotExecuted [simp]:
  "query op NotExecuted stmt (db, m) = (Inl DbError, db, inc_db_error op (observe_db_latency op m))"
  by (simp add: query_defs)

lemma query_None:
  "stmt db = None \<Longrightarrow>
   query op oc stmt (db, m) = (Inl DbError, db, inc_db_error op (observe_db_latency op m))"
  by (cases oc) (simp_all add: query_defs)

lemma query_Executed:
  "stmt db = Some (r, db') \<Longrightarrow> query op Executed stmt (db, m) = (Inr r, db', observe_db_latency op m)"
  by (simp add: query_defs)

lemma query_ReplyLost:
  "stmt db = Some (r, db') \<Longrightarrow>
   query op ReplyLost stmt (db, m) = (Inl DbError, db', inc_db_error op (observe_db_latency op m))"
  by (simp add: query_defs)

lemma query_db:
  "fst (snd (query op oc stmt (db, m))) =
     (case stmt db of None \<Rightarrow> db | Some (r, db') \<Rightarrow> if oc = NotExecuted then db else db')"
  by (cases oc) (simp_all add: query_defs split: option.split prod.split)

lemma query_Inr_iff:
  "fst (query op oc stmt (db, m)) = Inr r \<longleftrightarrow> oc = Executed \<and> (\<exists>db'. stmt db = Some (r, db'))"
  by (cases oc) (auto simp: query_defs split: option.split prod.split)

text \<open>An error of any operation is counted once under its name.\<close>

lemma query_counts:
  "DB_LATENCY (snd (snd (query op oc stmt (db, m)))) = incr op (DB_LATENCY m) \<and>
   DB_ERRORS (snd (snd (query op oc stmt (db, m)))) =
     (if isl (fst (query op oc stmt (db, m))) then incr op (DB_ERRORS m) else DB_ERRORS m)"
  by (cases oc)
    (simp_all add: query_defs observe_db_latency_def inc_db_error_def split: option.split prod.split)

lemma db_okI:
  assumes "finite (dom (db_nodes db))"
    and "\<And>r. r \<in> set (db_snapshots db) \<Longrightarrow> sr_node_id r \<in> dom (db_nodes db)"
    and "\<And>r. r \<in> set (db_probes db) \<Longrightarrow> pw_node_id r \<in> dom (db_nodes db)"
  shows "db_ok db"
  using assms by (auto simp: db_ok_def)

lemma db_ok_query:
  assumes "db_ok db" "\<And>r db'. stmt db = Some (r, db') \<Longrightarrow> db_ok db'"
  shows "db_ok (fst (snd (query op oc stmt (db, m))))"
  using assms by (auto simp: query_db split: option.split)

lemma db_ok_execute:
  assumes "db_ok db" "db_ok (snd (stmt db))"
  shows "db_ok (snd (execute oc stmt db))"
  using assms by (cases oc) (auto simp: execute_def split: prod.split)

lemma db_ok_delete:
  "db_ok db \<Longrightarrow> db_ok (snd (delete_snapshots b db))"
  "db_ok db \<Longrightarrow> db_ok (snd (delete_probes b db))"
  by (auto simp: db_ok_def delete_snapshots_def delete_probes_def)

subsection \<open>Lemmas: the operations\<close>

lemma upsert_node_db:
  "fst (snd (upsert_node oc now n h s (db, m))) =
     (if oc = NotExecuted then db else
        db\<lparr>db_nodes := (db_nodes db)(n \<mapsto> \<lparr>nr_hostname = h, nr_last_seen = now, nr_status = s\<rparr>)\<rparr>)"
  by (simp add: upsert_node_def query_db)

lemma upsert_node_fst: "fst (upsert_node oc now n h s (db, m)) = (if oc = Executed then Inr () else Inl DbError)"
  by (cases oc) (simp_all add: upsert_node_def query_Executed query_ReplyLost)

lemma insert_snapshot_db:
  "fst (snd (insert_snapshot J oc n ts str (db, m))) =
     (if oc = NotExecuted \<or> n \<notin> dom (db_nodes db) then db else
        db\<lparr>db_snapshots := db_snapshots db @ [\<lparr>sr_node_id = n, sr_timestamp = ts,
              sr_stats_json = unwrap_or (jl_from_str J str) (jl_null J)\<rparr>]\<rparr>)"
  by (simp add: insert_snapshot_def query_db Let_def)

lemma insert_snapshot_fst:
  "fst (insert_snapshot J oc n ts str (db, m)) =
     (if oc = Executed \<and> n \<in> dom (db_nodes db) then Inr () else Inl DbError)"
  by (cases oc; cases "n \<in> dom (db_nodes db)")
    (simp_all add: insert_snapshot_def query_Executed query_ReplyLost query_None Let_def)

lemma insert_probe_result_db:
  "fst (snd (insert_probe_result oc n tg ok lat e ts (db, m))) =
     (if oc = NotExecuted \<or> n \<notin> dom (db_nodes db) then db else
        db\<lparr>db_probes := db_probes db @ [\<lparr>pw_node_id = n, pw_target = tg, pw_success = ok,
              pw_latency_us = lat, pw_error_message = e, pw_timestamp = ts\<rparr>]\<rparr>)"
  by (simp add: insert_probe_result_def query_db)

lemma insert_probe_result_fst:
  "fst (insert_probe_result oc n tg ok lat e ts (db, m)) =
     (if oc = Executed \<and> n \<in> dom (db_nodes db) then Inr () else Inl DbError)"
  by (cases oc; cases "n \<in> dom (db_nodes db)")
    (simp_all add: insert_probe_result_def query_Executed query_ReplyLost query_None)

lemma reading_db [simp]:
  "fst (snd (get_all_nodes scan ids oc (db, m))) = db"
  "fst (snd (get_node scan oc n (db, m))) = db"
  "fst (snd (get_snapshots scan oc n from_ms to_ms limit (db, m))) = db"
  by (simp_all add: get_all_nodes_def get_node_def select_node_def get_snapshots_def select_snapshots_def query_db)

lemma db_ok_upsert: "db_ok (fst st) \<Longrightarrow> db_ok (fst (snd (upsert_node oc now n h s st)))"
  by (cases st) (auto simp: upsert_node_db db_ok_def)

lemma db_ok_insert_snapshot: "db_ok (fst st) \<Longrightarrow> db_ok (fst (snd (insert_snapshot J oc n ts str st)))"
  by (cases st) (auto simp: insert_snapshot_db db_ok_def)

lemma db_ok_insert_probe: "db_ok (fst st) \<Longrightarrow> db_ok (fst (snd (insert_probe_result oc n tg ok lat e ts st)))"
  by (cases st) (auto simp: insert_probe_result_db db_ok_def)

lemma db_ok_cleanup: "db_ok (fst st) \<Longrightarrow> db_ok (fst (snd (cleanup_old_snapshots o1 o2 b st)))"
  using db_ok_execute [of "fst st" "delete_snapshots b" o1]
    db_ok_execute [of "snd (execute o1 (delete_snapshots b) (fst st))" "delete_probes b" o2]
  by (cases st) (auto simp: cleanup_old_snapshots_def db_ok_delete split: prod.split sum.split)

subsection \<open>The repository interface\<close>

text \<open>
  The trait \<open>NodeRepository\<close> as its callers use it, over any state \<open>'s\<close>: \<open>known\<close> are the nodes
  it has, \<open>attached\<close> the nodes that own snapshots or probe results.
\<close>

locale node_repository =
  fixes upsert :: "db_outcome \<Rightarrow> i64 \<Rightarrow> rstr \<Rightarrow> rstr \<Rightarrow> rstr \<Rightarrow> 's \<Rightarrow> (db_error + unit) \<times> 's"
    and snapshot :: "db_outcome \<Rightarrow> rstr \<Rightarrow> i64 \<Rightarrow> rstr \<Rightarrow> 's \<Rightarrow> (db_error + unit) \<times> 's"
    and probe :: "db_outcome \<Rightarrow> rstr \<Rightarrow> rstr \<Rightarrow> bool \<Rightarrow> i64 \<Rightarrow> rstr \<Rightarrow> i64 \<Rightarrow> 's \<Rightarrow> (db_error + unit) \<times> 's"
    and cleanup :: "db_outcome \<Rightarrow> db_outcome \<Rightarrow> i64 \<Rightarrow> 's \<Rightarrow> (db_error + nat) \<times> 's"
    and known :: "'s \<Rightarrow> rstr set"
    and attached :: "'s \<Rightarrow> rstr set"
  assumes upsert_ok: "fst (upsert oc now n h st s) = Inr () \<longleftrightarrow> oc = Executed"
    and known_upsert: "known (snd (upsert oc now n h st s)) = (if oc = NotExecuted then known s else insert n (known s))"
    and attached_upsert: "attached (snd (upsert oc now n h st s)) = attached s"
    and snapshot_ok: "fst (snapshot oc n ts str s) = Inr () \<longleftrightarrow> oc = Executed \<and> n \<in> known s"
    and known_snapshot: "known (snd (snapshot oc n ts str s)) = known s"
    and attached_snapshot: "attached (snd (snapshot oc n ts str s)) =
          (if oc = NotExecuted \<or> n \<notin> known s then attached s else insert n (attached s))"
    and probe_ok: "fst (probe oc n tg b lat e ts s) = Inr () \<longleftrightarrow> oc = Executed \<and> n \<in> known s"
    and known_probe: "known (snd (probe oc n tg b lat e ts s)) = known s"
    and attached_probe: "attached (snd (probe oc n tg b lat e ts s)) =
          (if oc = NotExecuted \<or> n \<notin> known s then attached s else insert n (attached s))"
    and known_cleanup: "known (snd (cleanup oc oc' before s)) = known s"
    and attached_cleanup: "attached (snd (cleanup oc oc' before s)) \<subseteq> attached s"
begin

lemma integrity_upsert: "attached s \<subseteq> known s \<Longrightarrow> attached (snd (upsert oc now n h st s)) \<subseteq> known (snd (upsert oc now n h st s))"
  by (auto simp: attached_upsert known_upsert)

lemma integrity_snapshot: "attached s \<subseteq> known s \<Longrightarrow> attached (snd (snapshot oc n ts str s)) \<subseteq> known (snd (snapshot oc n ts str s))"
  by (auto simp: attached_snapshot known_snapshot)

lemma integrity_probe: "attached s \<subseteq> known s \<Longrightarrow> attached (snd (probe oc n tg b lat e ts s)) \<subseteq> known (snd (probe oc n tg b lat e ts s))"
  by (auto simp: attached_probe known_probe)

lemma integrity_cleanup: "attached s \<subseteq> known s \<Longrightarrow> attached (snd (cleanup oc oc' before s)) \<subseteq> known (snd (cleanup oc oc' before s))"
  using attached_cleanup [of oc oc' before s] by (auto simp: known_cleanup)

text \<open>What the ingestion worker relies on: a snapshot sent right after the upsert of its node is
  accepted, and the node stays known.\<close>

lemma snapshot_after_upsert:
  assumes "oc \<noteq> NotExecuted"
  shows "fst (snapshot Executed n ts str (snd (upsert oc now n h st s))) = Inr ()"
    and "n \<in> known (snd (snapshot oc' n ts str (snd (upsert oc now n h st s))))"
  using assms by (simp_all add: snapshot_ok known_upsert known_snapshot)

lemma probe_of_unknown_node:
  assumes "n \<notin> known s"
  shows "fst (probe oc n tg b lat e ts s) \<noteq> Inr ()"
    and "attached (snd (probe oc n tg b lat e ts s)) = attached s"
  using assms by (simp_all add: probe_ok attached_probe)

end

lemma cleanup_db:
  "fst (snd (cleanup_old_snapshots o1 o2 b (db, m))) =
     (if o1 = NotExecuted then db
      else if o1 = ReplyLost \<or> o2 = NotExecuted then snd (delete_snapshots b db)
      else snd (delete_probes b (snd (delete_snapshots b db))))"
  by (cases o1; cases o2) (simp_all add: cleanup_old_snapshots_def execute_def split: prod.split)

interpretation pg: node_repository upsert_node "insert_snapshot J" insert_probe_result
  cleanup_old_snapshots db_known db_attached
  for J :: "'j json_lib"
proof unfold_locales
  fix s :: "'j store"
  obtain db m where s: "s = (db, m)" by (cases s)
  show "db_attached (snd (cleanup_old_snapshots oc oc' b s)) \<subseteq> db_attached s" for oc oc' b
    by (auto simp: s db_attached_def cleanup_db delete_snapshots_def delete_probes_def)
  show "db_known (snd (cleanup_old_snapshots oc oc' b s)) = db_known s" for oc oc' b
    by (auto simp: s db_known_def cleanup_db delete_snapshots_def delete_probes_def)
qed (auto simp: db_known_def db_attached_def upsert_node_fst upsert_node_db insert_snapshot_fst
       insert_snapshot_db insert_probe_result_fst insert_probe_result_db split: if_splits)

lemma repo_apply_integrity: "db_attached st \<subseteq> db_known st \<Longrightarrow> db_attached (repo_apply J op st) \<subseteq> db_known (repo_apply J op st)"
  by (cases op)
    (simp_all add: pg.integrity_upsert pg.integrity_snapshot pg.integrity_probe pg.integrity_cleanup)

subsection \<open>Lemmas: histories\<close>

lemma last_upsert_Nil [simp]: "last_upsert [] = Map.empty"
  by (simp add: last_upsert_def map_filter_simps)

lemma last_upsert_snoc:
  "last_upsert (ops @ [op]) = (case upsert_of op of None \<Rightarrow> last_upsert ops | Some (n, r) \<Rightarrow> (last_upsert ops)(n \<mapsto> r))"
  by (simp add: last_upsert_def map_filter_simps split: option.split prod.split)

lemma outlives_snoc:
  "outlives bound ts (ops @ [op]) \<longleftrightarrow> outlives bound ts ops \<and> (\<forall>b. bound op = Some b \<longrightarrow> sint b \<le> sint ts)"
  by (auto simp: outlives_def)

lemma stored_by_snoc:
  "stored_by row (ops @ [op]) =
     concat (map (\<lambda>i. row (take i ops) (ops ! i) (drop (Suc i) ops @ [op])) [0..<length ops]) @ row ops op []"
proof -
  have "map (\<lambda>i. row (take i (ops @ [op])) ((ops @ [op]) ! i) (drop (Suc i) (ops @ [op]))) [0..<length ops] =
      map (\<lambda>i. row (take i ops) (ops ! i) (drop (Suc i) ops @ [op])) [0..<length ops]"
    by (intro map_cong) (simp_all add: nth_append)
  then show ?thesis
    by (simp only: stored_by_def length_append_singleton upt_Suc_append [OF le0] map_append concat_append) simp
qed

lemma stored_by_step:
  assumes "\<And>earlier x later. row earlier x (later @ [op]) = filter P (row earlier x later)"
  shows "stored_by row (ops @ [op]) = filter P (stored_by row ops) @ row ops op []"
  by (simp add: stored_by_snoc assms filter_concat comp_def) (simp add: stored_by_def filter_concat comp_def)

lemma stored_snapshots_snoc:
  "stored_by (snapshot_of_op J) (ops @ [op]) =
     filter (\<lambda>r. \<forall>b. snapshot_bound op = Some b \<longrightarrow> sint b \<le> sint (sr_timestamp r)) (stored_by (snapshot_of_op J) ops) @
     snapshot_of_op J ops op []"
proof (rule stored_by_step)
  show "snapshot_of_op J earlier x (later @ [op]) =
     filter (\<lambda>r. \<forall>b. snapshot_bound op = Some b \<longrightarrow> sint b \<le> sint (sr_timestamp r)) (snapshot_of_op J earlier x later)"
    for earlier x later
    by (cases x) (simp_all add: outlives_snoc)
qed

lemma stored_probes_snoc:
  "stored_by probe_of_op (ops @ [op]) =
     filter (\<lambda>r. \<forall>b. probe_bound op = Some b \<longrightarrow> sint b \<le> sint (pw_timestamp r)) (stored_by probe_of_op ops) @
     probe_of_op ops op []"
proof (rule stored_by_step)
  show "probe_of_op earlier x (later @ [op]) =
     filter (\<lambda>r. \<forall>b. probe_bound op = Some b \<longrightarrow> sint b \<le> sint (pw_timestamp r)) (probe_of_op earlier x later)"
    for earlier x later
    by (cases x) (simp_all add: outlives_snoc)
qed

lemmas history_step = last_upsert_snoc stored_snapshots_snoc stored_probes_snoc
  upsert_node_db insert_snapshot_db insert_probe_result_db cleanup_db delete_snapshots_def delete_probes_def
  word_sless_alt not_less outlives_def

text \<open>The tables after a history are what the history leaves behind.\<close>

lemma history_tables:
  "fst (fold (repo_apply J) ops (database_new, m)) =
     \<lparr>db_nodes = last_upsert ops, db_snapshots = stored_by (snapshot_of_op J) ops, db_probes = stored_by probe_of_op ops\<rparr>"
proof (induction ops rule: rev_induct)
  case Nil
  then show ?case by (simp add: database_new_def stored_by_def)
next
  case (snoc op ops)
  obtain db m' where st: "fold (repo_apply J) ops (database_new, m) = (db, m')" by fastforce
  with snoc have db: "db = \<lparr>db_nodes = last_upsert ops, db_snapshots = stored_by (snapshot_of_op J) ops, db_probes = stored_by probe_of_op ops\<rparr>"
    by simp
  show ?case
  proof (cases op)
    case (OpCleanup o1 o2 b)
    with st db show ?thesis by (cases o1; cases o2) (simp_all add: history_step)
  qed (use st db in \<open>auto simp: history_step\<close>)
qed

subsection \<open>Lemmas: ordered answers\<close>

lemma sorted_order_by: "sorted (map (\<lambda>r. - sint (sr_timestamp r)) (order_by_timestamp_desc xs))"
  by (simp add: order_by_timestamp_desc_def)

lemma mset_order_by [simp]: "mset (order_by_timestamp_desc xs) = mset xs"
  by (simp add: order_by_timestamp_desc_def)

lemma newest_of_take:
  assumes "mset ys = mset xs"
  shows "newest_of (take k (order_by_timestamp_desc ys)) xs"
proof -
  let ?s = "order_by_timestamp_desc ys" and ?f = "\<lambda>r. - sint (sr_timestamp r)"
  have split: "take k ?s @ drop k ?s = ?s" by simp
  have sorted: "sorted (map ?f (take k ?s) @ map ?f (drop k ?s))"
    using sorted_order_by [of ys] by (simp only: map_append [symmetric] split)
  have "mset xs = mset (take k ?s) + mset (drop k ?s)"
    using assms by (simp only: mset_append [symmetric] split mset_order_by)
  moreover have "\<forall>r \<in> set (take k ?s). \<forall>q \<in># mset (drop k ?s). sint (sr_timestamp q) \<le> sint (sr_timestamp r)"
    using sorted by (auto simp: sorted_append)
  ultimately show ?thesis using sorted by (auto simp: newest_of_def sorted_append)
qed

lemma newest_of_subset: "newest_of rs all \<Longrightarrow> set rs \<subseteq> set all"
  unfolding newest_of_def by (metis Un_upper1 set_mset_mset set_mset_union)

lemma newest_of_single: "newest_of rs [r] \<Longrightarrow> length rs = 1 \<Longrightarrow> rs = [r]"
  using newest_of_subset [of rs "[r]"] by (auto simp: length_Suc_conv)

lemma scan_filter: "scan_ok scan \<Longrightarrow> mset (filter P (scan xs)) = mset (filter P xs)"
  by (simp add: scan_ok_def mset_filter)

lemma scan_set: "scan_ok scan \<Longrightarrow> set (scan xs) = set xs"
  unfolding scan_ok_def by (metis set_mset_mset)

lemma joined_rows_take:
  assumes "scan_ok scan" "db_nodes db i = Some n"
  shows "\<exists>stats. take 1 (joined_rows scan db i) =
           [\<lparr>nw_id = i, nw_hostname = nr_hostname n, nw_last_seen = nr_last_seen n,
             nw_status = nr_status n, nw_stats_json = stats\<rparr>] \<and>
         (case stats of
            None \<Rightarrow> i \<notin> sr_node_id ` set (db_snapshots db)
          | Some v \<Rightarrow> \<exists>s \<in> set (db_snapshots db). sr_node_id s = i \<and> sr_stats_json s = v \<and>
              (\<forall>q \<in> set (db_snapshots db). sr_node_id q = i \<longrightarrow> sint (sr_timestamp q) \<le> sint (sr_timestamp s)))"
proof (cases "order_by_timestamp_desc (filter (\<lambda>s. sr_node_id s = i) (scan (db_snapshots db)))")
  case Nil
  then have "filter (\<lambda>s. sr_node_id s = i) (scan (db_snapshots db)) = []"
    by (metis mset_order_by mset_zero_iff)
  then have "i \<notin> sr_node_id ` set (db_snapshots db)"
    using scan_set [OF assms(1), of "db_snapshots db"] by (auto simp: filter_empty_conv)
  with Nil assms(2) show ?thesis by (auto simp: joined_rows_def Let_def)
next
  case (Cons s rest)
  have "set (order_by_timestamp_desc xs) = set xs" for xs :: "'a snapshot_row list"
    using mset_order_by [of xs] by (rule mset_eq_setD)
  from this [of "filter (\<lambda>s. sr_node_id s = i) (scan (db_snapshots db))"]
  have set_eq: "set (s # rest) = {q \<in> set (db_snapshots db). sr_node_id q = i}"
    by (simp only: Cons set_filter scan_set [OF assms(1)])
  moreover have "\<forall>q \<in> set (s # rest). sint (sr_timestamp q) \<le> sint (sr_timestamp s)"
    using sorted_order_by [of "filter (\<lambda>s. sr_node_id s = i) (scan (db_snapshots db))"] Cons by auto
  ultimately have "s \<in> set (db_snapshots db) \<and> sr_node_id s = i \<and>
     (\<forall>q \<in> set (db_snapshots db). sr_node_id q = i \<longrightarrow> sint (sr_timestamp q) \<le> sint (sr_timestamp s))"
    by auto
  with Cons assms(2) show ?thesis by (auto simp: joined_rows_def Let_def)
qed

lemma distinct_on_keys: "key ` set (distinct_on key rs) = key ` set rs"
proof (induction key rs rule: distinct_on.induct)
  case (2 key r rs)
  have "set rs \<subseteq> set (takeWhile (\<lambda>q. key q = key r) rs) \<union> set (dropWhile (\<lambda>q. key q = key r) rs)"
    by (metis set_append takeWhile_dropWhile_id order_refl)
  then have "key ` set (r # rs) = insert (key r) (key ` set (dropWhile (\<lambda>q. key q = key r) rs))"
    by (auto dest: set_takeWhileD set_dropWhileD)
  with 2 show ?case by simp
qed simp

lemma distinct_on_block:
  assumes "\<forall>r \<in> set rs. key r = k" "\<forall>r \<in> set qs. key r \<noteq> k"
  shows "distinct_on key (rs @ qs) = take 1 rs @ distinct_on key qs"
proof (cases rs)
  case (Cons x xs)
  have "dropWhile (\<lambda>q. key q = k) qs = qs" using assms(2) by (cases qs) simp_all
  with assms(1) Cons show ?thesis by (simp add: dropWhile_append2)
qed simp

lemma distinct_on_blocks:
  assumes "distinct ids" "\<And>i r. i \<in> set ids \<Longrightarrow> r \<in> set (f i) \<Longrightarrow> key r = i"
  shows "distinct_on key (concat (map f ids)) = concat (map (\<lambda>i. take 1 (f i)) ids)"
  using assms
proof (induction ids)
  case (Cons i ids)
  have "\<forall>r \<in> set (f i). key r = i" using Cons.prems(2) by simp
  moreover have "\<forall>r \<in> set (concat (map f ids)). key r \<noteq> i"
  proof
    fix r assume "r \<in> set (concat (map f ids))"
    then obtain j where "j \<in> set ids" "r \<in> set (f j)" by auto
    with Cons.prems(1) Cons.prems(2) [of j r] show "key r \<noteq> i" by auto
  qed
  moreover have "distinct_on key (concat (map f ids)) = concat (map (\<lambda>i. take 1 (f i)) ids)"
    using Cons.prems by (intro Cons.IH) simp_all
  ultimately show ?case by (simp only: list.map concat.simps distinct_on_block)
qed simp

lemma sort_key_map: "sort_key f (map g xs) = map g (sort_key (\<lambda>x. f (g x)) xs)"
proof (induction xs)
  case (Cons x xs)
  have "insort_key f (g x) (map g ys) = map g (insort_key (\<lambda>x. f (g x)) x ys)" for ys by (induction ys) simp_all
  with Cons show ?case by simp
qed simp

lemma sorted_blocks:
  fixes R :: "'a \<Rightarrow> 'c :: linorder"
  assumes "sorted (map R ids)" "\<And>i r. i \<in> set ids \<Longrightarrow> r \<in> set (g i) \<Longrightarrow> f r = R i"
  shows "sorted (map f (concat (map g ids)))"
  using assms
proof (induction ids)
  case (Cons i ids)
  have "map f (g i) = replicate (length (g i)) (R i)" using Cons.prems(2) by (intro nth_equalityI) simp_all
  then have "sorted (map f (g i))" by simp
  moreover have "f x \<le> f y" if "x \<in> set (g i)" "y \<in> set (g j)" "j \<in> set ids" for x y j
    using Cons.prems(1) Cons.prems(2) [of i x] Cons.prems(2) [of j y] that by simp
  moreover have "sorted (map f (concat (map g ids)))" using Cons.prems by (intro Cons.IH) simp_all
  ultimately show ?case by (auto simp: sorted_append)
qed simp

text \<open>Sorting by the place of an id in a list without repetitions puts the rows of each id together,
  in the order they had.\<close>

lemma sort_by_id:
  assumes "distinct ids" "\<forall>r \<in> set rs. nw_id (fst r) \<in> set ids"
  shows "sort_key (id_rank ids) rs = concat (map (\<lambda>i. filter (\<lambda>r. nw_id (fst r) = i) rs) ids)"
proof (rule properties_for_sort_key)
  have rank: "length (takeWhile (\<lambda>i. i \<noteq> ids ! n) ids) = n" if "n < length ids" for n
    using that assms(1) by (subst takeWhile_eq_take_P_nth [where n = n]) (auto simp: nth_eq_iff_index_eq)
  have inj: "id_rank ids r = id_rank ids q \<longleftrightarrow> nw_id (fst r) = nw_id (fst q)"
    if "r \<in> set rs" "q \<in> set rs" for r q
    using assms(2) that rank by (metis id_rank_def in_set_conv_nth)
  show "mset (concat (map (\<lambda>i. filter (\<lambda>r. nw_id (fst r) = i) rs) ids)) = mset rs"
    using assms
  proof (induction ids arbitrary: rs)
    case (Cons i ids)
    let ?rest = "filter (\<lambda>r. nw_id (fst r) \<noteq> i) rs"
    have "map (\<lambda>j. filter (\<lambda>r. nw_id (fst r) = j) ?rest) ids = map (\<lambda>j. filter (\<lambda>r. nw_id (fst r) = j) rs) ids"
      using Cons.prems(1) by (intro map_cong) (auto intro: filter_cong)
    moreover have "mset (concat (map (\<lambda>j. filter (\<lambda>r. nw_id (fst r) = j) ?rest) ids)) = mset ?rest"
      using Cons.prems by (intro Cons.IH) auto
    ultimately show ?case using multiset_partition [of "mset rs" "\<lambda>r. nw_id (fst r) = i"] by (simp only: list.map concat.simps mset_append mset_filter)
  next
    case Nil
    then have "rs = []" by (metis empty_iff empty_set list.set_intros(1) neq_Nil_conv)
    then show ?case by simp
  qed
  show "filter (\<lambda>x. id_rank ids k = id_rank ids x) (concat (map (\<lambda>i. filter (\<lambda>r. nw_id (fst r) = i) rs) ids)) =
      filter (\<lambda>x. id_rank ids k = id_rank ids x) rs"
    if "k \<in> set (concat (map (\<lambda>i. filter (\<lambda>r. nw_id (fst r) = i) rs) ids))" for k
  proof -
    from that have k: "k \<in> set rs" "nw_id (fst k) \<in> set ids" by auto
    have "filter (\<lambda>x. id_rank ids k = id_rank ids x) (filter (\<lambda>r. nw_id (fst r) = i) rs) =
        (if i = nw_id (fst k) then filter (\<lambda>r. nw_id (fst r) = nw_id (fst k)) rs else [])" for i
      using inj [OF k(1)] by (auto simp: filter_empty_conv intro!: filter_cong)
    then have "filter (\<lambda>x. id_rank ids k = id_rank ids x) (concat (map (\<lambda>i. filter (\<lambda>r. nw_id (fst r) = i) rs) ids)) =
        concat (map (\<lambda>i. if i = nw_id (fst k) then filter (\<lambda>r. nw_id (fst r) = nw_id (fst k)) rs else []) ids)"
      by (simp add: filter_concat comp_def)
    also have "\<dots> = filter (\<lambda>r. nw_id (fst r) = nw_id (fst k)) rs"
      using assms(1) k(2) by (induction ids) auto
    also have "\<dots> = filter (\<lambda>x. id_rank ids k = id_rank ids x) rs"
      using inj [OF k(1)] by (intro filter_cong) auto
    finally show ?thesis .
  qed
  show "sorted (map (id_rank ids) (concat (map (\<lambda>i. filter (\<lambda>r. nw_id (fst r) = i) rs) ids)))"
  proof (rule sorted_blocks [where R = "\<lambda>i. length (takeWhile (\<lambda>j. j \<noteq> i) ids)"])
    have "map (\<lambda>i. length (takeWhile (\<lambda>j. j \<noteq> i) ids)) ids = [0..<length ids]"
      using rank by (intro nth_equalityI) simp_all
    then show "sorted (map (\<lambda>i. length (takeWhile (\<lambda>j. j \<noteq> i) ids)) ids)" by simp
  qed (auto simp: id_rank_def)
qed

lemma left_join_one:
  "map fst (sort_key timestamp_rank (left_join scan db [i])) = joined_rows scan db i"
proof (cases "db_nodes db i")
  case (Some n)
  let ?snaps = "filter (\<lambda>s. sr_node_id s = i) (scan (db_snapshots db))"
  have "order_by_timestamp_desc ?snaps = [] \<longleftrightarrow> ?snaps = []" by (metis mset_order_by mset_zero_iff)
  with Some show ?thesis
    by (simp add: left_join_def joined_rows_def Let_def sort_key_map timestamp_rank_def comp_def order_by_timestamp_desc_def)
qed (simp add: left_join_def joined_rows_def)

lemma left_join_ids: "r \<in> set (left_join scan db ids) \<Longrightarrow> nw_id (fst r) \<in> set ids"
  by (auto simp: left_join_def Let_def split: option.splits if_splits)

lemma left_join_Cons: "left_join scan db (i # ids) = left_join scan db [i] @ left_join scan db ids"
  by (simp add: left_join_def)

lemma left_join_filter:
  assumes "distinct ids" "i \<in> set ids"
  shows "filter (\<lambda>r. nw_id (fst r) = i) (left_join scan db ids) = left_join scan db [i]"
  using assms
proof (induction ids)
  case (Cons j ids)
  have one: "filter (\<lambda>r. nw_id (fst r) = i) (left_join scan db [j]) = (if i = j then left_join scan db [j] else [])"
    using left_join_ids [of _ scan db "[j]"] by (auto simp: filter_id_conv filter_empty_conv)
  have none: "filter (\<lambda>r. nw_id (fst r) = j) (left_join scan db ids) = []"
    using Cons.prems(1) left_join_ids [of _ scan db ids] by (auto simp: filter_empty_conv)
  from Cons one none show ?case by (subst left_join_Cons) auto
qed simp

text \<open>The statement for all nodes finds, for every node, the row that the statement for one node finds
  when it meets the snapshots in the same order.\<close>

lemma all_rows_distinct:
  assumes "distinct ids"
  shows "all_rows scan db ids = concat (map (\<lambda>i. take 1 (joined_rows scan db i)) ids)"
proof -
  let ?rs = "sort_key timestamp_rank (left_join scan db ids)"
  let ?block = "\<lambda>i. filter (\<lambda>r. nw_id (fst r) = i) ?rs"
  have "\<forall>r \<in> set ?rs. nw_id (fst r) \<in> set ids" using left_join_ids by auto
  from sort_by_id [OF assms this]
  have "all_rows scan db ids = map fst (concat (map (\<lambda>i. take 1 (?block i)) ids))"
    by (simp only: all_rows_def, subst distinct_on_blocks [OF assms]) simp_all
  also have "\<dots> = concat (map (\<lambda>i. take 1 (map fst (?block i))) ids)" by (simp add: map_concat comp_def take_map)
  also have "map (\<lambda>i. take 1 (map fst (?block i))) ids = map (\<lambda>i. take 1 (joined_rows scan db i)) ids"
    using left_join_filter [OF assms, of _ scan db] by (intro map_cong) (simp_all add: filter_sort left_join_one)
  finally show ?thesis .
qed

lemma all_rows_ids: "nw_id ` set (all_rows scan db ids) = nw_id ` fst ` set (left_join scan db ids)"
  using distinct_on_keys [of "\<lambda>r. nw_id (fst r)" "sort_key (id_rank ids) (sort_key timestamp_rank (left_join scan db ids))"]
  by (simp add: all_rows_def image_image)

lemma all_rows_member:
  assumes "i \<in> set ids" "db_nodes db i = Some n"
  shows "i \<in> nw_id ` set (all_rows scan db ids)"
proof -
  from assms(1) obtain xs ys where ids: "ids = xs @ i # ys" by (meson split_list)
  have "left_join scan db [i] \<noteq> []" using assms(2) by (simp add: left_join_def Let_def)
  then obtain r where r: "r \<in> set (left_join scan db [i])" using hd_in_set by blast
  then have "r \<in> set (left_join scan db ids)" by (simp add: ids left_join_def)
  moreover from left_join_ids [OF r] have "nw_id (fst r) = i" by simp
  ultimately show ?thesis unfolding all_rows_ids by blast
qed

lemma get_node_finds:
  assumes "scan_ok scan"
  shows "\<exists>stats. fst (get_node scan Executed n (db, m)) = Inr (map_option (\<lambda>r. node_info_of_row \<lparr>nw_id = n, nw_hostname = nr_hostname r,
         nw_last_seen = nr_last_seen r, nw_status = nr_status r, nw_stats_json = stats\<rparr>) (db_nodes db n)) \<and>
     (case stats of None \<Rightarrow> n \<in> dom (db_nodes db) \<longrightarrow> filter (\<lambda>r. sr_node_id r = n) (db_snapshots db) = []
      | Some v \<Rightarrow> \<exists>x \<in> set (filter (\<lambda>r. sr_node_id r = n) (db_snapshots db)). sr_stats_json x = v \<and>
          (\<forall>q \<in> set (filter (\<lambda>r. sr_node_id r = n) (db_snapshots db)). sint (sr_timestamp q) \<le> sint (sr_timestamp x)))"
proof (cases "db_nodes db n")
  case None
  then show ?thesis by (intro exI [of _ None]) (simp add: get_node_def select_node_def query_Executed joined_rows_def domIff)
next
  case (Some r)
  from joined_rows_take [OF assms this] obtain stats where
    "take 1 (joined_rows scan db n) = [\<lparr>nw_id = n, nw_hostname = nr_hostname r, nw_last_seen = nr_last_seen r,
           nw_status = nr_status r, nw_stats_json = stats\<rparr>]"
    "case stats of None \<Rightarrow> n \<notin> sr_node_id ` set (db_snapshots db)
      | Some v \<Rightarrow> \<exists>s \<in> set (db_snapshots db). sr_node_id s = n \<and> sr_stats_json s = v \<and>
            (\<forall>q \<in> set (db_snapshots db). sr_node_id q = n \<longrightarrow> sint (sr_timestamp q) \<le> sint (sr_timestamp s))"
    by blast
  with Some show ?thesis
    by (intro exI [of _ stats]) (auto simp: get_node_def select_node_def query_Executed filter_empty_conv split: option.splits)
qed

lemma snapshots_query:
  assumes "scan_ok scan" "0 \<le> sint limit"
  shows "\<exists>rs. fst (get_snapshots scan Executed n from_ms to_ms limit (db, m)) =
             Inr (map (\<lambda>r. \<lparr>sd_node_id = sr_node_id r, sd_timestamp = sr_timestamp r, sd_stats_json = sr_stats_json r\<rparr>) rs) \<and>
         newest_of rs (filter (\<lambda>r. sr_node_id r = n \<and> sint from_ms \<le> sint (sr_timestamp r) \<and>
                                    sint (sr_timestamp r) \<le> sint to_ms) (db_snapshots db)) \<and>
         length rs = min (nat (sint limit))
           (length (filter (\<lambda>r. sr_node_id r = n \<and> sint from_ms \<le> sint (sr_timestamp r) \<and>
                                sint (sr_timestamp r) \<le> sint to_ms) (db_snapshots db)))"
proof -
  define P :: "'a snapshot_row \<Rightarrow> bool" where
    "P r \<longleftrightarrow> sr_node_id r = n \<and> from_ms \<le>s sr_timestamp r \<and> sr_timestamp r \<le>s to_ms" for r
  let ?rs = "take (nat (sint limit)) (order_by_timestamp_desc (filter P (scan (db_snapshots db))))"
  have P: "(\<lambda>r. sr_node_id r = n \<and> sint from_ms \<le> sint (sr_timestamp r) \<and> sint (sr_timestamp r) \<le> sint to_ms) = P"
    by (simp add: P_def fun_eq_iff word_sle_eq)
  have m: "mset (filter P (scan (db_snapshots db))) = mset (filter P (db_snapshots db))"
    by (rule scan_filter [OF assms(1)])
  have "length (order_by_timestamp_desc (filter P (scan (db_snapshots db)))) = length (filter P (db_snapshots db))"
    using m mset_order_by mset_eq_length by metis
  with m assms(2) show ?thesis
    unfolding P by (intro exI [of _ ?rs])
      (simp add: get_snapshots_def select_snapshots_def query_Executed P_def [abs_def] newest_of_take min.commute)
qed

subsection \<open>An example database\<close>

definition demo_db :: "demo_json database" where
  "demo_db =
     \<lparr>db_nodes = [[110] \<mapsto> \<lparr>nr_hostname = [110], nr_last_seen = 20, nr_status = lit ''online''\<rparr>],
      db_snapshots = [\<lparr>sr_node_id = [110], sr_timestamp = 10, sr_stats_json = DNull\<rparr>,
                      \<lparr>sr_node_id = [110], sr_timestamp = 20, sr_stats_json = DInt 1\<rparr>],
      db_probes = []\<rparr>"

subsection \<open>Properties\<close>

text \<open>
  C8: what the repository answers after a history of calls is determined by the history alone. Whatever
  upserts, inserts and cleanups were made on an empty database, in whatever order and with whatever
  failures and lost answers, a query of a node finds it exactly when an upsert of it took effect, with
  the hostname, the time and the status of the last one and the statistics of the newest snapshot
  kept; a query of its snapshots finds the newest ones in the range among those inserted, with the
  text that was inserted read as JSON, for a node known by then and not removed by a later cleanup.
\<close>

theorem repository_history:
  assumes "scan_ok scan" "0 \<le> sint limit" "st = fold (repo_apply J) ops (database_new, m)"
    and "rows = filter (\<lambda>r. sr_node_id r = n) (stored_by (snapshot_of_op J) ops)"
  shows "\<exists>stats rs.
     fst (get_node scan Executed n st) = Inr (map_option (\<lambda>r. node_info_of_row \<lparr>nw_id = n, nw_hostname = nr_hostname r,
         nw_last_seen = nr_last_seen r, nw_status = nr_status r, nw_stats_json = stats\<rparr>) (last_upsert ops n)) \<and>
     (case stats of None \<Rightarrow> n \<in> dom (last_upsert ops) \<longrightarrow> rows = []
      | Some v \<Rightarrow> \<exists>x \<in> set rows. sr_stats_json x = v \<and> (\<forall>q \<in> set rows. sint (sr_timestamp q) \<le> sint (sr_timestamp x))) \<and>
     fst (get_snapshots scan Executed n from_ms to_ms limit st) =
       Inr (map (\<lambda>r. \<lparr>sd_node_id = n, sd_timestamp = sr_timestamp r, sd_stats_json = sr_stats_json r\<rparr>) rs) \<and>
     newest_of rs (filter (\<lambda>r. sint from_ms \<le> sint (sr_timestamp r) \<and> sint (sr_timestamp r) \<le> sint to_ms) rows) \<and>
     length rs = min (nat (sint limit))
       (length (filter (\<lambda>r. sint from_ms \<le> sint (sr_timestamp r) \<and> sint (sr_timestamp r) \<le> sint to_ms) rows)) \<and>
     db_probes (fst st) = stored_by probe_of_op ops"
proof -
  obtain db m' where st: "st = (db, m')" by (cases st)
  have db: "db_nodes db = last_upsert ops" "db_snapshots db = stored_by (snapshot_of_op J) ops" "db_probes db = stored_by probe_of_op ops"
    using history_tables [of J ops m, folded assms(3)] by (simp_all add: st)
  have rows: "rows = filter (\<lambda>r. sr_node_id r = n) (db_snapshots db)" by (simp add: assms(4) db)
  obtain rs where rs: "fst (get_snapshots scan Executed n from_ms to_ms limit (db, m')) =
        Inr (map (\<lambda>r. \<lparr>sd_node_id = sr_node_id r, sd_timestamp = sr_timestamp r, sd_stats_json = sr_stats_json r\<rparr>) rs)"
      "newest_of rs (filter (\<lambda>r. sint from_ms \<le> sint (sr_timestamp r) \<and> sint (sr_timestamp r) \<le> sint to_ms) rows)"
      "length rs = min (nat (sint limit))
         (length (filter (\<lambda>r. sint from_ms \<le> sint (sr_timestamp r) \<and> sint (sr_timestamp r) \<le> sint to_ms) rows))"
    using snapshots_query [OF assms(1,2), of n from_ms to_ms db m'] by (auto simp: rows conj_commute conj_left_commute)
  have "set rs \<subseteq> set rows" using newest_of_subset [OF rs(2)] by auto
  then have ids: "map (\<lambda>r. \<lparr>sd_node_id = sr_node_id r, sd_timestamp = sr_timestamp r, sd_stats_json = sr_stats_json r\<rparr>) rs =
      map (\<lambda>r. \<lparr>sd_node_id = n, sd_timestamp = sr_timestamp r, sd_stats_json = sr_stats_json r\<rparr>) rs"
    by (auto simp: rows)
  note found = get_node_finds [OF assms(1), of n db m', folded rows, unfolded db(1)]
  show ?thesis
    unfolding st fst_conv using found
    by (elim exE conjE, intro exI conjI) (assumption | rule rs(1) [unfolded ids] rs(2,3) db(3))+
qed

theorem repository_history_witness:
  "let ops = [OpUpsert ReplyLost 7 [110] [104] (lit ''online''), OpSnapshot Executed [110] 5 (lit ''x''), OpSnapshot Executed [110] 9 (lit ''x''),
              OpSnapshot Executed [111] 9 (lit ''x''), OpCleanup ReplyLost Executed 6];
       st = fold (repo_apply demo_json_lib) ops (database_new, metrics_new)
   in (\<exists>v rs. fst (get_node rev Executed [110] st) = Inr (Some \<lparr>nf_node_id = [110], nf_hostname = [104], nf_last_seen_ms = 7,
          nf_status = Online, nf_latest_stats = Some v\<rparr>) \<and>
        fst (get_snapshots rev Executed [110] 0 100 5 st) = Inr rs \<and> map sd_timestamp rs = [9]) \<and>
      fst (get_node rev Executed [111] st) = Inr None"
proof -
  let ?ops = "[OpUpsert ReplyLost 7 [110] [104] (lit ''online''), OpSnapshot Executed [110] 5 (lit ''x''), OpSnapshot Executed [110] 9 (lit ''x''),
              OpSnapshot Executed [111] 9 (lit ''x''), OpCleanup ReplyLost Executed 6]"
  let ?v = "unwrap_or (jl_from_str demo_json_lib (lit ''x'')) (jl_null demo_json_lib)"
  have scan: "scan_ok (rev :: demo_json snapshot_row list \<Rightarrow> _)" by (simp add: scan_ok_def)
  have up: "last_upsert ?ops = [[110] \<mapsto> \<lparr>nr_hostname = [104], nr_last_seen = 7, nr_status = lit ''online''\<rparr>]"
    by (simp add: last_upsert_def map_filter_simps)
  have rows: "stored_by (snapshot_of_op demo_json_lib) ?ops = [\<lparr>sr_node_id = [110], sr_timestamp = 9, sr_stats_json = ?v\<rparr>]"
    by (simp add: stored_by_def upt_conv_Cons last_upsert_def map_filter_simps outlives_def numeral_3_eq_3 numeral_2_eq_2)
  show ?thesis
    using repository_history [OF scan _ refl refl, of 5 "[110]" demo_json_lib ?ops metrics_new 0 100]
      repository_history [OF scan _ refl refl, of 5 "[111]" demo_json_lib ?ops metrics_new 0 100]
    unfolding up rows by (auto simp: Let_def node_info_of_row_def lit_def dest!: newest_of_single split: option.splits)
qed

text \<open>
  An executed \<open>get_snapshots\<close> with a limit that is not negative answers with the newest
  snapshots of the node in the range (both ends included), by descending timestamp, at most
  \<open>limit\<close> of them and fewer only when there are no more, whatever the order of the rows in the
  table; no snapshot that is left out is newer than one that is returned.
\<close>

theorem get_snapshots_newest_in_range:
  assumes "scan_ok scan" "0 \<le> sint limit"
  shows "\<exists>rs. fst (get_snapshots scan Executed n from_ms to_ms limit (db, m)) =
             Inr (map (\<lambda>r. \<lparr>sd_node_id = sr_node_id r, sd_timestamp = sr_timestamp r, sd_stats_json = sr_stats_json r\<rparr>) rs) \<and>
         newest_of rs (filter (\<lambda>r. sr_node_id r = n \<and> sint from_ms \<le> sint (sr_timestamp r) \<and>
                                    sint (sr_timestamp r) \<le> sint to_ms) (db_snapshots db)) \<and>
         length rs = min (nat (sint limit))
           (length (filter (\<lambda>r. sr_node_id r = n \<and> sint from_ms \<le> sint (sr_timestamp r) \<and>
                                sint (sr_timestamp r) \<le> sint to_ms) (db_snapshots db)))"
  using assms by (rule snapshots_query)

theorem get_snapshots_newest_in_range_witness:
  "\<exists>rs. fst (get_snapshots rev Executed [110] 0 100 1 (demo_db, metrics_new)) = Inr rs \<and> length rs = 1"
proof -
  have "scan_ok (rev :: demo_json snapshot_row list \<Rightarrow> _)" by (simp add: scan_ok_def)
  then show ?thesis
    using get_snapshots_newest_in_range [of rev 1 "[110]" 0 100 demo_db metrics_new]
    by simp (elim exE conjE, simp add: demo_db_def)
qed

text \<open>
  C31: once an upsert of a node was executed, \<open>get_node\<close> answers with that node: its hostname, the
  time of the upsert as last seen, the status it was written with (the text of a status reads
  back as the status), and as statistics those of a snapshot with the highest timestamp, or none
  when there is no snapshot.
\<close>

theorem get_node_after_upsert:
  assumes "scan_ok scan" "st' = snd (upsert_node Executed now_ms n h (display_node_status s) st)"
  shows "\<exists>stats. fst (get_node scan Executed n st') =
           Inr (Some \<lparr>nf_node_id = n, nf_hostname = h, nf_last_seen_ms = now_ms, nf_status = s,
                      nf_latest_stats = stats\<rparr>) \<and>
         (case stats of
            None \<Rightarrow> n \<notin> sr_node_id ` set (db_snapshots (fst st))
          | Some v \<Rightarrow> \<exists>x \<in> set (db_snapshots (fst st)). sr_node_id x = n \<and> sr_stats_json x = v \<and>
              (\<forall>q \<in> set (db_snapshots (fst st)). sr_node_id q = n \<longrightarrow> sint (sr_timestamp q) \<le> sint (sr_timestamp x)))"
proof -
  obtain db m where st: "st = (db, m)" by (cases st)
  obtain db' m' where st': "st' = (db', m')" by (cases st')
  have db': "db' = db\<lparr>db_nodes := (db_nodes db)(n \<mapsto> \<lparr>nr_hostname = h, nr_last_seen = now_ms,
               nr_status = display_node_status s\<rparr>)\<rparr>"
    using arg_cong [OF assms(2), of fst] by (simp add: st st' upsert_node_db)
  have "node_info_of_row \<lparr>nw_id = n, nw_hostname = h, nw_last_seen = now_ms,
          nw_status = display_node_status s, nw_stats_json = stats\<rparr> =
        \<lparr>nf_node_id = n, nf_hostname = h, nf_last_seen_ms = now_ms, nf_status = s, nf_latest_stats = stats\<rparr>"
    for stats :: "'a option"
    by (cases s) (simp_all add: node_info_of_row_def Let_def lit_def)
  moreover have snaps: "db_snapshots db' = db_snapshots db" by (simp add: db')
  ultimately show ?thesis
    using joined_rows_take [OF assms(1), of db' n "\<lparr>nr_hostname = h, nr_last_seen = now_ms, nr_status = display_node_status s\<rparr>"]
    unfolding snaps st fst_conv by (auto simp: get_node_def select_node_def st' query_Executed db')
qed

theorem get_node_after_upsert_witness:
  "\<exists>stats. fst (get_node id Executed [110] (snd (upsert_node Executed 7 [110] [110] (display_node_status Offline)
             (database_new, metrics_new)))) =
     Inr (Some \<lparr>nf_node_id = [110], nf_hostname = [110], nf_last_seen_ms = 7, nf_status = Offline,
                nf_latest_stats = stats :: demo_json option\<rparr>)"
  using get_node_after_upsert [of id _ 7 "[110]" "[110]" Offline "(database_new :: demo_json database, metrics_new)", OF _ refl]
  by (auto simp: scan_ok_def)

text \<open>
  A cleanup whose two statements are executed keeps exactly the snapshots and probe results
  at or after the bound, in their order, leaves the nodes alone and returns the number of rows
  it removed. When the first statement fails, the probe results are left as they were.
\<close>

theorem cleanup_exact:
  "cleanup_old_snapshots Executed Executed before_ms (db, m) =
     (Inr (length (db_snapshots db) - length (filter (\<lambda>r. sint before_ms \<le> sint (sr_timestamp r)) (db_snapshots db)) +
           (length (db_probes db) - length (filter (\<lambda>r. sint before_ms \<le> sint (pw_timestamp r)) (db_probes db)))),
      db\<lparr>db_snapshots := filter (\<lambda>r. sint before_ms \<le> sint (sr_timestamp r)) (db_snapshots db),
         db_probes := filter (\<lambda>r. sint before_ms \<le> sint (pw_timestamp r)) (db_probes db)\<rparr>,
      observe_db_latency (lit ''cleanup_old_snapshots'') m) \<and>
   db_probes (fst (snd (cleanup_old_snapshots NotExecuted outcome before_ms (db, m)))) = db_probes db"
proof -
  have count: "length (filter (\<lambda>r. f r < b) xs) = length xs - length (filter (\<lambda>r. b \<le> f r) xs)"
    for f :: "'b \<Rightarrow> int" and b xs
    using sum_length_filter_compl [of "\<lambda>r. b \<le> f r" xs] by (simp add: not_le)
  show ?thesis
    by (simp add: cleanup_old_snapshots_def execute_def delete_snapshots_def delete_probes_def
        word_sless_alt not_less count)
qed

end
