(* ===== verification/Pulse_State.thy ===== *)
theory Pulse_State
  imports Pulse_Db
begin

text \<open>
  src/pulse-server/src/state.rs: \<open>AppState\<close> and the routing of ingestion items to the sharded
  workers. The state holds the tables behind the pool, the metrics (statics of the program), the
  updates sent on the broadcast channel in their order, the registry of nodes, and the queues of
  the workers. The hash of a node id (\<open>DefaultHasher\<close>, whose algorithm is left open by the
  standard library) is an argument. A result \<open>None\<close> is a panic.

  A bounded \<open>mpsc\<close> channel is the list of its messages with its capacity and whether the
  receiver is alive. Its contract is the locale \<open>bounded_queue\<close>; \<open>mpsc\<close> proves it for the model.
\<close>

subsection \<open>Channels\<close>

record 'a channel =
  ch_queue :: "'a list"
  ch_capacity :: nat
  ch_open :: bool

definition channel_new :: "nat \<Rightarrow> 'a channel" where
  "channel_new cap = \<lparr>ch_queue = [], ch_capacity = cap, ch_open = True\<rparr>"

text \<open>\<open>try_send\<close> fails on a full channel and on one whose receiver is gone.\<close>

definition try_send :: "'a \<Rightarrow> 'a channel \<Rightarrow> bool \<times> 'a channel" where
  "try_send x c =
     (if ch_open c \<and> length (ch_queue c) < ch_capacity c
      then (True, c\<lparr>ch_queue := ch_queue c @ [x]\<rparr>) else (False, c))"

definition channel_recv :: "'a channel \<Rightarrow> ('a \<times> 'a channel) option" where
  "channel_recv c = (case ch_queue c of [] \<Rightarrow> None | x # xs \<Rightarrow> Some (x, c\<lparr>ch_queue := xs\<rparr>))"

definition channel_ok :: "'a channel \<Rightarrow> bool" where
  "channel_ok c \<longleftrightarrow> length (ch_queue c) \<le> ch_capacity c"

subsection \<open>The application state\<close>

record 'j app_state =
  as_db :: "'j database"
  as_metrics :: metrics
  as_broadcast :: "'j node_update list"
  as_nodes :: "rstr \<rightharpoonup> 'j node_info"
  as_worker_txs :: "'j ingestion_item channel list"

definition app_state_new ::
  "'j database \<Rightarrow> metrics \<Rightarrow> 'j ingestion_item channel list \<Rightarrow> 'j app_state" where
  "app_state_new db m worker_txs =
     \<lparr>as_db = db, as_metrics = m, as_broadcast = [], as_nodes = Map.empty, as_worker_txs = worker_txs\<rparr>"

text \<open>A call of the repository on the pool of the state.\<close>

definition with_db :: "('j store \<Rightarrow> 'r \<times> 'j store) \<Rightarrow> 'j app_state \<Rightarrow> 'r \<times> 'j app_state" where
  "with_db f st =
     (let (r, db, m) = f (as_db st, as_metrics st) in (r, st\<lparr>as_db := db, as_metrics := m\<rparr>))"

definition broadcast_send :: "'j node_update \<Rightarrow> 'j app_state \<Rightarrow> 'j app_state" where
  "broadcast_send u st = st\<lparr>as_broadcast := as_broadcast st @ [u]\<rparr>"

text \<open>The remainder by zero is a panic.\<close>

definition shard :: "(rstr \<Rightarrow> u64) \<Rightarrow> 'j app_state \<Rightarrow> rstr \<Rightarrow> nat option" where
  "shard hash st node_id =
     (if as_worker_txs st = [] then None
      else Some (unat (hash node_id) mod length (as_worker_txs st)))"

definition send_to_worker ::
  "(rstr \<Rightarrow> u64) \<Rightarrow> rstr \<Rightarrow> 'j ingestion_item \<Rightarrow> 'j app_state \<Rightarrow> 'j app_state option" where
  "send_to_worker hash node_id item st =
     (case shard hash st node_id of
        None \<Rightarrow> None
      | Some i \<Rightarrow>
          (let (sent, c) = try_send item (as_worker_txs st ! i);
               st = st\<lparr>as_worker_txs := (as_worker_txs st)[i := c]\<rparr>
           in Some (if sent then st else st\<lparr>as_metrics := inc_ingestion_drop (as_metrics st)\<rparr>)))"

text \<open>The receiving half of worker \<open>i\<close>.\<close>

definition worker_recv :: "nat \<Rightarrow> 'j app_state \<Rightarrow> ('j ingestion_item \<times> 'j app_state) option" where
  "worker_recv i st =
     (if i < length (as_worker_txs st)
      then (case channel_recv (as_worker_txs st ! i) of
              None \<Rightarrow> None
            | Some (x, c) \<Rightarrow> Some (x, st\<lparr>as_worker_txs := (as_worker_txs st)[i := c]\<rparr>))
      else None)"

subsection \<open>Histories of the queues\<close>

text \<open>
  An interleaving of senders and workers: \<open>QSend item\<close> routes an item by its node id,
  \<open>QRecv i\<close> lets worker \<open>i\<close> take its next item, if any. The run records the items that were
  accepted, those that were refused and those that were taken, in order.
\<close>

datatype 'j queue_event = QSend "'j ingestion_item" | QRecv nat

record 'j queue_trace =
  qt_accepted :: "'j ingestion_item list"
  qt_dropped :: "'j ingestion_item list"
  qt_taken :: "'j ingestion_item list"

definition trace_new :: "'j queue_trace" where
  "trace_new = \<lparr>qt_accepted = [], qt_dropped = [], qt_taken = []\<rparr>"

primrec queue_step ::
  "(rstr \<Rightarrow> u64) \<Rightarrow> 'j queue_event \<Rightarrow> 'j queue_trace \<times> 'j app_state \<Rightarrow>
   ('j queue_trace \<times> 'j app_state) option" where
  "queue_step hash (QSend x) ts =
     (case send_to_worker hash (ii_node_id x) x (snd ts) of
        None \<Rightarrow> None
      | Some st' \<Rightarrow> Some
          (if INGESTION_DROPS (as_metrics st') = INGESTION_DROPS (as_metrics (snd ts))
           then (fst ts)\<lparr>qt_accepted := qt_accepted (fst ts) @ [x]\<rparr>
           else (fst ts)\<lparr>qt_dropped := qt_dropped (fst ts) @ [x]\<rparr>, st'))"
| "queue_step hash (QRecv i) ts =
     (case worker_recv i (snd ts) of
        None \<Rightarrow> Some ts
      | Some (x, st') \<Rightarrow> Some ((fst ts)\<lparr>qt_taken := qt_taken (fst ts) @ [x]\<rparr>, st'))"

fun queue_run ::
  "(rstr \<Rightarrow> u64) \<Rightarrow> 'j queue_event list \<Rightarrow> 'j queue_trace \<times> 'j app_state \<Rightarrow>
   ('j queue_trace \<times> 'j app_state) option" where
  "queue_run hash [] ts = Some ts"
| "queue_run hash (e # es) ts =
     (case queue_step hash e ts of None \<Rightarrow> None | Some ts' \<Rightarrow> queue_run hash es ts')"

definition of_node :: "rstr \<Rightarrow> 'j ingestion_item list \<Rightarrow> 'j ingestion_item list" where
  "of_node n xs = filter (\<lambda>x. ii_node_id x = n) xs"

fun sent_items :: "'j queue_event list \<Rightarrow> 'j ingestion_item list" where
  "sent_items [] = []"
| "sent_items (QSend x # es) = x # sent_items es"
| "sent_items (QRecv i # es) = sent_items es"

text \<open>The invariant of the histories: every queue holds only items of its own shard, within its
  capacity, and for every node the items taken and the items waiting are the items accepted.\<close>

definition queue_worker_inv :: "(rstr \<Rightarrow> u64) \<Rightarrow> nat \<Rightarrow> nat \<Rightarrow> nat \<Rightarrow> 'j ingestion_item channel \<Rightarrow> bool" where
  "queue_worker_inv hash k cap i c \<longleftrightarrow>
     channel_ok c \<and> ch_capacity c = cap \<and> (\<forall>x \<in> set (ch_queue c). unat (hash (ii_node_id x)) mod k = i)"

definition queue_inv :: "(rstr \<Rightarrow> u64) \<Rightarrow> nat \<Rightarrow> nat \<Rightarrow> nat \<Rightarrow> 'j queue_trace \<times> 'j app_state \<Rightarrow> bool" where
  "queue_inv hash k cap drops ts \<longleftrightarrow>
     length (as_worker_txs (snd ts)) = k \<and>
     (\<forall>i < k. queue_worker_inv hash k cap i (as_worker_txs (snd ts) ! i)) \<and>
     (\<forall>n. of_node n (qt_taken (fst ts)) @
            of_node n (ch_queue (as_worker_txs (snd ts) ! (unat (hash n) mod k))) = of_node n (qt_accepted (fst ts))) \<and>
     INGESTION_DROPS (as_metrics (snd ts)) = drops + length (qt_dropped (fst ts))"

subsection \<open>The channel interface\<close>

locale bounded_queue =
  fixes send :: "'a \<Rightarrow> 'q \<Rightarrow> bool \<times> 'q"
    and recv :: "'q \<Rightarrow> ('a \<times> 'q) option"
    and items :: "'q \<Rightarrow> 'a list"
    and cap :: "'q \<Rightarrow> nat"
    and invar :: "'q \<Rightarrow> bool"
  assumes bound: "invar q \<Longrightarrow> length (items q) \<le> cap q"
    and items_send: "invar q \<Longrightarrow> items (snd (send x q)) = (if fst (send x q) then items q @ [x] else items q)"
    and cap_send: "invar q \<Longrightarrow> cap (snd (send x q)) = cap q"
    and invar_send: "invar q \<Longrightarrow> invar (snd (send x q))"
    and recv_None: "invar q \<Longrightarrow> recv q = None \<longleftrightarrow> items q = []"
    and recv_Some: "invar q \<Longrightarrow> recv q = Some (x, q') \<Longrightarrow> items q = x # items q' \<and> cap q' = cap q \<and> invar q'"
begin

lemma send_bound: "invar q \<Longrightarrow> length (items (snd (send x q))) \<le> cap q"
  using bound [OF invar_send, of q x] by (simp add: cap_send)

text \<open>What was in the queue and what was accepted is what was taken and what is left.\<close>

lemma fifo_step:
  assumes "invar q" "taken @ items q = sent"
  shows "taken @ items (snd (send x q)) = (if fst (send x q) then sent @ [x] else sent)"
    and "recv q = Some (y, q') \<Longrightarrow> (taken @ [y]) @ items q' = sent"
  using assms recv_Some [OF assms(1), of y q'] by (auto simp: items_send)

lemma filter_send:
  assumes "invar q"
  shows "filter P (items (snd (send x q))) = filter P (items q) @ (if fst (send x q) \<and> P x then [x] else [])"
  using assms by (simp add: items_send)

end

interpretation mpsc: bounded_queue try_send channel_recv ch_queue ch_capacity channel_ok
  by unfold_locales
    (auto simp: try_send_def channel_recv_def channel_ok_def split: list.splits)

subsection \<open>Lemmas: routing\<close>

lemma of_node_simps [simp]:
  "of_node n [] = []"
  "of_node n (x # xs) = (if ii_node_id x = n then x # of_node n xs else of_node n xs)"
  "of_node n (xs @ ys) = of_node n xs @ of_node n ys"
  by (simp_all add: of_node_def)

lemma shard_less: "shard hash st n = Some i \<Longrightarrow> i < length (as_worker_txs st)"
  by (auto simp: shard_def split: if_splits)

lemma shard_same_node: "as_worker_txs st' \<noteq> [] \<Longrightarrow> length (as_worker_txs st) = length (as_worker_txs st') \<Longrightarrow>
  shard hash st n = shard hash st' n"
  by (auto simp: shard_def)

lemma send_to_worker_cases:
  fixes hash :: "rstr \<Rightarrow> u64" and n :: rstr
  assumes "as_worker_txs st \<noteq> []"
  defines "i \<equiv> unat (hash n) mod length (as_worker_txs st)"
  shows "send_to_worker hash n x st =
     (if fst (try_send x (as_worker_txs st ! i))
      then Some (st\<lparr>as_worker_txs := (as_worker_txs st)[i := snd (try_send x (as_worker_txs st ! i))]\<rparr>)
      else Some (st\<lparr>as_metrics := inc_ingestion_drop (as_metrics st)\<rparr>))"
proof -
  have "i < length (as_worker_txs st)" using assms(1) by (simp add: i_def)
  then show ?thesis
    using assms(1)
    by (simp add: send_to_worker_def shard_def i_def [symmetric] try_send_def Let_def list_update_id)
qed

lemma send_to_worker_None_iff: "send_to_worker hash n x st = None \<longleftrightarrow> as_worker_txs st = []"
  by (auto simp: send_to_worker_def shard_def Let_def split: prod.split)

lemma mod_neq_queue:
  assumes "queue_inv hash k cap d (t, st)" "i < k" "unat (hash n) mod k \<noteq> i"
  shows "of_node n (ch_queue (as_worker_txs st ! i)) = []"
  using assms unfolding queue_inv_def queue_worker_inv_def of_node_def by (auto simp: filter_empty_conv)

lemma queue_inv_node:
  "queue_inv hash k cap d (t, st) \<Longrightarrow>
   of_node n (qt_taken t) @ of_node n (ch_queue (as_worker_txs st ! (unat (hash n) mod k))) = of_node n (qt_accepted t)"
  by (simp add: queue_inv_def)

lemma queue_inv_length: "queue_inv hash k cap d (t, st) \<Longrightarrow> length (as_worker_txs st) = k"
  by (simp add: queue_inv_def)

lemma queue_inv_worker:
  assumes "queue_inv hash k cap d (t, st)" "i < k"
  shows "channel_ok (as_worker_txs st ! i)" "ch_capacity (as_worker_txs st ! i) = cap"
    and "x \<in> set (ch_queue (as_worker_txs st ! i)) \<Longrightarrow> unat (hash (ii_node_id x)) mod k = i"
  using assms by (simp_all add: queue_inv_def queue_worker_inv_def)

lemma nth_update_all:
  assumes "\<And>j. j < length w \<Longrightarrow> P j (w ! j)" "P i c" "j < length w"
  shows "P j (w[i := c] ! j)"
  using assms by (cases "i = j") simp_all

lemma queue_inv_recv:
  assumes inv: "queue_inv hash k cap d (t, st)" and "0 < k"
    and r: "worker_recv i st = Some (x, st')"
  shows "queue_inv hash k cap d (t\<lparr>qt_taken := qt_taken t @ [x]\<rparr>, st')"
proof -
  let ?w = "as_worker_txs st"
  from r inv obtain c where i: "i < k" and c: "channel_recv (?w ! i) = Some (x, c)"
    and st': "st' = st\<lparr>as_worker_txs := ?w[i := c]\<rparr>"
    by (auto simp: worker_recv_def queue_inv_def split: if_splits option.splits)
  have len: "length ?w = k" and ok: "channel_ok (?w ! i)"
    using queue_inv_length [OF inv] queue_inv_worker(1) [OF inv i] .
  from mpsc.recv_Some [OF ok c] have q: "ch_queue (?w ! i) = x # ch_queue c"
    and cc: "ch_capacity c = ch_capacity (?w ! i)" "channel_ok c" by auto
  have x: "unat (hash (ii_node_id x)) mod k = i"
    using queue_inv_worker(3) [OF inv i] q by simp
  have "of_node n (qt_taken t @ [x]) @ of_node n (ch_queue (?w[i := c] ! (unat (hash n) mod k))) = of_node n (qt_accepted t)" for n
  proof -
    note eq = queue_inv_node [OF inv, of n]
    show ?thesis
    proof (cases "unat (hash n) mod k = i")
      case True
      then show ?thesis using eq q i len by (simp split: if_splits)
    next
      case False
      then have "ii_node_id x \<noteq> n" using x by auto
      then show ?thesis using eq False by simp
    qed
  qed
  moreover have "queue_worker_inv hash k cap j (?w[i := c] ! j)" if "j < k" for j
  proof (rule nth_update_all)
    show "queue_worker_inv hash k cap j (?w ! j)" if "j < length ?w" for j
      using queue_inv_worker [OF inv, of j] that len by (simp add: queue_worker_inv_def)
    show "queue_worker_inv hash k cap i c"
      using queue_inv_worker [OF inv i] q cc by (simp add: queue_worker_inv_def)
    show "j < length ?w" using that len by simp
  qed
  ultimately show ?thesis using inv by (simp add: queue_inv_def st')
qed

lemma queue_inv_send:
  assumes inv: "queue_inv hash k cap d (t, st)" and "0 < k"
  shows "\<exists>t' st'. queue_step hash (QSend x) (t, st) = Some (t', st') \<and> queue_inv hash k cap d (t', st') \<and>
           mset (qt_accepted t') + mset (qt_dropped t') = mset (qt_accepted t) + mset (qt_dropped t) + {#x#}"
proof -
  let ?w = "as_worker_txs st" and ?i = "unat (hash (ii_node_id x)) mod k"
  let ?c = "snd (try_send x (?w ! ?i))"
  have len: "length ?w = k" and i: "?i < k" and ne: "?w \<noteq> []"
    using assms by (auto simp: queue_inv_def)
  then have ok: "channel_ok (?w ! ?i)" using queue_inv_worker(1) [OF inv] by blast
  show ?thesis
  proof (cases "fst (try_send x (?w ! ?i))")
    case False
    then have "queue_step hash (QSend x) (t, st) =
        Some (t\<lparr>qt_dropped := qt_dropped t @ [x]\<rparr>, st\<lparr>as_metrics := inc_ingestion_drop (as_metrics st)\<rparr>)"
      using send_to_worker_cases [OF ne, of hash "ii_node_id x" x] len by (simp add: inc_ingestion_drop_def)
    with inv show ?thesis by (simp add: queue_inv_def inc_ingestion_drop_def)
  next
    case True
    then have step: "queue_step hash (QSend x) (t, st) =
        Some (t\<lparr>qt_accepted := qt_accepted t @ [x]\<rparr>, st\<lparr>as_worker_txs := ?w[?i := ?c]\<rparr>)"
      using send_to_worker_cases [OF ne, of hash "ii_node_id x" x] len by simp
    have q: "ch_queue ?c = ch_queue (?w ! ?i) @ [x]" using mpsc.items_send [OF ok, of x] True by simp
    have "of_node n (qt_taken t) @ of_node n (ch_queue (?w[?i := ?c] ! (unat (hash n) mod k))) =
          of_node n (qt_accepted t @ [x])" for n
    proof (cases "unat (hash n) mod k = ?i")
      case True
      have "of_node n (qt_taken t) @ of_node n (ch_queue (?w ! ?i)) = of_node n (qt_accepted t)"
        using queue_inv_node [OF inv, of n] unfolding True .
      then show ?thesis using True q i len by simp
    next
      case False
      then have "ii_node_id x \<noteq> n" by auto
      with False show ?thesis using inv by (simp add: queue_inv_def)
    qed
    moreover have "queue_worker_inv hash k cap j (?w[?i := ?c] ! j)" if "j < k" for j
    proof (rule nth_update_all)
      show "queue_worker_inv hash k cap j (?w ! j)" if "j < length ?w" for j
        using queue_inv_worker [OF inv, of j] that len by (simp add: queue_worker_inv_def)
      show "queue_worker_inv hash k cap ?i ?c"
        using queue_inv_worker [OF inv i] q mpsc.invar_send [OF ok, of x] mpsc.cap_send [OF ok, of x]
        by (simp add: queue_worker_inv_def ball_Un)
      show "j < length ?w" using that len by simp
    qed
    ultimately have "queue_inv hash k cap d (t\<lparr>qt_accepted := qt_accepted t @ [x]\<rparr>, st\<lparr>as_worker_txs := ?w[?i := ?c]\<rparr>)"
      using inv by (simp add: queue_inv_def)
    with step show ?thesis by auto
  qed
qed

lemma queue_inv_run:
  assumes "queue_inv hash k cap d (t, st)" "0 < k"
  shows "\<exists>t' st'. queue_run hash es (t, st) = Some (t', st') \<and> queue_inv hash k cap d (t', st') \<and>
           mset (qt_accepted t') + mset (qt_dropped t') =
           mset (qt_accepted t) + mset (qt_dropped t) + mset (sent_items es)"
  using assms(1)
proof (induction es arbitrary: t st)
  case Nil
  then show ?case by simp
next
  case (Cons e es)
  show ?case
  proof (cases e)
    case (QSend x)
    from queue_inv_send [OF Cons.prems assms(2), of x] obtain t' st' where
      "queue_step hash e (t, st) = Some (t', st')" "queue_inv hash k cap d (t', st')"
      "mset (qt_accepted t') + mset (qt_dropped t') = mset (qt_accepted t) + mset (qt_dropped t) + {#x#}"
      unfolding QSend by blast
    with Cons.IH [of t' st'] QSend show ?thesis by (auto simp: ac_simps)
  next
    case (QRecv i)
    then show ?thesis
    proof (cases "worker_recv i st")
      case None
      then show ?thesis using Cons QRecv by simp
    next
      case (Some a)
      then obtain x st' where "worker_recv i st = Some (x, st')" by (cases a) simp
      with queue_inv_recv [OF Cons.prems assms(2) this] Cons.IH QRecv show ?thesis by fastforce
    qed
  qed
qed

subsection \<open>Properties\<close>

text \<open>
  C5: however senders and workers interleave, starting with \<open>k > 0\<close> empty queues, no send
  panics; every item is either accepted or counted as dropped; for every node the items its
  worker has taken, followed by those still waiting in the one queue of its shard, are exactly
  the accepted items of that node in the order they were sent (nothing accepted is lost,
  duplicated or reordered); and no queue exceeds its capacity.
\<close>

theorem ingestion_per_node_fifo:
  assumes "0 < k" "as_worker_txs st = replicate k (channel_new 1024)"
  shows "\<exists>t st'. queue_run hash es (trace_new, st) = Some (t, st') \<and>
           mset (qt_accepted t) + mset (qt_dropped t) = mset (sent_items es) \<and>
           INGESTION_DROPS (as_metrics st') = INGESTION_DROPS (as_metrics st) + length (qt_dropped t) \<and>
           (\<forall>n. of_node n (qt_taken t) @ of_node n (ch_queue (as_worker_txs st' ! (unat (hash n) mod k))) =
                of_node n (qt_accepted t)) \<and>
           (\<forall>c \<in> set (as_worker_txs st'). length (ch_queue c) \<le> 1024)"
proof -
  have "queue_inv hash k 1024 (INGESTION_DROPS (as_metrics st)) (trace_new, st)"
    using assms by (simp add: queue_inv_def queue_worker_inv_def trace_new_def channel_new_def channel_ok_def)
  from queue_inv_run [OF this assms(1), of es] obtain t st' where
    run: "queue_run hash es (trace_new, st) = Some (t, st')"
    and inv: "queue_inv hash k 1024 (INGESTION_DROPS (as_metrics st)) (t, st')"
    and "mset (qt_accepted t) + mset (qt_dropped t) = mset (sent_items es)"
    by (auto simp: trace_new_def)
  moreover have "\<forall>c \<in> set (as_worker_txs st'). length (ch_queue c) \<le> 1024"
    using queue_inv_worker(1,2) [OF inv] queue_inv_length [OF inv] by (auto simp: channel_ok_def in_set_conv_nth)
  ultimately show ?thesis by (auto simp: queue_inv_def)
qed

theorem ingestion_per_node_fifo_witness:
  "\<exists>t st'. queue_run (\<lambda>_. 5) [QSend (IStats [110] 1 [] DNull), QRecv 1, QSend (IStats [110] 2 [] DNull)]
     (trace_new, app_state_new database_new metrics_new (replicate 4 (channel_new 1024))) = Some (t, st') \<and>
     mset (qt_accepted t) + mset (qt_dropped t) = {#IStats [110] 1 [] DNull, IStats [110] 2 [] DNull#}"
proof -
  let ?es = "[QSend (IStats [110] 1 [] DNull), QRecv 1, QSend (IStats [110] 2 [] DNull)]"
  let ?st = "app_state_new database_new metrics_new (replicate 4 (channel_new 1024))"
  have "as_worker_txs ?st = replicate 4 (channel_new 1024)" by (simp add: app_state_new_def)
  with ingestion_per_node_fifo [of 4 ?st "\<lambda>_. 5" ?es] show ?thesis
    by (auto simp: sent_items.simps)
qed

text \<open>
  What one send does. It touches only the queue of the node's shard: when that queue is open
  and has room the item is appended to it, otherwise the state stays as it was but for the drop
  counter, which grows by one. Without workers the send panics.
\<close>

theorem send_to_worker_effect:
  "send_to_worker hash n x st =
     (if as_worker_txs st = [] then None
      else let i = unat (hash n) mod length (as_worker_txs st); c = as_worker_txs st ! i in
        if ch_open c \<and> length (ch_queue c) < ch_capacity c
        then Some (st\<lparr>as_worker_txs := (as_worker_txs st)[i := c\<lparr>ch_queue := ch_queue c @ [x]\<rparr>]\<rparr>)
        else Some (st\<lparr>as_metrics := (as_metrics st)\<lparr>INGESTION_DROPS := Suc (INGESTION_DROPS (as_metrics st))\<rparr>\<rparr>))"
proof (cases "as_worker_txs st = []")
  case True
  then show ?thesis by (simp add: send_to_worker_def shard_def)
next
  case False
  then show ?thesis
    by (simp add: send_to_worker_cases try_send_def Let_def inc_ingestion_drop_def)
qed

end
