(* ===== verification/Pulse_Worker.thy ===== *)
theory Pulse_Worker
  imports Pulse_State
begin

text \<open>
  The ingestion workers of src/pulse-server/src/main.rs: the VictoriaMetrics url and semaphore,
  the loop of one worker over its queue, the push tasks a worker spawns, and
  \<open>serialize_to_vm_jsonl\<close>. A worker's state is the application state with the free permits of the
  semaphore and the pushes in flight; each push holds a permit until it ends. What the database
  and the clock do during one item is \<open>item_io\<close>, an argument.
\<close>

subsection \<open>Definitions\<close>

definition trim_end_slashes :: "rstr \<Rightarrow> rstr" where
  "trim_end_slashes s = rev (dropWhile (\<lambda>c. c = 47) (rev s))"

definition vm_import_url :: "rstr option \<Rightarrow> rstr option" where
  "vm_import_url var = map_option (\<lambda>url. trim_end_slashes (trim url) @ lit ''/api/v1/import'') var"

text \<open>The HTTP client for the pushes; \<open>build\<close> is \<open>None\<close> when the builder fails. There is one exactly when
  there is an address, so that \<open>vm_push\<close> looks at the address only.\<close>

definition vm_client :: "'c option \<Rightarrow> 'c \<Rightarrow> rstr option \<Rightarrow> 'c option" where
  "vm_client build plain vm_url = (if vm_url \<noteq> None then Some (unwrap_or build plain) else None)"

text \<open>\<open>lines.join("\n") + "\n"\<close>\<close>

fun join_lines :: "rstr list \<Rightarrow> rstr" where
  "join_lines [] = []"
| "join_lines [l] = l"
| "join_lines (l # ls) = l @ [10] @ join_lines ls"

definition vm_line :: "'j json_lib \<Rightarrow> rstr \<Rightarrow> i64 \<Rightarrow> rstr \<Rightarrow> f64 \<Rightarrow> rstr" where
  "vm_line J node_id timestamp_ms name val =
     jl_to_string J (jl_object J
       [(lit ''metric'', jl_object J
          [(lit ''__name__'', jl_string J name), (lit ''node_id'', jl_string J node_id)]),
        (lit ''values'', jl_array J [jl_f64 J val]),
        (lit ''timestamps'', jl_array J [jl_i64 J timestamp_ms])])"

text \<open>\<open>if let Some(x) = obj.get(key).and_then(..)\<close> for the two accessors.\<close>

definition metric_f64 :: "'j json_lib \<Rightarrow> (rstr \<rightharpoonup> 'j) \<Rightarrow> rstr \<Rightarrow> rstr \<Rightarrow> (rstr \<times> f64) list" where
  "metric_f64 J obj key name =
     (case Option.bind (obj key) (jl_as_f64 J) of None \<Rightarrow> [] | Some x \<Rightarrow> [(name, x)])"

definition metric_u64 :: "'j json_lib \<Rightarrow> (rstr \<rightharpoonup> 'j) \<Rightarrow> rstr \<Rightarrow> rstr \<Rightarrow> (rstr \<times> f64) list" where
  "metric_u64 J obj key name =
     (case Option.bind (obj key) (jl_as_u64 J) of None \<Rightarrow> [] | Some x \<Rightarrow> [(name, f64_of_nat (unat x))])"

definition vm_metrics :: "'j json_lib \<Rightarrow> 'j \<Rightarrow> (rstr \<times> f64) list" where
  "vm_metrics J stats =
     (case jl_as_object J stats of
        None \<Rightarrow> []
      | Some obj \<Rightarrow>
          metric_f64 J obj (lit ''cpu_percent'') (lit ''hakuraku_cpu_percent'') @
          metric_u64 J obj (lit ''mem_total'') (lit ''hakuraku_mem_total_bytes'') @
          metric_u64 J obj (lit ''mem_used'') (lit ''hakuraku_mem_used_bytes'') @
          metric_u64 J obj (lit ''mem_free'') (lit ''hakuraku_mem_free_bytes'') @
          metric_u64 J obj (lit ''mem_available'') (lit ''hakuraku_mem_available_bytes'') @
          metric_u64 J obj (lit ''swap_total'') (lit ''hakuraku_swap_total_bytes'') @
          metric_u64 J obj (lit ''swap_used'') (lit ''hakuraku_swap_used_bytes'') @
          metric_u64 J obj (lit ''disk_read_bytes_sec'') (lit ''hakuraku_disk_read_bytes_sec'') @
          metric_u64 J obj (lit ''disk_write_bytes_sec'') (lit ''hakuraku_disk_write_bytes_sec'') @
          metric_u64 J obj (lit ''tcp_connections'') (lit ''hakuraku_tcp_connections'') @
          metric_u64 J obj (lit ''udp_connections'') (lit ''hakuraku_udp_connections'') @
          metric_u64 J obj (lit ''uptime_seconds'') (lit ''hakuraku_uptime_seconds''))"

definition serialize_to_vm_jsonl :: "'j json_lib \<Rightarrow> rstr \<Rightarrow> i64 \<Rightarrow> 'j \<Rightarrow> rstr" where
  "serialize_to_vm_jsonl J node_id timestamp_ms stats =
     join_lines (map (\<lambda>(name, val). vm_line J node_id timestamp_ms name val) (vm_metrics J stats)) @ [10]"

record 'j ingest =
  ig_state :: "'j app_state"
  ig_vm_permits :: nat
  ig_vm_posts :: "(rstr \<times> rstr) list"

definition ingest_new :: "'j app_state \<Rightarrow> 'j ingest" where
  "ingest_new st = \<lparr>ig_state = st, ig_vm_permits = 64, ig_vm_posts = []\<rparr>"

record item_io =
  io_first :: db_outcome
  io_second :: db_outcome
  io_now_ms :: i64

definition ig_count :: "(metrics \<Rightarrow> metrics) \<Rightarrow> 'j ingest \<Rightarrow> 'j ingest" where
  "ig_count f ig = ig\<lparr>ig_state := (ig_state ig)\<lparr>as_metrics := f (as_metrics (ig_state ig))\<rparr>\<rparr>"

definition vm_push :: "'j json_lib \<Rightarrow> rstr option \<Rightarrow> rstr \<Rightarrow> i64 \<Rightarrow> 'j \<Rightarrow> 'j ingest \<Rightarrow> 'j ingest" where
  "vm_push J vm_url node_id timestamp_ms stats_json ig =
     (case vm_url of
        None \<Rightarrow> ig
      | Some url \<Rightarrow>
          (let payload = serialize_to_vm_jsonl J node_id timestamp_ms stats_json in
           if 0 < ig_vm_permits ig
           then ig\<lparr>ig_vm_permits := ig_vm_permits ig - 1, ig_vm_posts := ig_vm_posts ig @ [(url, payload)]\<rparr>
           else ig_count (inc_db_error (lit ''victoriametrics_backpressure'')) ig))"

text \<open>The errors of the two calls are logged; the worker goes on.\<close>

primrec handle_item ::
  "'j json_lib \<Rightarrow> rstr option \<Rightarrow> item_io \<Rightarrow> 'j ingestion_item \<Rightarrow> 'j ingest \<Rightarrow> 'j ingest" where
  "handle_item J vm_url io (IStats node_id timestamp_ms stats_str stats_json) ig =
     (let (_, st) = with_db (upsert_node (io_first io) (io_now_ms io) node_id node_id (lit ''online'')) (ig_state ig);
          (_, st) = with_db (insert_snapshot J (io_second io) node_id timestamp_ms stats_str) st
      in vm_push J vm_url node_id timestamp_ms stats_json (ig\<lparr>ig_state := st\<rparr>))"
| "handle_item J vm_url io (IProbe node_id target success latency_us error_message timestamp) ig =
     (let (_, st) = with_db (insert_probe_result (io_first io) node_id target success latency_us
                       error_message timestamp) (ig_state ig)
      in ig\<lparr>ig_state := st\<rparr>)"

text \<open>The end of the \<open>k\<close>-th push in flight, which frees its permit.\<close>

definition vm_post_done :: "nat \<Rightarrow> bool \<Rightarrow> 'j ingest \<Rightarrow> 'j ingest" where
  "vm_post_done k failed ig =
     (if k < length (ig_vm_posts ig)
      then (let ig = ig\<lparr>ig_vm_posts := take k (ig_vm_posts ig) @ drop (Suc k) (ig_vm_posts ig),
                       ig_vm_permits := Suc (ig_vm_permits ig)\<rparr>
            in if failed then ig_count (inc_db_error (lit ''victoriametrics_post'')) ig else ig)
      else ig)"

text \<open>One turn of the loop of worker \<open>i\<close>; an empty queue leaves it waiting.\<close>

definition worker_step ::
  "'j json_lib \<Rightarrow> rstr option \<Rightarrow> nat \<Rightarrow> item_io \<Rightarrow> 'j ingest \<Rightarrow> 'j ingest" where
  "worker_step J vm_url i io ig =
     (case worker_recv i (ig_state ig) of
        None \<Rightarrow> ig
      | Some (item, st) \<Rightarrow> handle_item J vm_url io item (ig\<lparr>ig_state := st\<rparr>))"

text \<open>
  The loop of worker \<open>i\<close> once the senders are gone: it handles what is queued and ends. The
  list \<open>ios\<close> gives what happens during each item.
\<close>

fun worker_drain ::
  "'j json_lib \<Rightarrow> rstr option \<Rightarrow> nat \<Rightarrow> item_io list \<Rightarrow> 'j ingest \<Rightarrow> 'j ingest" where
  "worker_drain J vm_url i [] ig = ig"
| "worker_drain J vm_url i (io # ios) ig = worker_drain J vm_url i ios (worker_step J vm_url i io ig)"

subsection \<open>Specification\<close>

definition vm_ok :: "'j ingest \<Rightarrow> bool" where
  "vm_ok ig \<longleftrightarrow> ig_vm_permits ig + length (ig_vm_posts ig) = 64"

text \<open>What may happen to the pushes: a worker handles an item, or a push ends.\<close>

datatype 'j ingest_event = IgItem item_io "'j ingestion_item" | IgPostDone nat bool

primrec ingest_step :: "'j json_lib \<Rightarrow> rstr option \<Rightarrow> 'j ingest_event \<Rightarrow> 'j ingest \<Rightarrow> 'j ingest" where
  "ingest_step J vm_url (IgItem io item) = handle_item J vm_url io item"
| "ingest_step J vm_url (IgPostDone k failed) = vm_post_done k failed"

text \<open>The snapshot row an item of statistics leaves in the table.\<close>

fun snapshot_of_item :: "'j json_lib \<Rightarrow> 'j ingestion_item \<Rightarrow> 'j snapshot_row list" where
  "snapshot_of_item J (IStats n ts str v) =
     [\<lparr>sr_node_id = n, sr_timestamp = ts, sr_stats_json = unwrap_or (jl_from_str J str) (jl_null J)\<rparr>]"
| "snapshot_of_item J (IProbe n tg ok lat e ts) = []"

definition expected_metrics :: "stats_serializable \<Rightarrow> (rstr \<times> f64) list" where
  "expected_metrics s =
     (if is_finite (ss_cpu_percent s) then [(lit ''hakuraku_cpu_percent'', ss_cpu_percent s)] else []) @
     map (\<lambda>(name, val). (name, f64_of_nat (unat val)))
       [(lit ''hakuraku_mem_total_bytes'', ss_mem_total s),
        (lit ''hakuraku_mem_used_bytes'', ss_mem_used s),
        (lit ''hakuraku_mem_free_bytes'', ss_mem_free s),
        (lit ''hakuraku_mem_available_bytes'', ss_mem_available s),
        (lit ''hakuraku_swap_total_bytes'', ss_swap_total s),
        (lit ''hakuraku_swap_used_bytes'', ss_swap_used s),
        (lit ''hakuraku_disk_read_bytes_sec'', ss_disk_read_bytes_sec s),
        (lit ''hakuraku_disk_write_bytes_sec'', ss_disk_write_bytes_sec s),
        (lit ''hakuraku_tcp_connections'', ucast (ss_tcp_connections s)),
        (lit ''hakuraku_udp_connections'', ucast (ss_udp_connections s)),
        (lit ''hakuraku_uptime_seconds'', ss_uptime_seconds s)]"

declare handle_item.simps [simp del]

subsection \<open>Lemmas: the payload\<close>

lemma join_lines_terminated: "ls \<noteq> [] \<Longrightarrow> join_lines ls @ [10] = concat (map (\<lambda>l. l @ [10]) ls)"
  by (induction ls rule: join_lines.induct) simp_all

lemma metric_u64_field:
  assumes "json_lib_ok J" "obj key = Some (jl_u64 J x)"
  shows "metric_u64 J obj key name = [(name, f64_of_nat (unat x))]"
  using assms json_lib_okD(2) [OF assms(1)] by (simp add: metric_u64_def)

lemma metric_f64_field:
  assumes "json_lib_ok J" "obj key = Some (jl_f64 J x)"
  shows "metric_f64 J obj key name = (if is_finite x then [(name, x)] else [])"
  using assms json_lib_okD(3,4) [OF assms(1)] by (simp add: metric_f64_def)

lemma vm_metrics_of_stats:
  assumes "json_lib_ok J" "jl_as_object J v = Some (map_of (stats_fields J s))"
  shows "vm_metrics J v = expected_metrics s"
proof -
  let ?o = "map_of (stats_fields J s)"
  have "?o (lit ''cpu_percent'') = Some (jl_f64 J (ss_cpu_percent s))"
    "?o (lit ''mem_total'') = Some (jl_u64 J (ss_mem_total s))"
    "?o (lit ''mem_used'') = Some (jl_u64 J (ss_mem_used s))"
    "?o (lit ''mem_free'') = Some (jl_u64 J (ss_mem_free s))"
    "?o (lit ''mem_available'') = Some (jl_u64 J (ss_mem_available s))"
    "?o (lit ''swap_total'') = Some (jl_u64 J (ss_swap_total s))"
    "?o (lit ''swap_used'') = Some (jl_u64 J (ss_swap_used s))"
    "?o (lit ''disk_read_bytes_sec'') = Some (jl_u64 J (ss_disk_read_bytes_sec s))"
    "?o (lit ''disk_write_bytes_sec'') = Some (jl_u64 J (ss_disk_write_bytes_sec s))"
    "?o (lit ''tcp_connections'') = Some (jl_u64 J (ucast (ss_tcp_connections s)))"
    "?o (lit ''udp_connections'') = Some (jl_u64 J (ucast (ss_udp_connections s)))"
    "?o (lit ''uptime_seconds'') = Some (jl_u64 J (ss_uptime_seconds s))"
    by (simp_all add: stats_fields_def lit_def)
  with assms show ?thesis
    by (simp add: vm_metrics_def expected_metrics_def metric_u64_field metric_f64_field)
qed

subsection \<open>Lemmas: the worker\<close>

lemma with_db_eq:
  "with_db f st = (fst (f (as_db st, as_metrics st)),
     st\<lparr>as_db := fst (snd (f (as_db st, as_metrics st))), as_metrics := snd (snd (f (as_db st, as_metrics st)))\<rparr>)"
  by (simp add: with_db_def split: prod.split)

lemma vm_push_state [simp]:
  "as_db (ig_state (vm_push J u n ts v ig)) = as_db (ig_state ig)"
  "as_worker_txs (ig_state (vm_push J u n ts v ig)) = as_worker_txs (ig_state ig)"
  "as_nodes (ig_state (vm_push J u n ts v ig)) = as_nodes (ig_state ig)"
  "as_broadcast (ig_state (vm_push J u n ts v ig)) = as_broadcast (ig_state ig)"
  by (simp_all add: vm_push_def ig_count_def Let_def split: option.split)

lemma handle_item_state [simp]:
  "as_worker_txs (ig_state (handle_item J u io x ig)) = as_worker_txs (ig_state ig)"
  "as_nodes (ig_state (handle_item J u io x ig)) = as_nodes (ig_state ig)"
  "as_broadcast (ig_state (handle_item J u io x ig)) = as_broadcast (ig_state ig)"
  by (cases x; simp add: with_db_eq handle_item.simps Let_def)+

lemma handle_item_db_ok: "db_ok (as_db (ig_state ig)) \<Longrightarrow> db_ok (as_db (ig_state (handle_item J u io x ig)))"
  by (cases x) (simp_all add: with_db_eq handle_item.simps Let_def db_ok_upsert db_ok_insert_snapshot db_ok_insert_probe)

lemma handle_item_known:
  "dom (db_nodes (as_db (ig_state (handle_item J u io x ig)))) \<subseteq> insert (ii_node_id x) (dom (db_nodes (as_db (ig_state ig))))"
  by (cases x)
    (auto simp: with_db_eq handle_item.simps Let_def upsert_node_db insert_snapshot_db insert_probe_result_db
      split: if_splits)

lemma handle_stats_item_db:
  assumes "io_first io \<noteq> NotExecuted" "io_second io \<noteq> NotExecuted"
  shows "as_db (ig_state (handle_item J u io (IStats n ts str v) ig)) =
    (let db = as_db (ig_state ig) in
     db\<lparr>db_nodes := (db_nodes db)(n \<mapsto> \<lparr>nr_hostname = n, nr_last_seen = io_now_ms io, nr_status = lit ''online''\<rparr>),
        db_snapshots := db_snapshots db @ snapshot_of_item J (IStats n ts str v)\<rparr>)"
  using assms by (simp add: with_db_eq handle_item.simps upsert_node_db insert_snapshot_db Let_def)

lemma handle_item_snapshots:
  assumes "io_first io \<noteq> NotExecuted" "io_second io \<noteq> NotExecuted"
  shows "db_snapshots (as_db (ig_state (handle_item J u io x ig))) =
         db_snapshots (as_db (ig_state ig)) @ snapshot_of_item J x"
proof (cases x)
  case (IStats n ts str v)
  then show ?thesis by (simp add: handle_stats_item_db [OF assms] Let_def)
next
  case (IProbe n tg ok lat e ts)
  then show ?thesis by (simp add: with_db_eq handle_item.simps insert_probe_result_db Let_def)
qed

lemma worker_recv_queue:
  assumes "i < length (as_worker_txs st)" "ch_queue (as_worker_txs st ! i) = x # xs"
  shows "\<exists>st'. worker_recv i st = Some (x, st') \<and> as_db st' = as_db st \<and> as_nodes st' = as_nodes st \<and>
     as_broadcast st' = as_broadcast st \<and>
     length (as_worker_txs st') = length (as_worker_txs st) \<and> ch_queue (as_worker_txs st' ! i) = xs"
  using assms by (simp add: worker_recv_def channel_recv_def)

lemma worker_recv_empty: "ch_queue (as_worker_txs st ! i) = [] \<Longrightarrow> worker_recv i st = None"
  by (simp add: worker_recv_def channel_recv_def)

lemma vm_ok_handle: "vm_ok ig \<Longrightarrow> vm_ok (handle_item J u io x ig)"
  by (cases x) (auto simp: vm_ok_def handle_item.simps vm_push_def ig_count_def Let_def split: option.split prod.split)

lemma vm_ok_done: "vm_ok ig \<Longrightarrow> vm_ok (vm_post_done k failed ig)"
  by (auto simp: vm_ok_def vm_post_done_def ig_count_def Let_def)

lemma worker_drain_queue:
  assumes "i < length (as_worker_txs (ig_state ig))"
    and "length (ch_queue (as_worker_txs (ig_state ig) ! i)) \<le> length ios"
    and "\<forall>io \<in> set ios. io_first io \<noteq> NotExecuted \<and> io_second io \<noteq> NotExecuted"
  shows "ch_queue (as_worker_txs (ig_state (worker_drain J u i ios ig)) ! i) = [] \<and>
         db_snapshots (as_db (ig_state (worker_drain J u i ios ig))) =
         db_snapshots (as_db (ig_state ig)) @
         concat (map (snapshot_of_item J) (ch_queue (as_worker_txs (ig_state ig) ! i)))"
  using assms
proof (induction ios arbitrary: ig)
  case (Cons io ios)
  show ?case
  proof (cases "ch_queue (as_worker_txs (ig_state ig) ! i)")
    case Nil
    with Cons show ?thesis by (simp add: worker_step_def worker_recv_empty)
  next
    case q: (Cons x xs)
    from worker_recv_queue [OF Cons.prems(1) q] obtain st' where
      r: "worker_recv i (ig_state ig) = Some (x, st')" "as_db st' = as_db (ig_state ig)"
      "length (as_worker_txs st') = length (as_worker_txs (ig_state ig))" "ch_queue (as_worker_txs st' ! i) = xs"
      by blast
    let ?ig = "handle_item J u io x (ig\<lparr>ig_state := st'\<rparr>)"
    have step: "worker_step J u i io ig = ?ig" using r(1) by (simp add: worker_step_def)
    have "db_snapshots (as_db (ig_state ?ig)) = db_snapshots (as_db (ig_state ig)) @ snapshot_of_item J x"
      using handle_item_snapshots [of io J u x "ig\<lparr>ig_state := st'\<rparr>"] Cons.prems(3) r(2) by simp
    with Cons.IH [of ?ig] Cons.prems r q step show ?thesis by simp
  qed
qed simp

subsection \<open>Properties\<close>

text \<open>
  The text pushed to VictoriaMetrics for the statistics of a message is one line per metric,
  each ended by a newline: the CPU percentage (left out when it is not a finite number) and the
  eleven counters, in order, under their names, each as a double.
\<close>

theorem vm_payload_complete:
  assumes "json_lib_ok J"
  shows "\<exists>v. jl_stats_to_value J s = Some v \<and>
     serialize_to_vm_jsonl J n ts v =
       concat (map (\<lambda>(name, val). vm_line J n ts name val @ [10]) (expected_metrics s))"
proof -
  from stats_value_lookup [OF assms, of s] obtain v where v: "jl_stats_to_value J s = Some v"
    and "jl_as_object J v = Some (map_of (stats_fields J s))" by blast
  then have "vm_metrics J v = expected_metrics s" using vm_metrics_of_stats [OF assms] by blast
  moreover have "expected_metrics s \<noteq> []" by (simp add: expected_metrics_def)
  ultimately show ?thesis
    using v by (simp add: serialize_to_vm_jsonl_def join_lines_terminated comp_def case_prod_unfold)
qed

theorem vm_payload_complete_witness:
  "\<exists>v. jl_stats_to_value demo_json_lib (stats_serializable_from (demo_stats [97])) = Some v \<and>
     serialize_to_vm_jsonl demo_json_lib [97] 5 v =
       concat (map (\<lambda>(name, val). vm_line demo_json_lib [97] 5 name val @ [10])
         (expected_metrics (stats_serializable_from (demo_stats [97]))))"
  by (rule vm_payload_complete [OF demo_json_lib_ok])

text \<open>
  A worker that handles statistics, with both statements executed (even when their answers
  are lost), leaves the node online with the time of the write and appends exactly one snapshot:
  the node's id, the agent's timestamp and the value its text parses to. No item, with whatever
  outcome, breaks the referential integrity.
\<close>

theorem worker_stores_stats:
  assumes "io_first io \<noteq> NotExecuted" "io_second io \<noteq> NotExecuted"
  shows "db_nodes (as_db (ig_state (handle_item J u io (IStats n ts str v) ig))) =
           (db_nodes (as_db (ig_state ig)))(n \<mapsto> \<lparr>nr_hostname = n, nr_last_seen = io_now_ms io, nr_status = lit ''online''\<rparr>) \<and>
         db_snapshots (as_db (ig_state (handle_item J u io (IStats n ts str v) ig))) =
           db_snapshots (as_db (ig_state ig)) @
           [\<lparr>sr_node_id = n, sr_timestamp = ts, sr_stats_json = unwrap_or (jl_from_str J str) (jl_null J)\<rparr>] \<and>
         (db_ok (as_db (ig_state ig)) \<longrightarrow> db_ok (as_db (ig_state (handle_item J u io' x ig))))"
  using handle_stats_item_db [OF assms, of J u n ts str v ig] handle_item_db_ok
  by (auto simp: Let_def)

theorem worker_stores_stats_witness:
  "db_snapshots (as_db (ig_state (handle_item demo_json_lib None
      \<lparr>io_first = Executed, io_second = Executed, io_now_ms = 9\<rparr> (IStats [97] 5 (lit ''{}'') DNull)
      (ingest_new (app_state_new database_new metrics_new []))))) =
   [\<lparr>sr_node_id = [97], sr_timestamp = 5, sr_stats_json = DObject []\<rparr>]"
  using worker_stores_stats [of "\<lparr>io_first = Executed, io_second = Executed, io_now_ms = 9\<rparr>" demo_json_lib None
      "[97]" 5 "lit ''{}''" DNull "ingest_new (app_state_new database_new metrics_new [])"
      "\<lparr>io_first = Executed, io_second = Executed, io_now_ms = 9\<rparr>" "IProbe [] [] True 0 [] 0"]
  by (simp add: ingest_new_def app_state_new_def database_new_def)

text \<open>
  A probe result of a node that has no row yet (no statistics of it were stored) is refused
  by the foreign key whatever the outcome of the call: nothing is stored, and one error is
  counted.
\<close>

theorem probe_before_stats_is_lost:
  assumes "n \<notin> dom (db_nodes (as_db (ig_state ig)))"
  shows "as_db (ig_state (handle_item J u io (IProbe n tg ok lat e ts) ig)) = as_db (ig_state ig) \<and>
         DB_ERRORS (as_metrics (ig_state (handle_item J u io (IProbe n tg ok lat e ts) ig))) =
         incr (lit ''insert_probe_result'') (DB_ERRORS (as_metrics (ig_state ig)))"
proof -
  let ?st = "(as_db (ig_state ig), as_metrics (ig_state ig))"
  have "fst (insert_probe_result (io_first io) n tg ok lat e ts ?st) = Inl DbError"
    using assms by (simp add: insert_probe_result_fst)
  then have "DB_ERRORS (snd (snd (insert_probe_result (io_first io) n tg ok lat e ts ?st))) =
    incr (lit ''insert_probe_result'') (DB_ERRORS (as_metrics (ig_state ig)))"
    unfolding insert_probe_result_def by (simp add: query_counts)
  with assms show ?thesis by (simp add: with_db_eq handle_item.simps Let_def insert_probe_result_db)
qed

theorem probe_before_stats_is_lost_witness:
  "as_db (ig_state (handle_item demo_json_lib None \<lparr>io_first = Executed, io_second = Executed, io_now_ms = 9\<rparr>
      (IProbe [97] [] True 3 [] 5) (ingest_new (app_state_new database_new metrics_new [])))) = database_new"
  using probe_before_stats_is_lost [of "[97]" "ingest_new (app_state_new database_new metrics_new [])" demo_json_lib None
      "\<lparr>io_first = Executed, io_second = Executed, io_now_ms = 9\<rparr>" "[]" True 3 "[]" 5]
  by (simp add: ingest_new_def app_state_new_def database_new_def)

text \<open>
  Whatever items the workers handle and in whatever order the pushes end, the free permits
  and the pushes in flight add up to 64: never more than 64 requests to VictoriaMetrics run at
  once, and no permit is lost.
\<close>

theorem vm_pushes_bounded:
  "ig_vm_permits (fold (ingest_step J u) es (ingest_new st)) +
   length (ig_vm_posts (fold (ingest_step J u) es (ingest_new st))) = 64"
proof -
  have "vm_ok ig \<Longrightarrow> vm_ok (fold (ingest_step J u) es ig)" for ig
  proof (induction es arbitrary: ig)
    case (Cons e es)
    then show ?case by (cases e) (simp_all add: vm_ok_handle vm_ok_done)
  qed simp
  from this [of "ingest_new st"] show ?thesis by (simp add: vm_ok_def ingest_new_def)
qed

text \<open>
  C17: at shutdown, when the senders are gone, a worker handles everything that is queued: given
  database calls that reach the tables for each item, its queue ends empty and the table holds,
  behind what it held, one snapshot for every queued statistics item, in the order of the queue.
\<close>

theorem worker_drain_stores_queue:
  assumes "i < length (as_worker_txs (ig_state ig))"
    and "length (ch_queue (as_worker_txs (ig_state ig) ! i)) \<le> length ios"
    and "\<forall>io \<in> set ios. io_first io \<noteq> NotExecuted \<and> io_second io \<noteq> NotExecuted"
  shows "ch_queue (as_worker_txs (ig_state (worker_drain J u i ios ig)) ! i) = [] \<and>
         db_snapshots (as_db (ig_state (worker_drain J u i ios ig))) =
         db_snapshots (as_db (ig_state ig)) @
         concat (map (snapshot_of_item J) (ch_queue (as_worker_txs (ig_state ig) ! i)))"
  by (rule worker_drain_queue [OF assms])

theorem worker_drain_stores_queue_witness:
  "db_snapshots (as_db (ig_state (worker_drain demo_json_lib None 0
      [\<lparr>io_first = Executed, io_second = Executed, io_now_ms = 9\<rparr>]
      (ingest_new (app_state_new database_new metrics_new
         [\<lparr>ch_queue = [IStats [97] 5 (lit ''{}'') DNull], ch_capacity = 1024, ch_open = True\<rparr>]))))) =
   [\<lparr>sr_node_id = [97], sr_timestamp = 5, sr_stats_json = DObject []\<rparr>]"
  using worker_drain_stores_queue [of 0 "ingest_new (app_state_new database_new metrics_new
         [\<lparr>ch_queue = [IStats [97] 5 (lit ''{}'') DNull], ch_capacity = 1024, ch_open = True\<rparr>])"
      "[\<lparr>io_first = Executed, io_second = Executed, io_now_ms = 9\<rparr>]" demo_json_lib None]
  by (simp add: ingest_new_def app_state_new_def database_new_def)

end
