(* ===== verification/Pulse_Liveness.thy ===== *)
theory Pulse_Liveness
  imports Pulse_Worker
begin

text \<open>
  The background tasks of src/pulse-server/src/main.rs: the hourly cleanup of old rows, the load
  of the known nodes at startup, and the liveness check every ten seconds. The liveness check
  walks the registry without waiting (\<open>liveness_scan\<close>) and then writes and broadcasts the nodes
  that went offline (\<open>liveness_publish\<close>). The registry is a concurrent map that is walked in an
  order of its own: \<open>order\<close> lists its keys. Clock readings and database outcomes are arguments.
\<close>

subsection \<open>Definitions\<close>

definition cleanup_tick :: "db_outcome \<Rightarrow> db_outcome \<Rightarrow> i64 \<Rightarrow> 'j app_state \<Rightarrow> 'j app_state" where
  "cleanup_tick outcome_snaps outcome_probes now_ms st =
     (let seven_days_ms = 7 * 24 * 3600 * 1000;
          before_ms = now_ms - seven_days_ms
      in snd (with_db (cleanup_old_snapshots outcome_snaps outcome_probes before_ms) st))"

definition load_nodes ::
  "('j snapshot_row list \<Rightarrow> 'j snapshot_row list) \<Rightarrow> rstr list \<Rightarrow> db_outcome \<Rightarrow> 'j app_state \<Rightarrow> 'j app_state" where
  "load_nodes scan ids outcome st =
     (case with_db (get_all_nodes scan ids outcome) st of
        (Inr nodes, st) \<Rightarrow>
          st\<lparr>as_nodes := fold (\<lambda>node m. m(nf_node_id node \<mapsto> node)) nodes (as_nodes st)\<rparr>
      | (Inl e, st) \<Rightarrow> st)"

record 'j liveness =
  lv_nodes :: "rstr \<rightharpoonup> 'j node_info"
  lv_transitions :: "(rstr \<times> i64 \<times> 'j option) list"
  lv_online :: nat
  lv_offline :: nat

definition timed_out :: "i64 \<Rightarrow> 'j node_info \<Rightarrow> bool" where
  "timed_out now_ms node \<longleftrightarrow> nf_status node = Online \<and> 30000 <s now_ms - nf_last_seen_ms node"

definition liveness_visit :: "i64 \<Rightarrow> rstr \<Rightarrow> 'j liveness \<Rightarrow> 'j liveness" where
  "liveness_visit now_ms key lv =
     (case lv_nodes lv key of
        None \<Rightarrow> lv
      | Some node \<Rightarrow>
          (let (node, lv) =
             (if timed_out now_ms node
              then (let node = node\<lparr>nf_status := Offline\<rparr>
                    in (node, lv\<lparr>lv_nodes := (lv_nodes lv)(key \<mapsto> node),
                          lv_transitions := lv_transitions lv @
                            [(nf_node_id node, nf_last_seen_ms node, nf_latest_stats node)]\<rparr>))
              else (node, lv))
           in case nf_status node of
                Online \<Rightarrow> lv\<lparr>lv_online := Suc (lv_online lv)\<rparr>
              | Offline \<Rightarrow> lv\<lparr>lv_offline := Suc (lv_offline lv)\<rparr>
              | Unknown \<Rightarrow> lv))"

text \<open>\<open>tx.capacity()\<close> is the number of free places of a channel.\<close>

definition free_places :: "'a channel \<Rightarrow> nat" where
  "free_places c = ch_capacity c - length (ch_queue c)"

definition liveness_scan ::
  "i64 \<Rightarrow> rstr list \<Rightarrow> 'j app_state \<Rightarrow> (rstr \<times> i64 \<times> 'j option) list \<times> 'j app_state" where
  "liveness_scan now_ms order st =
     (let lv = fold (liveness_visit now_ms) order
                 \<lparr>lv_nodes = as_nodes st, lv_transitions = [], lv_online = 0, lv_offline = 0\<rparr>;
          m = (as_metrics st)\<lparr>NODES_ONLINE := lv_online lv, NODES_OFFLINE := lv_offline lv,
                 INGESTION_DEPTH := sum_list (map (\<lambda>c. 1024 - free_places c) (as_worker_txs st))\<rparr>
      in (lv_transitions lv, st\<lparr>as_nodes := lv_nodes lv, as_metrics := m\<rparr>))"

text \<open>One transition: \<open>io\<close> is the outcome of the write and the clock it reads.\<close>

definition publish_offline ::
  "'j json_lib \<Rightarrow> (db_outcome \<times> i64) \<times> (rstr \<times> i64 \<times> 'j option) \<Rightarrow> 'j app_state \<Rightarrow> 'j app_state" where
  "publish_offline J x st =
     (let ((outcome, now_ms), (node_id, last_seen, latest_stats)) = x;
          (_, st) = with_db (upsert_node outcome now_ms node_id node_id (lit ''offline'')) st
      in broadcast_send \<lparr>nu_node_id = node_id, nu_timestamp_ms = last_seen,
           nu_stats = unwrap_or latest_stats (jl_null J)\<rparr> st)"

definition liveness_publish ::
  "'j json_lib \<Rightarrow> (db_outcome \<times> i64) list \<Rightarrow> (rstr \<times> i64 \<times> 'j option) list \<Rightarrow> 'j app_state \<Rightarrow> 'j app_state" where
  "liveness_publish J ios transitions st = fold (publish_offline J) (zip ios transitions) st"

subsection \<open>Specification\<close>

definition mark_offline :: "i64 \<Rightarrow> 'j node_info \<Rightarrow> 'j node_info" where
  "mark_offline now_ms node = (if timed_out now_ms node then node\<lparr>nf_status := Offline\<rparr> else node)"

definition walks :: "rstr list \<Rightarrow> 'j app_state \<Rightarrow> bool" where
  "walks order st \<longleftrightarrow> distinct order \<and> set order = dom (as_nodes st)"

definition status_of :: "rstr \<Rightarrow> (rstr \<rightharpoonup> 'j node_info) \<Rightarrow> node_status option" where
  "status_of k m = map_option nf_status (m k)"

subsection \<open>Lemmas: the scan\<close>

text \<open>The state of the walk after the keys \<open>done\<close>, for a registry \<open>m\<close>.\<close>

definition after_scan :: "i64 \<Rightarrow> (rstr \<rightharpoonup> 'j node_info) \<Rightarrow> rstr \<rightharpoonup> 'j node_info" where
  "after_scan now_ms m k = map_option (mark_offline now_ms) (m k)"

definition transitions_of :: "i64 \<Rightarrow> (rstr \<rightharpoonup> 'j node_info) \<Rightarrow> rstr list \<Rightarrow> (rstr \<times> i64 \<times> 'j option) list" where
  "transitions_of now_ms m ks = concat (map (\<lambda>k. case m k of
           Some n \<Rightarrow> if timed_out now_ms n then [(nf_node_id n, nf_last_seen_ms n, nf_latest_stats n)] else []
         | None \<Rightarrow> []) ks)"

definition scanned :: "i64 \<Rightarrow> (rstr \<rightharpoonup> 'j node_info) \<Rightarrow> rstr list \<Rightarrow> 'j liveness" where
  "scanned now_ms m done =
     \<lparr>lv_nodes = (\<lambda>k. if k \<in> set done then after_scan now_ms m k else m k),
      lv_transitions = transitions_of now_ms m done,
      lv_online = length (filter (\<lambda>k. status_of k (after_scan now_ms m) = Some Online) done),
      lv_offline = length (filter (\<lambda>k. status_of k (after_scan now_ms m) = Some Offline) done)\<rparr>"

lemma mark_offline_simps [simp]:
  "nf_node_id (mark_offline now n) = nf_node_id n"
  "nf_last_seen_ms (mark_offline now n) = nf_last_seen_ms n"
  "nf_latest_stats (mark_offline now n) = nf_latest_stats n"
  by (simp_all add: mark_offline_def)

lemma timed_out_mark [simp]: "\<not> timed_out now (mark_offline now n)"
  by (simp add: mark_offline_def timed_out_def)

lemma scanned_visit:
  assumes "k \<notin> set done"
  shows "liveness_visit now k (scanned now m done) = scanned now m (done @ [k])"
proof -
  let ?f = "\<lambda>ks i. if i \<in> set ks then after_scan now m i else m i"
  have nodes: "?f (done @ [k]) = (?f done)(k := after_scan now m k)" by auto
  show ?thesis
  proof (cases "m k")
    case None
    then have "?f (done @ [k]) = ?f done" by (auto simp: after_scan_def)
    with None assms show ?thesis
      by (simp add: liveness_visit_def scanned_def status_of_def after_scan_def transitions_of_def)
  next
    case (Some n)
    show ?thesis
    proof (cases "timed_out now n")
      case True
      then have "after_scan now m k = Some (n\<lparr>nf_status := Offline\<rparr>)"
        using Some by (simp add: after_scan_def mark_offline_def)
      with True Some assms show ?thesis
        unfolding scanned_def nodes
        by (simp add: liveness_visit_def status_of_def transitions_of_def Let_def)
    next
      case False
      then have a: "after_scan now m k = Some n"
        using Some by (simp add: after_scan_def mark_offline_def)
      then have "(?f done)(k := after_scan now m k) = ?f done" using Some assms by auto
      with False Some assms a show ?thesis
        unfolding scanned_def nodes
        by (cases "nf_status n") (simp_all add: liveness_visit_def status_of_def transitions_of_def Let_def)
    qed
  qed
qed

lemma fold_liveness_visit:
  assumes "distinct (done @ order)"
  shows "fold (liveness_visit now) order (scanned now m done) = scanned now m (done @ order)"
  using assms
proof (induction order arbitrary: "done")
  case (Cons k ks)
  then have "fold (liveness_visit now) ks (scanned now m (done @ [k])) = scanned now m ((done @ [k]) @ ks)"
    by (intro Cons.IH) simp
  moreover have "k \<notin> set done" using Cons.prems by simp
  ultimately show ?case by (simp add: scanned_visit)
qed simp

lemma scanned_Nil: "scanned now m [] = \<lparr>lv_nodes = m, lv_transitions = [], lv_online = 0, lv_offline = 0\<rparr>"
  by (simp add: scanned_def transitions_of_def)

lemma liveness_scan_eq:
  assumes "distinct order"
  shows "liveness_scan now order st =
    (lv_transitions (scanned now (as_nodes st) order),
     st\<lparr>as_nodes := lv_nodes (scanned now (as_nodes st) order),
        as_metrics := (as_metrics st)\<lparr>NODES_ONLINE := lv_online (scanned now (as_nodes st) order),
          NODES_OFFLINE := lv_offline (scanned now (as_nodes st) order),
          INGESTION_DEPTH := sum_list (map (\<lambda>c. 1024 - free_places c) (as_worker_txs st))\<rparr>\<rparr>)"
  using fold_liveness_visit [of "[]" order now "as_nodes st"] assms
  by (simp add: liveness_scan_def scanned_Nil Let_def)

lemma timed_out_sint:
  assumes "\<bar>sint now - sint (nf_last_seen_ms n)\<bar> < 2 ^ 63"
  shows "timed_out now n \<longleftrightarrow> nf_status n = Online \<and> 30000 < sint now - sint (nf_last_seen_ms n)"
  using sint_diff_small [OF assms] by (simp add: timed_out_def word_sless_alt)

lemma length_filter_card: "distinct xs \<Longrightarrow> length (filter P xs) = card {x \<in> set xs. P x}"
  by (metis distinct_card distinct_filter set_filter)

lemma scanned_dom: "set order = dom m \<Longrightarrow> lv_nodes (scanned now m order) = after_scan now m"
  by (auto simp: scanned_def after_scan_def fun_eq_iff domIff)

lemma after_scan_idem [simp]: "after_scan now (after_scan now m) = after_scan now m"
  by (auto simp: after_scan_def fun_eq_iff option.map_comp comp_def mark_offline_def [of _ "mark_offline _ _"])

lemma transitions_after_scan [simp]: "transitions_of now (after_scan now m) ks = []"
  by (auto simp: transitions_of_def after_scan_def split: option.splits)

lemma set_transitions_of:
  "set (transitions_of now m ks) =
   {(nf_node_id n, nf_last_seen_ms n, nf_latest_stats n) | k n. k \<in> set ks \<and> m k = Some n \<and> timed_out now n}"
  by (auto simp: transitions_of_def split: option.splits if_splits) metis

lemma depth_of_channel: "ch_capacity c = 1024 \<Longrightarrow> channel_ok c \<Longrightarrow> 1024 - free_places c = length (ch_queue c)"
  by (simp add: free_places_def channel_ok_def)

subsection \<open>Lemmas: publishing\<close>

lemma publish_offline_eq:
  "publish_offline J ((oc, now), (k, ls, v)) st =
     (let f = upsert_node oc now k k (lit ''offline'') (as_db st, as_metrics st) in
      st\<lparr>as_db := fst (snd f), as_metrics := snd (snd f),
         as_broadcast := as_broadcast st @ [\<lparr>nu_node_id = k, nu_timestamp_ms = ls, nu_stats = unwrap_or v (jl_null J)\<rparr>]\<rparr>)"
  by (simp add: publish_offline_def broadcast_send_def with_db_eq Let_def)

lemma publish_frame:
  "as_nodes (liveness_publish J ios ts st) = as_nodes st"
  "as_worker_txs (liveness_publish J ios ts st) = as_worker_txs st"
proof -
  have "as_nodes (fold (publish_offline J) xs st) = as_nodes st \<and>
        as_worker_txs (fold (publish_offline J) xs st) = as_worker_txs st" for xs
  proof (induction xs arbitrary: st)
    case (Cons x xs)
    obtain oc now k ls v where "x = ((oc, now), (k, ls, v))" by (cases x) auto
    with Cons show ?case by (simp add: publish_offline_eq Let_def)
  qed simp
  then show "as_nodes (liveness_publish J ios ts st) = as_nodes st"
    "as_worker_txs (liveness_publish J ios ts st) = as_worker_txs st"
    by (simp_all add: liveness_publish_def)
qed

lemma publish_db_ok: "db_ok (as_db st) \<Longrightarrow> db_ok (as_db (liveness_publish J ios ts st))"
proof -
  have "db_ok (as_db st) \<Longrightarrow> db_ok (as_db (fold (publish_offline J) xs st))" for xs
  proof (induction xs arbitrary: st)
    case (Cons x xs)
    obtain oc now k ls v where "x = ((oc, now), (k, ls, v))" by (cases x) auto
    with Cons show ?case by (simp add: publish_offline_eq Let_def db_ok_upsert)
  qed simp
  then show "db_ok (as_db st) \<Longrightarrow> ?thesis" by (simp add: liveness_publish_def)
qed

lemma publish_broadcast:
  assumes "length ios = length ts"
  shows "as_broadcast (liveness_publish J ios ts st) = as_broadcast st @
    map (\<lambda>(k, ls, v). \<lparr>nu_node_id = k, nu_timestamp_ms = ls, nu_stats = unwrap_or v (jl_null J)\<rparr>) ts"
  using assms unfolding liveness_publish_def
proof (induction ios ts arbitrary: st rule: list_induct2)
  case (Cons io ios t ts)
  obtain oc now k ls v where "io = (oc, now)" "t = (k, ls, v)" by (cases io, cases t) auto
  with Cons show ?case by (simp add: publish_offline_eq Let_def)
qed simp

lemma publish_db_nodes:
  assumes "length ios = length ts" "\<forall>(oc, now) \<in> set ios. oc \<noteq> NotExecuted"
  shows "db_nodes (as_db (liveness_publish J ios ts st)) = db_nodes (as_db st) ++
    map_of (rev (map (\<lambda>((oc, now), (k, ls, v)). (k, \<lparr>nr_hostname = k, nr_last_seen = now, nr_status = lit ''offline''\<rparr>)) (zip ios ts)))"
  using assms unfolding liveness_publish_def
proof (induction ios ts arbitrary: st rule: list_induct2)
  case (Cons io ios t ts)
  obtain oc now k ls v where "io = (oc, now)" "t = (k, ls, v)" by (cases io, cases t) auto
  with Cons show ?case by (simp add: publish_offline_eq Let_def upsert_node_db map_add_assoc [symmetric])
qed simp

subsection \<open>Lemmas: loading\<close>

lemma fold_insert_nodes:
  "fold (\<lambda>node m. m(nf_node_id node \<mapsto> node)) ns m = m ++ map_of (rev (map (\<lambda>n. (nf_node_id n, n)) ns))"
  by (induction ns arbitrary: m) (simp_all add: map_add_assoc [symmetric])

definition node_answer :: "('j snapshot_row list \<Rightarrow> 'j snapshot_row list) \<Rightarrow> 'j database \<Rightarrow> rstr \<Rightarrow> 'j node_info option" where
  "node_answer scan db k =
     (case take 1 (joined_rows scan db k) of [] \<Rightarrow> None | row # _ \<Rightarrow> Some (node_info_of_row row))"

lemma get_node_answer: "fst (get_node scan Executed k (db, m)) = Inr (node_answer scan db k)"
  by (simp add: get_node_def select_node_def query_Executed node_answer_def)

lemma node_answer_known:
  assumes "scan_ok scan" "k \<in> dom (db_nodes db)"
  shows "map node_info_of_row (take 1 (joined_rows scan db k)) = [the (node_answer scan db k)]"
    and "nf_node_id (the (node_answer scan db k)) = k" and "node_answer scan db k \<noteq> None"
proof -
  from assms(2) obtain r where "db_nodes db k = Some r" by blast
  from joined_rows_take [OF assms(1) this] obtain stats where
    "take 1 (joined_rows scan db k) = [\<lparr>nw_id = k, nw_hostname = nr_hostname r, nw_last_seen = nr_last_seen r,
             nw_status = nr_status r, nw_stats_json = stats\<rparr>]" by blast
  then show "map node_info_of_row (take 1 (joined_rows scan db k)) = [the (node_answer scan db k)]"
    "nf_node_id (the (node_answer scan db k)) = k" "node_answer scan db k \<noteq> None"
    by (simp_all add: node_answer_def node_info_of_row_def Let_def)
qed

lemma node_answer_unknown: "k \<notin> dom (db_nodes db) \<Longrightarrow> node_answer scan db k = None"
  by (auto simp: node_answer_def joined_rows_def domIff)

lemma all_nodes_answers:
  assumes "scan_ok scan" "distinct ids" "set ids \<subseteq> dom (db_nodes db)"
  shows "map node_info_of_row (all_rows scan db ids) = map (\<lambda>i. the (node_answer scan db i)) ids"
  unfolding all_rows_distinct [OF assms(2)]
  using assms(3) node_answer_known(1) [OF assms(1)] by (induction ids) (simp_all add: subset_iff)

lemma node_info_of_row_stats:
  "node_info_of_row \<lparr>nw_id = k, nw_hostname = h, nw_last_seen = t, nw_status = s, nw_stats_json = v\<rparr> =
   (node_info_of_row \<lparr>nw_id = k, nw_hostname = h, nw_last_seen = t, nw_status = s, nw_stats_json = None\<rparr>)\<lparr>nf_latest_stats := v\<rparr>"
  by (simp only: node_info_of_row_def Let_def node_row.select_convs node_info.update_convs)

text \<open>A snapshot of node \<open>k\<close> with the highest timestamp, and the statistics a query may answer with.\<close>

definition newest_snapshot :: "'j database \<Rightarrow> rstr \<Rightarrow> 'j snapshot_row \<Rightarrow> bool" where
  "newest_snapshot db k x \<longleftrightarrow> x \<in> set (db_snapshots db) \<and> sr_node_id x = k \<and>
     (\<forall>q \<in> set (db_snapshots db). sr_node_id q = k \<longrightarrow> sint (sr_timestamp q) \<le> sint (sr_timestamp x))"

definition newest_stats :: "'j database \<Rightarrow> rstr \<Rightarrow> 'j option \<Rightarrow> bool" where
  "newest_stats db k v \<longleftrightarrow>
     (case v of None \<Rightarrow> k \<notin> sr_node_id ` set (db_snapshots db)
      | Some j \<Rightarrow> \<exists>x. newest_snapshot db k x \<and> sr_stats_json x = j)"

lemma node_answer_newest:
  assumes "scan_ok scan"
  shows "\<exists>stats. node_answer scan db k = map_option (\<lambda>r. node_info_of_row \<lparr>nw_id = k, nw_hostname = nr_hostname r,
         nw_last_seen = nr_last_seen r, nw_status = nr_status r, nw_stats_json = stats\<rparr>) (db_nodes db k) \<and>
     (k \<in> dom (db_nodes db) \<longrightarrow> newest_stats db k stats)"
proof -
  let ?rows = "filter (\<lambda>r. sr_node_id r = k) (db_snapshots db)"
  obtain stats where s: "fst (get_node scan Executed k (db, metrics_new)) = Inr (map_option (\<lambda>r. node_info_of_row \<lparr>nw_id = k,
         nw_hostname = nr_hostname r, nw_last_seen = nr_last_seen r, nw_status = nr_status r, nw_stats_json = stats\<rparr>) (db_nodes db k))"
    and c: "case stats of None \<Rightarrow> k \<in> dom (db_nodes db) \<longrightarrow> ?rows = []
      | Some v \<Rightarrow> \<exists>x \<in> set ?rows. sr_stats_json x = v \<and> (\<forall>q \<in> set ?rows. sint (sr_timestamp q) \<le> sint (sr_timestamp x))"
    using get_node_finds [OF assms, of k db metrics_new] by blast
  have "newest_stats db k stats" if "k \<in> dom (db_nodes db)"
  proof (cases stats)
    case None
    with c that show ?thesis by (auto simp: newest_stats_def filter_empty_conv)
  next
    case (Some v)
    with c obtain x where "x \<in> set ?rows" "sr_stats_json x = v" "\<forall>q \<in> set ?rows. sint (sr_timestamp q) \<le> sint (sr_timestamp x)"
      by auto
    with Some show ?thesis unfolding newest_stats_def newest_snapshot_def by auto
  qed
  with s show ?thesis unfolding get_node_answer by blast
qed

lemma newest_stats_unique:
  assumes "newest_stats db k v" "newest_stats db k w"
    and "\<And>x y. newest_snapshot db k x \<Longrightarrow> newest_snapshot db k y \<Longrightarrow> sr_stats_json x = sr_stats_json y"
  shows "v = w"
proof -
  have "\<not> newest_snapshot db k x" if "newest_stats db k None" for x
    using that by (auto simp: newest_stats_def newest_snapshot_def)
  moreover have "\<exists>x. newest_snapshot db k x \<and> sr_stats_json x = j" if "newest_stats db k (Some j)" for j
    using that by (simp add: newest_stats_def)
  ultimately show ?thesis using assms by (cases v; cases w) metis+
qed

lemma load_nodes_Executed:
  assumes "scan_ok scan" "distinct ids" "set ids = dom (db_nodes (as_db st))"
  shows "as_nodes (load_nodes scan ids Executed st) = as_nodes st ++ node_answer scan (as_db st)"
proof -
  let ?a = "node_answer scan (as_db st)"
  have ids: "map (\<lambda>n. (nf_node_id n, n)) (map (\<lambda>i. the (?a i)) ids) = map (\<lambda>i. (i, the (?a i))) ids"
    using node_answer_known(2) [OF assms(1), of _ "as_db st"] assms(3) by simp
  have "map_of (rev (map (\<lambda>i. (i, the (?a i))) ids)) = map_of (map (\<lambda>i. (i, the (?a i))) ids)"
    using assms(2) by (intro map_of_inject_set [THEN iffD2]) (simp_all add: comp_def rev_map [symmetric])
  also have "\<dots> = ?a"
  proof
    show "map_of (map (\<lambda>i. (i, the (?a i))) ids) k = ?a k" for k
      using node_answer_known(3) [OF assms(1), of k "as_db st"] node_answer_unknown [of k "as_db st" scan] assms(3)
      by (cases "k \<in> set ids") (auto simp: map_of_map_restrict restrict_map_def)
  qed
  finally have "map_of (rev (map (\<lambda>n. (nf_node_id n, n)) (map (\<lambda>i. the (?a i)) ids))) = ?a"
    unfolding ids .
  then show ?thesis
    using all_nodes_answers [OF assms(1,2), of "as_db st"] assms(3)
    by (simp add: load_nodes_def with_db_eq get_all_nodes_def query_Executed fold_insert_nodes)
qed

subsection \<open>An example registry\<close>

definition demo_info :: "i64 \<Rightarrow> node_status \<Rightarrow> demo_json node_info" where
  "demo_info seen status =
     \<lparr>nf_node_id = [110], nf_hostname = [110], nf_last_seen_ms = seen, nf_status = status, nf_latest_stats = None\<rparr>"

definition demo_state :: "demo_json app_state" where
  "demo_state = (app_state_new demo_db metrics_new [channel_new 1024])\<lparr>as_nodes := [[110] \<mapsto> demo_info 20 Online]\<rparr>"

lemma demo_state_simps [simp]:
  "as_nodes demo_state = [[110] \<mapsto> demo_info 20 Online]" "as_worker_txs demo_state = [channel_new 1024]"
  "as_db demo_state = demo_db" "as_broadcast demo_state = []"
  by (simp_all add: demo_state_def app_state_new_def)

subsection \<open>Properties\<close>

text \<open>
  C19: a liveness check, however the registry is walked, turns exactly those nodes offline that
  were online and were last seen more than 30 seconds ago, and changes nothing else of the
  registry; the transitions it reports are exactly those nodes; the gauges count the online and
  the offline nodes afterwards, and the depth gauge is the number of queued items. (The ages are
  taken within the range of the clock arithmetic.)
\<close>

theorem liveness_scan_exact:
  assumes "walks order st" "liveness_scan now order st = (ts, st')"
    and "\<forall>n \<in> ran (as_nodes st). \<bar>sint now - sint (nf_last_seen_ms n)\<bar> < 2 ^ 63"
    and "\<forall>c \<in> set (as_worker_txs st). ch_capacity c = 1024 \<and> length (ch_queue c) \<le> 1024"
  shows "as_nodes st' = (\<lambda>k. map_option (\<lambda>n. if nf_status n = Online \<and> 30000 < sint now - sint (nf_last_seen_ms n)
                                then n\<lparr>nf_status := Offline\<rparr> else n) (as_nodes st k)) \<and>
         set ts = {(nf_node_id n, nf_last_seen_ms n, nf_latest_stats n) | k n.
                     as_nodes st k = Some n \<and> nf_status n = Online \<and> 30000 < sint now - sint (nf_last_seen_ms n)} \<and>
         NODES_ONLINE (as_metrics st') = card {k. status_of k (as_nodes st') = Some Online} \<and>
         NODES_OFFLINE (as_metrics st') = card {k. status_of k (as_nodes st') = Some Offline} \<and>
         INGESTION_DEPTH (as_metrics st') = sum_list (map (length \<circ> ch_queue) (as_worker_txs st))"
proof -
  have walk: "distinct order" "set order = dom (as_nodes st)" using assms(1) by (auto simp: walks_def)
  have eq: "ts = transitions_of now (as_nodes st) order" "as_nodes st' = after_scan now (as_nodes st)"
    "as_metrics st' = (as_metrics st)\<lparr>NODES_ONLINE := lv_online (scanned now (as_nodes st) order),
          NODES_OFFLINE := lv_offline (scanned now (as_nodes st) order),
          INGESTION_DEPTH := sum_list (map (\<lambda>c. 1024 - free_places c) (as_worker_txs st))\<rparr>"
    using assms(2) liveness_scan_eq [OF walk(1), of now st] scanned_dom [OF walk(2), of now]
    by (auto simp: scanned_def)
  have to: "timed_out now n \<longleftrightarrow> nf_status n = Online \<and> 30000 < sint now - sint (nf_last_seen_ms n)"
    if "as_nodes st k = Some n" for k n
    using assms(3) that by (intro timed_out_sint) (auto simp: ran_def)
  have nodes: "as_nodes st' = (\<lambda>k. map_option (\<lambda>n. if nf_status n = Online \<and> 30000 < sint now - sint (nf_last_seen_ms n)
                                then n\<lparr>nf_status := Offline\<rparr> else n) (as_nodes st k))"
    unfolding eq(2) by (rule ext) (auto simp: after_scan_def mark_offline_def to intro!: option.map_cong)
  have count: "length (filter (\<lambda>k. status_of k (after_scan now (as_nodes st)) = Some s) order) =
      card {k. status_of k (as_nodes st') = Some s}" for s
    unfolding length_filter_card [OF walk(1)] eq(2) walk(2)
    by (rule arg_cong [of _ _ card]) (auto simp: status_of_def after_scan_def)
  have depth: "map (\<lambda>c. 1024 - free_places c) (as_worker_txs st) = map (length \<circ> ch_queue) (as_worker_txs st)"
    using assms(4) by (auto simp: channel_ok_def intro: depth_of_channel)
  have trans: "set ts = {(nf_node_id n, nf_last_seen_ms n, nf_latest_stats n) | k n.
                 as_nodes st k = Some n \<and> nf_status n = Online \<and> 30000 < sint now - sint (nf_last_seen_ms n)}"
    unfolding eq(1) set_transitions_of walk(2) using to by (auto simp: dom_def)
  from nodes trans count show ?thesis
    by (simp add: eq(3) scanned_def depth)
qed

theorem liveness_scan_exact_witness:
  "as_nodes (snd (liveness_scan 30021 [[110]] demo_state)) [110] = Some (demo_info 20 Offline)"
  using liveness_scan_exact [of "[[110]]" demo_state 30021 "fst (liveness_scan 30021 [[110]] demo_state)"
      "snd (liveness_scan 30021 [[110]] demo_state)"]
  by (simp add: walks_def channel_new_def demo_info_def)

text \<open>
  A second check at the same time finds nothing: it reports no transition and leaves the
  registry as the first one left it.
\<close>

theorem liveness_scan_idempotent:
  assumes "walks order st" "walks order' (snd (liveness_scan now order st))"
  shows "fst (liveness_scan now order' (snd (liveness_scan now order st))) = [] \<and>
         as_nodes (snd (liveness_scan now order' (snd (liveness_scan now order st)))) =
         as_nodes (snd (liveness_scan now order st))"
proof -
  let ?st = "snd (liveness_scan now order st)"
  have st: "as_nodes ?st = after_scan now (as_nodes st)"
    using assms(1) scanned_dom [of order "as_nodes st" now] by (simp add: walks_def liveness_scan_eq)
  show ?thesis
    using assms(2) scanned_dom [of order' "as_nodes ?st" now]
    unfolding walks_def by (simp add: liveness_scan_eq scanned_def st)
qed

theorem liveness_scan_idempotent_witness:
  "fst (liveness_scan 30021 [[110]] (snd (liveness_scan 30021 [[110]] demo_state))) = []"
proof -
  have "walks [[110]] demo_state" by (simp add: walks_def)
  moreover have "walks [[110]] (snd (liveness_scan 30021 [[110]] demo_state))"
    by (simp add: walks_def liveness_scan_eq scanned_def after_scan_def dom_def)
  ultimately show ?thesis using liveness_scan_idempotent by blast
qed

text \<open>
  C39: writing the transitions of a check marks each of those nodes offline in the table, but with
  the time of the write as its last seen time: the time the node was really seen, which the
  registry and the broadcast update carry, is overwritten.
\<close>

theorem offline_write_overwrites_last_seen:
  assumes "oc \<noteq> NotExecuted"
  shows "db_nodes (as_db (liveness_publish J [(oc, now)] [(k, last_seen, v)] st)) k =
           Some \<lparr>nr_hostname = k, nr_last_seen = now, nr_status = lit ''offline''\<rparr> \<and>
         as_broadcast (liveness_publish J [(oc, now)] [(k, last_seen, v)] st) =
           as_broadcast st @ [\<lparr>nu_node_id = k, nu_timestamp_ms = last_seen, nu_stats = unwrap_or v (jl_null J)\<rparr>]"
  using publish_db_nodes [of "[(oc, now)]" "[(k, last_seen, v)]" J st]
    publish_broadcast [of "[(oc, now)]" "[(k, last_seen, v)]" J st] assms
  by simp

theorem offline_write_overwrites_last_seen_witness:
  "db_nodes (as_db (liveness_publish demo_json_lib [(Executed, 30021)] [([110], 20, None)] demo_state)) [110] =
     Some \<lparr>nr_hostname = [110], nr_last_seen = 30021, nr_status = lit ''offline''\<rparr>"
  using offline_write_overwrites_last_seen [of Executed demo_json_lib 30021 "[110]" 20 None demo_state]
  by simp

text \<open>
  A check publishes one update per transition, in order, whatever happens to the database
  writes; with writes that reach the table, each of the nodes is stored as offline.
\<close>

theorem liveness_publish_all:
  assumes "length ios = length ts" "\<forall>(oc, now) \<in> set ios. oc \<noteq> NotExecuted"
  shows "as_broadcast (liveness_publish J ios ts st) = as_broadcast st @
           map (\<lambda>(k, ls, v). \<lparr>nu_node_id = k, nu_timestamp_ms = ls, nu_stats = unwrap_or v (jl_null J)\<rparr>) ts \<and>
         (\<forall>k \<in> fst ` set ts. \<exists>now. db_nodes (as_db (liveness_publish J ios ts st)) k =
            Some \<lparr>nr_hostname = k, nr_last_seen = now, nr_status = lit ''offline''\<rparr>)"
proof -
  let ?f = "\<lambda>((oc :: db_outcome, now), (k, ls :: i64, v :: 'a option)). (k, \<lparr>nr_hostname = k, nr_last_seen = now, nr_status = lit ''offline''\<rparr>)"
  let ?l = "rev (map ?f (zip ios ts))"
  have stored: "\<exists>now. map_of ?l k = Some \<lparr>nr_hostname = k, nr_last_seen = now, nr_status = lit ''offline''\<rparr>"
    if "k \<in> fst ` set ts" for k
  proof -
    from that obtain t where t: "t \<in> set ts" "k = fst t" by auto
    with assms(1) obtain io where "(io, t) \<in> set (zip ios ts)"
      by (metis in_set_impl_in_set_zip2)
    then have "?f (io, t) \<in> set ?l" by (simp only: set_rev set_map) (rule imageI)
    then have "fst (?f (io, t)) \<in> fst ` set ?l" by (rule imageI)
    moreover have "fst (?f (io, t)) = k" using t by (simp split: prod.split)
    ultimately have "map_of ?l k \<noteq> None" by (simp only: map_of_eq_None_iff) simp
    then obtain r where r: "map_of ?l k = Some r" by blast
    then have "(k, r) \<in> set ?l" by (rule map_of_SomeD)
    then obtain z where "z \<in> set (zip ios ts)" "(k, r) = ?f z" by (simp only: set_rev set_map) blast
    with r show ?thesis by (cases z) (auto split: prod.splits)
  qed
  have "\<exists>now. (db_nodes (as_db st) ++ map_of ?l) k =
      Some \<lparr>nr_hostname = k, nr_last_seen = now, nr_status = lit ''offline''\<rparr>" if "k \<in> fst ` set ts" for k
  proof -
    from stored [OF that] obtain now where
      "map_of ?l k = Some \<lparr>nr_hostname = k, nr_last_seen = now, nr_status = lit ''offline''\<rparr>" by blast
    then show ?thesis by (intro exI [of _ now]) (rule map_add_find_right)
  qed
  then show ?thesis
    unfolding publish_broadcast [OF assms(1)] publish_db_nodes [OF assms] by blast
qed

theorem liveness_publish_all_witness:
  "\<exists>now. db_nodes (as_db (liveness_publish demo_json_lib [(ReplyLost, 30021)] [([110], 20, None)] demo_state)) [110] =
     Some \<lparr>nr_hostname = [110], nr_last_seen = now, nr_status = lit ''offline''\<rparr>"
  using liveness_publish_all [of "[(ReplyLost, 30021)]" "[([110], 20, None)]" demo_json_lib demo_state]
  by simp

text \<open>
  C32: the hourly cleanup, when both statements are executed, keeps exactly the snapshots and probe
  results of the last seven days.
\<close>

theorem cleanup_keeps_seven_days:
  assumes "0 \<le> sint now_ms"
  shows "db_snapshots (as_db (cleanup_tick Executed Executed now_ms st)) =
           filter (\<lambda>r. sint now_ms - 604800000 \<le> sint (sr_timestamp r)) (db_snapshots (as_db st)) \<and>
         db_probes (as_db (cleanup_tick Executed Executed now_ms st)) =
           filter (\<lambda>r. sint now_ms - 604800000 \<le> sint (pw_timestamp r)) (db_probes (as_db st)) \<and>
         db_nodes (as_db (cleanup_tick Executed Executed now_ms st)) = db_nodes (as_db st)"
proof -
  have "sint now_ms < 2 ^ 63" using sint_less [of now_ms] by simp
  with assms have "sint (now_ms - 604800000) = sint now_ms - 604800000"
    using sint_diff_small [of now_ms 604800000] by simp
  then show ?thesis
    by (simp add: cleanup_tick_def with_db_eq cleanup_db delete_snapshots_def delete_probes_def
        word_sless_alt not_less)
qed

theorem cleanup_keeps_seven_days_witness:
  "db_snapshots (as_db (cleanup_tick Executed Executed 604800015 demo_state)) =
     [\<lparr>sr_node_id = [110], sr_timestamp = 20, sr_stats_json = DInt 1\<rparr>]"
  using cleanup_keeps_seven_days [of 604800015 demo_state] by (simp add: demo_db_def)

text \<open>
  C18: after the nodes are loaded at startup, by one statement for all nodes, the registry answers every
  node id as the statement for one node would: exactly the known nodes, with the stored hostname, last
  seen time and status. The two statements meet the rows in orders of their own, so that each answers with
  the statistics of some snapshot of the highest timestamp (none only when there is no snapshot); when
  the snapshots of that timestamp do not differ, the two answers are the same.
\<close>

theorem startup_registry_mirrors_database:
  assumes "scan_ok scan1" "scan_ok scan2" "distinct ids" "set ids = dom (db_nodes (as_db st))" "as_nodes st = Map.empty"
    and "reg = as_nodes (load_nodes scan1 ids Executed st)"
  shows "\<exists>ans. fst (get_node scan2 Executed k (as_db st, m)) = Inr ans \<and> (ans = None \<longleftrightarrow> k \<notin> dom (db_nodes (as_db st))) \<and>
    map_option (\<lambda>n. n\<lparr>nf_latest_stats := None\<rparr>) (reg k) = map_option (\<lambda>n. n\<lparr>nf_latest_stats := None\<rparr>) ans \<and>
    (\<forall>n. reg k = Some n \<or> ans = Some n \<longrightarrow> newest_stats (as_db st) k (nf_latest_stats n)) \<and>
    ((\<forall>x y. newest_snapshot (as_db st) k x \<and> newest_snapshot (as_db st) k y \<longrightarrow> sr_stats_json x = sr_stats_json y) \<longrightarrow>
       reg k = ans)"
proof -
  let ?db = "as_db st"
  have reg: "reg = node_answer scan1 ?db" using load_nodes_Executed [OF assms(1,3,4)] assms(5,6) by simp
  show ?thesis
  proof (cases "db_nodes ?db k")
    case None
    then have "node_answer scan ?db k = None" for scan by (intro node_answer_unknown) (simp add: domIff)
    with None show ?thesis by (simp add: reg get_node_answer domIff)
  next
    case (Some r)
    then have "k \<in> dom (db_nodes ?db)" by blast
    with node_answer_newest [OF assms(1), of ?db k] node_answer_newest [OF assms(2), of ?db k] Some obtain v w where
      v: "node_answer scan1 ?db k = Some (node_info_of_row \<lparr>nw_id = k, nw_hostname = nr_hostname r,
         nw_last_seen = nr_last_seen r, nw_status = nr_status r, nw_stats_json = v\<rparr>)" "newest_stats ?db k v"
      "node_answer scan2 ?db k = Some (node_info_of_row \<lparr>nw_id = k, nw_hostname = nr_hostname r,
         nw_last_seen = nr_last_seen r, nw_status = nr_status r, nw_stats_json = w\<rparr>)" "newest_stats ?db k w"
      by auto
    have "v = w" if "\<forall>x y. newest_snapshot ?db k x \<and> newest_snapshot ?db k y \<longrightarrow> sr_stats_json x = sr_stats_json y"
      using newest_stats_unique [OF v(2,4)] that by blast
    with v [unfolded node_info_of_row_stats [of _ _ _ _ v] node_info_of_row_stats [of _ _ _ _ w]] Some show ?thesis
      by (auto simp: reg get_node_answer domIff)
  qed
qed

theorem startup_registry_mirrors_database_witness:
  "fst (get_node rev Executed [110] (demo_db, metrics_new)) =
   Inr (as_nodes (load_nodes id [[110]] Executed (app_state_new demo_db metrics_new [])) [110])"
  using startup_registry_mirrors_database [of id rev "[[110]]" "app_state_new demo_db metrics_new []" _ "[110]" metrics_new, OF _ _ _ _ _ refl]
  by (auto simp: scan_ok_def app_state_new_def demo_db_def newest_snapshot_def)

end
