(* ===== verification/Pulse_Api.thy ===== *)
theory Pulse_Api
  imports Pulse_Liveness
begin

text \<open>
  src/pulse-server/src/api.rs: the token check of the HTTP API (\<open>Claims\<close>), the validation of node
  ids and ranges, and the handlers. A handler is composed with the extractor that runs before it
  (\<open>with_claims\<close>): an unauthorised request does not reach the body. A result \<open>None\<close> is a panic.

  Arguments: \<open>to_str\<close> reads a header value as text (the crate \<open>http\<close>); \<open>unicode\<close> holds the tables
  of the standard library for characters beyond ASCII (\<open>is_alphanumeric\<close>, \<open>to_lowercase\<close>), the
  ASCII part is written out; the environment variable with the secret; the clock; what the
  database does; the order in which the registry is walked.
\<close>

unbundle bit_operations_syntax

subsection \<open>Text\<close>

record unicode =
  un_alphanumeric :: "rchar \<Rightarrow> bool"
  un_lowercase :: "rstr \<Rightarrow> rstr"

definition is_alphanumeric :: "unicode \<Rightarrow> rchar \<Rightarrow> bool" where
  "is_alphanumeric U c =
     (if c < 128 then (48 \<le> c \<and> c \<le> 57) \<or> (65 \<le> c \<and> c \<le> 90) \<or> (97 \<le> c \<and> c \<le> 122)
      else un_alphanumeric U c)"

definition ascii_lowercase :: "rchar \<Rightarrow> rchar" where
  "ascii_lowercase c = (if 65 \<le> c \<and> c \<le> 90 then c + 32 else c)"

definition to_lowercase :: "unicode \<Rightarrow> rstr \<Rightarrow> rstr" where
  "to_lowercase U s = (if list_all (\<lambda>c. c < 128) s then map ascii_lowercase s else un_lowercase U s)"

subsection \<open>Requests\<close>

datatype http_status =
    BadRequest | Unauthorized | NotFound | InternalServerError | ServiceUnavailable

primrec status_str :: "http_status \<Rightarrow> rstr" where
  "status_str BadRequest = lit ''400''"
| "status_str Unauthorized = lit ''401''"
| "status_str NotFound = lit ''404''"
| "status_str InternalServerError = lit ''500''"
| "status_str ServiceUnavailable = lit ''503''"

record 'v http_request =
  hr_headers :: "rstr \<rightharpoonup> 'v"
  hr_query :: "rstr option"

definition validate_token :: "rstr \<Rightarrow> rstr \<Rightarrow> bool" where
  "validate_token token expected =
     (if str_len token \<noteq> str_len expected then False
      else fold (\<lambda>(a, b) equal. equal OR (a XOR b)) (zip (utf8 token) (utf8 expected)) (0 :: u8) = 0)"

text \<open>The first pair of the query string that begins with \<open>token=\<close>.\<close>

fun find_token :: "rstr list \<Rightarrow> rstr option" where
  "find_token [] = None"
| "find_token (pair # pairs) =
     (case strip_prefix (lit ''token='') pair of Some val \<Rightarrow> Some val | None \<Rightarrow> find_token pairs)"

definition opt_filter :: "('a \<Rightarrow> bool) \<Rightarrow> 'a option \<Rightarrow> 'a option" where
  "opt_filter P x = (case x of Some a \<Rightarrow> if P a then Some a else None | None \<Rightarrow> None)"

definition claims_from_request_parts ::
  "('v \<Rightarrow> rstr option) \<Rightarrow> rstr option \<Rightarrow> 'v http_request \<Rightarrow> metrics \<Rightarrow> (http_status + unit) \<times> metrics" where
  "claims_from_request_parts to_str secret_var req m =
     (case secret_var of
        None \<Rightarrow> (Inl InternalServerError, m)
      | Some secret \<Rightarrow>
          (let bearer = opt_filter (\<lambda>tok. validate_token (trim tok) secret)
                 (Option.bind (Option.bind (hr_headers req (lit ''authorization'')) to_str)
                   (strip_prefix (lit ''Bearer '')));
               header = opt_filter (\<lambda>tok. validate_token (trim tok) secret)
                 (Option.bind (hr_headers req (lit ''x-pulse-auth-token'')) to_str);
               token = opt_filter (\<lambda>tok. validate_token (trim tok) secret)
                 (find_token (split_char 38 (unwrap_or (hr_query req) [])))
           in if bearer \<noteq> None then (Inr (), m)
              else if header \<noteq> None then (Inr (), m)
              else if token \<noteq> None then (Inr (), m)
              else (Inl Unauthorized, inc_auth_failure (lit ''http'') (lit ''unauthorized'') m)))"

definition with_claims ::
  "('v \<Rightarrow> rstr option) \<Rightarrow> rstr option \<Rightarrow> 'v http_request \<Rightarrow>
   ('j app_state \<Rightarrow> ((http_status + 'r) \<times> 'j app_state) option) \<Rightarrow> 'j app_state \<Rightarrow>
   ((http_status + 'r) \<times> 'j app_state) option" where
  "with_claims to_str secret_var req handler st =
     (case claims_from_request_parts to_str secret_var req (as_metrics st) of
        (Inl code, m) \<Rightarrow> Some (Inl code, st\<lparr>as_metrics := m\<rparr>)
      | (Inr _, m) \<Rightarrow> handler (st\<lparr>as_metrics := m\<rparr>))"

definition is_valid_node_id :: "unicode \<Rightarrow> rstr \<Rightarrow> bool" where
  "is_valid_node_id U node_id \<longleftrightarrow>
     node_id \<noteq> [] \<and> str_len node_id \<le> 64 \<and>
     list_all (\<lambda>c. is_alphanumeric U c \<or> c = 45 \<or> c = 95) node_id"

subsection \<open>Handlers\<close>

text \<open>The end of each handler: the request is counted under its result.\<close>

definition finish_request ::
  "rstr \<Rightarrow> (http_status + 'r) \<times> 'j app_state \<Rightarrow> (http_status + 'r) \<times> 'j app_state" where
  "finish_request path r =
     (let (res, st) = r;
          status = (case res of Inr _ \<Rightarrow> lit ''200'' | Inl code \<Rightarrow> status_str code)
      in (res, st\<lparr>as_metrics := count_http path (lit ''GET'') status (as_metrics st)\<rparr>))"

definition node_json :: "'j json_lib \<Rightarrow> 'j node_info \<Rightarrow> 'j" where
  "node_json J n = jl_object J
     [(lit ''node_id'', jl_string J (nf_node_id n)),
      (lit ''hostname'', jl_string J (nf_hostname n)),
      (lit ''last_seen_ms'', jl_i64 J (nf_last_seen_ms n)),
      (lit ''status'', jl_string J (display_node_status (nf_status n))),
      (lit ''latest_stats'', unwrap_or (nf_latest_stats n) (jl_null J))]"

definition list_nodes ::
  "'j json_lib \<Rightarrow> rstr list \<Rightarrow> 'j app_state \<Rightarrow> (http_status + 'j) \<times> 'j app_state" where
  "list_nodes J order st =
     (let nodes = map (node_json J) (List.map_filter (as_nodes st) order)
      in finish_request (lit ''/api/v1/nodes'')
           (Inr (jl_object J [(lit ''nodes'', jl_array J nodes),
                              (lit ''count'', jl_u64 J (word_of_nat (length nodes)))]), st))"

text \<open>
  \<open>get_node\<close> up to its only await, the call of the repository (\<open>None\<close> when it gets there), and from
  the answer of the repository on. In between the other tasks go on.
\<close>

definition get_node_lookup ::
  "'j json_lib \<Rightarrow> unicode \<Rightarrow> rstr \<Rightarrow> 'j app_state \<Rightarrow> (http_status + 'j) option" where
  "get_node_lookup J U node_id st =
     (if \<not> is_valid_node_id U node_id then Some (Inl BadRequest)
      else map_option (\<lambda>n. Inr (node_json J n)) (as_nodes st node_id))"

definition get_node_reply ::
  "'j json_lib \<Rightarrow> db_error + 'j node_info option \<Rightarrow> 'j app_state \<Rightarrow> (http_status + 'j) \<times> 'j app_state" where
  "get_node_reply J res st =
     (let st = st\<lparr>as_metrics := count_query (lit ''get_node'') res (as_metrics st)\<rparr> in
      finish_request (lit ''/api/v1/nodes/:id'')
        (case res of
           Inr (Some n) \<Rightarrow> (Inr (node_json J n), st\<lparr>as_nodes := (as_nodes st)(nf_node_id n \<mapsto> n)\<rparr>)
         | Inr None \<Rightarrow> (Inl NotFound, st)
         | Inl e \<Rightarrow> (Inl InternalServerError, st)))"

text \<open>The whole handler, with nothing in between.\<close>

definition get_node_handler ::
  "'j json_lib \<Rightarrow> unicode \<Rightarrow> ('j snapshot_row list \<Rightarrow> 'j snapshot_row list) \<Rightarrow> db_outcome \<Rightarrow> rstr \<Rightarrow>
   'j app_state \<Rightarrow> (http_status + 'j) \<times> 'j app_state" where
  "get_node_handler J U scan outcome node_id st =
     (case get_node_lookup J U node_id st of
        Some r \<Rightarrow> finish_request (lit ''/api/v1/nodes/:id'') (r, st)
      | None \<Rightarrow> get_node_reply J (fst (run_stmt outcome (select_node scan node_id) (as_db st))) st)"

record history_query =
  hq_range :: rstr
  hq_limit :: i64

definition default_range :: rstr where
  "default_range = lit ''1h''"

definition default_limit :: i64 where
  "default_limit = 360"

definition history_query_of :: "rstr option \<Rightarrow> i64 option \<Rightarrow> history_query" where
  "history_query_of range_str limit =
     \<lparr>hq_range = unwrap_or range_str default_range, hq_limit = unwrap_or limit default_limit\<rparr>"

definition clamp_i64 :: "i64 \<Rightarrow> i64 \<Rightarrow> i64 \<Rightarrow> i64" where
  "clamp_i64 lo hi x = (if x <s lo then lo else if hi <s x then hi else x)"

text \<open>\<open>None\<close> is the panic of \<open>split_at\<close> inside a character.\<close>

definition parse_range_to_ms :: "unicode \<Rightarrow> rstr \<Rightarrow> i64 option" where
  "parse_range_to_ms U range_str =
     (let rng = to_lowercase U (trim range_str) in
      case split_at rng (str_len rng - 1) of
        None \<Rightarrow> None
      | Some (num_str, unit) \<Rightarrow>
          (let num = unwrap_or (parse_i64 num_str) 1 in
           Some (if unit = lit ''m'' then num * 60 * 1000
                 else if unit = lit ''h'' then num * 3600 * 1000
                 else if unit = lit ''d'' then num * 86400 * 1000
                 else 3600 * 1000)))"

definition snapshot_json :: "'j json_lib \<Rightarrow> 'j snapshot_record \<Rightarrow> 'j" where
  "snapshot_json J r = jl_object J
     [(lit ''node_id'', jl_string J (sd_node_id r)),
      (lit ''timestamp'', jl_i64 J (sd_timestamp r)),
      (lit ''stats_json'', sd_stats_json r)]"

definition valid_range :: "unicode \<Rightarrow> rstr \<Rightarrow> bool" where
  "valid_range U range_str \<longleftrightarrow> list_all (is_alphanumeric U) range_str \<and> \<not> 8 < str_len range_str"

definition history_json ::
  "'j json_lib \<Rightarrow> rstr \<Rightarrow> rstr \<Rightarrow> i64 \<Rightarrow> i64 \<Rightarrow> 'j snapshot_record list \<Rightarrow> 'j" where
  "history_json J node_id range_str from_ms now_ms snapshots = jl_object J
     [(lit ''node_id'', jl_string J node_id),
      (lit ''range'', jl_string J range_str),
      (lit ''from_ms'', jl_i64 J from_ms),
      (lit ''to_ms'', jl_i64 J now_ms),
      (lit ''count'', jl_u64 J (word_of_nat (length snapshots))),
      (lit ''snapshots'', jl_array J (map (snapshot_json J) snapshots))]"

text \<open>
  \<open>get_node_history\<close> up to its await (\<open>None\<close> is the panic of the range; otherwise an answer, or the bounds
  and the limit of the query), and from the answer of the repository on.
\<close>

definition history_lookup :: "unicode \<Rightarrow> i64 \<Rightarrow> rstr \<Rightarrow> history_query \<Rightarrow> (http_status + i64 \<times> i64) option" where
  "history_lookup U now_ms node_id params =
     (if \<not> is_valid_node_id U node_id then Some (Inl BadRequest)
      else if \<not> valid_range U (hq_range params) then Some (Inl BadRequest)
      else (case parse_range_to_ms U (hq_range params) of
              None \<Rightarrow> None
            | Some range_ms \<Rightarrow>
                (let limit = clamp_i64 1 1000 (hq_limit params);
                     from_ms = now_ms - range_ms
                 in Some (Inr (from_ms, limit)))))"

definition history_reply ::
  "'j json_lib \<Rightarrow> rstr \<Rightarrow> history_query \<Rightarrow> i64 \<Rightarrow> i64 \<Rightarrow> db_error + 'j snapshot_record list \<Rightarrow> 'j app_state \<Rightarrow>
   (http_status + 'j) \<times> 'j app_state" where
  "history_reply J node_id params from_ms now_ms res st =
     (let st = st\<lparr>as_metrics := count_query (lit ''get_snapshots'') res (as_metrics st)\<rparr> in
      finish_request (lit ''/api/v1/nodes/:id/history'')
        (case res of
           Inl e \<Rightarrow> (Inl InternalServerError, st)
         | Inr snapshots \<Rightarrow> (Inr (history_json J node_id (hq_range params) from_ms now_ms snapshots), st)))"

definition get_node_history ::
  "'j json_lib \<Rightarrow> unicode \<Rightarrow> ('j snapshot_row list \<Rightarrow> 'j snapshot_row list) \<Rightarrow> db_outcome \<Rightarrow> i64 \<Rightarrow>
   rstr \<Rightarrow> history_query \<Rightarrow> 'j app_state \<Rightarrow> ((http_status + 'j) \<times> 'j app_state) option" where
  "get_node_history J U scan outcome now_ms node_id params st =
     (case history_lookup U now_ms node_id params of
        None \<Rightarrow> None
      | Some (Inl code) \<Rightarrow> Some (finish_request (lit ''/api/v1/nodes/:id/history'') (Inl code, st))
      | Some (Inr (from_ms, limit)) \<Rightarrow>
          Some (history_reply J node_id params from_ms now_ms
            (fst (run_stmt outcome (select_snapshots scan node_id from_ms now_ms limit) (as_db st))) st))"

definition health_check :: "'j json_lib \<Rightarrow> rstr \<Rightarrow> 'j" where
  "health_check J version = jl_object J
     [(lit ''status'', jl_string J (lit ''ok'')),
      (lit ''service'', jl_string J (lit ''pulse-server'')),
      (lit ''version'', jl_string J version)]"

definition liveness_check :: "'j json_lib \<Rightarrow> rstr \<Rightarrow> 'j" where
  "liveness_check J version = jl_object J
     [(lit ''status'', jl_string J (lit ''ok'')),
      (lit ''service'', jl_string J (lit ''pulse-server'')),
      (lit ''version'', jl_string J version)]"

definition readiness_check :: "'j json_lib \<Rightarrow> db_outcome \<Rightarrow> http_status + 'j" where
  "readiness_check J outcome =
     (if outcome = Executed
      then Inr (jl_object J [(lit ''status'', jl_string J (lit ''ready'')),
                             (lit ''database'', jl_string J (lit ''connected''))])
      else Inl ServiceUnavailable)"

text \<open>\<open>encode\<close> is the text encoder of the crate \<open>prometheus\<close>; the result is the status, the
  content type and the body.\<close>

definition metrics_handler ::
  "(metrics \<Rightarrow> u8 list option) \<Rightarrow> metrics \<Rightarrow> rstr \<times> rstr \<times> u8 list" where
  "metrics_handler encode m =
     (case encode m of
        None \<Rightarrow> (lit ''500'', lit ''text/plain; charset=utf-8'', [])
      | Some buffer \<Rightarrow> (lit ''200'', lit ''text/plain; version=0.0.4; charset=utf-8'', buffer))"

subsection \<open>Specification\<close>

definition scalars :: "rstr \<Rightarrow> bool" where
  "scalars s \<longleftrightarrow> (\<forall>c \<in> set s. is_scalar c)"

text \<open>The tokens a request presents, as the three places give them.\<close>

definition presented_tokens :: "('v \<Rightarrow> rstr option) \<Rightarrow> 'v http_request \<Rightarrow> rstr set" where
  "presented_tokens to_str req =
     set_option (Option.bind (Option.bind (hr_headers req (lit ''authorization'')) to_str) (strip_prefix (lit ''Bearer ''))) \<union>
     set_option (Option.bind (hr_headers req (lit ''x-pulse-auth-token'')) to_str) \<union>
     set_option (find_token (split_char 38 (unwrap_or (hr_query req) [])))"

text \<open>The strings of a request are strings of the language: sequences of scalar values.\<close>

definition request_scalars :: "('v \<Rightarrow> rstr option) \<Rightarrow> 'v http_request \<Rightarrow> bool" where
  "request_scalars to_str req \<longleftrightarrow> (\<forall>t \<in> presented_tokens to_str req. scalars t)"

text \<open>The milliseconds of a unit, and the range a validated text denotes.\<close>

definition unit_ms :: "rchar \<Rightarrow> nat option" where
  "unit_ms u = (if u = 109 then Some 60000 else if u = 104 then Some 3600000
                else if u = 100 then Some 86400000 else None)"

definition range_ms :: "rstr \<Rightarrow> nat" where
  "range_ms s =
     (if s = [] then 3600000
      else (case unit_ms (ascii_lowercase (last s)) of
              None \<Rightarrow> 3600000
            | Some k \<Rightarrow> unwrap_or (parse_nat (map ascii_lowercase (butlast s))) 1 * k))"

subsection \<open>Lemmas: tokens\<close>

lemma xor_zero_iff: "(x :: u8) XOR y = 0 \<longleftrightarrow> x = y"
  by (metis xor_self_eq xor.assoc xor.right_neutral xor.left_neutral)

lemma fold_xor_zero_iff:
  "fold (\<lambda>(a, b) equal. equal OR (a XOR b)) ps (acc :: u8) = 0 \<longleftrightarrow> acc = 0 \<and> (\<forall>(a, b) \<in> set ps. a = b)"
  by (induction ps arbitrary: acc) (auto simp: or_eq_0_iff xor_zero_iff)

lemma zip_all_eq: "length xs = length ys \<Longrightarrow> (\<forall>(a, b) \<in> set (zip xs ys). a = b) \<longleftrightarrow> xs = ys"
  by (induction xs ys rule: list_induct2) auto

lemma validate_token_bytes: "validate_token t e \<longleftrightarrow> utf8 t = utf8 e"
proof (cases "str_len t = str_len e")
  case True
  then have "length (utf8 t) = length (utf8 e)" by simp
  with True show ?thesis by (simp add: validate_token_def fold_xor_zero_iff zip_all_eq)
next
  case False
  then have "utf8 t \<noteq> utf8 e" by (metis length_utf8)
  with False show ?thesis by (simp add: validate_token_def)
qed

lemma validate_token_eq: "scalars t \<Longrightarrow> scalars e \<Longrightarrow> validate_token t e \<longleftrightarrow> t = e"
  using utf8_inj [of t e] by (auto simp: validate_token_bytes scalars_def)

lemma set_dropWhile_subset: "set (dropWhile P xs) \<subseteq> set xs"
  by (auto dest: set_dropWhileD)

lemma set_trim: "set (trim s) \<subseteq> set s"
  using set_dropWhile_subset [of is_ws s] set_dropWhile_subset [of is_ws "rev (dropWhile is_ws s)"]
    set_dropWhile_subset [of is_ws "rev s"] set_dropWhile_subset [of is_ws "rev (dropWhile is_ws (rev s))"]
  by (auto simp: trim_def trim_start_def trim_end_def)

lemma scalars_trim: "scalars s \<Longrightarrow> scalars (trim s)"
  using set_trim by (auto simp: scalars_def)

lemma opt_filter_None_iff: "opt_filter P x = None \<longleftrightarrow> (\<forall>a \<in> set_option x. \<not> P a)"
  by (cases x) (auto simp: opt_filter_def)

lemma claims_cases:
  assumes "scalars secret" "request_scalars to_str req"
  shows "claims_from_request_parts to_str (Some secret) req m =
    (if \<exists>t \<in> presented_tokens to_str req. trim t = secret then (Inr (), m)
     else (Inl Unauthorized, inc_auth_failure (lit ''http'') (lit ''unauthorized'') m))"
proof -
  define A where "A = Option.bind (Option.bind (hr_headers req (lit ''authorization'')) to_str) (strip_prefix (lit ''Bearer ''))"
  define B where "B = Option.bind (hr_headers req (lit ''x-pulse-auth-token'')) to_str"
  define C where "C = find_token (split_char 38 (unwrap_or (hr_query req) []))"
  have tokens: "presented_tokens to_str req = set_option A \<union> set_option B \<union> set_option C"
    by (simp only: presented_tokens_def A_def B_def C_def)
  have ok: "opt_filter (\<lambda>tok. validate_token (trim tok) secret) x = None \<longleftrightarrow> (\<forall>t \<in> set_option x. trim t \<noteq> secret)"
    if "set_option x \<subseteq> presented_tokens to_str req" for x
    using assms that unfolding opt_filter_None_iff request_scalars_def
    by (metis subsetD scalars_trim validate_token_eq)
  have "opt_filter (\<lambda>tok. validate_token (trim tok) secret) A = None \<longleftrightarrow> (\<forall>t \<in> set_option A. trim t \<noteq> secret)"
    "opt_filter (\<lambda>tok. validate_token (trim tok) secret) B = None \<longleftrightarrow> (\<forall>t \<in> set_option B. trim t \<noteq> secret)"
    "opt_filter (\<lambda>tok. validate_token (trim tok) secret) C = None \<longleftrightarrow> (\<forall>t \<in> set_option C. trim t \<noteq> secret)"
    by (rule ok, simp add: tokens, blast?)+
  then show ?thesis
    unfolding claims_from_request_parts_def tokens A_def [symmetric] B_def [symmetric] C_def [symmetric]
    by (simp only: option.case Let_def) (auto simp only: split: if_split)
qed

subsection \<open>Lemmas: ranges\<close>

lemma ascii_str_len: "list_all (\<lambda>c. c < 128) s \<Longrightarrow> str_len s = length s"
  by (induction s) (auto simp: utf8_len_def)

lemma alnum_not_ws: "is_alphanumeric U c \<Longrightarrow> c < 128 \<Longrightarrow> \<not> is_ws c"
  by (auto simp: is_alphanumeric_def is_ws_def)

lemma alnum_lower_no_sign: "is_alphanumeric U c \<Longrightarrow> c < 128 \<Longrightarrow> ascii_lowercase c \<noteq> 43 \<and> ascii_lowercase c \<noteq> 45"
  by (auto simp: is_alphanumeric_def ascii_lowercase_def)

lemma trim_no_ws:
  assumes "\<forall>c \<in> set s. \<not> is_ws c"
  shows "trim s = s"
proof -
  have "dropWhile is_ws xs = xs" if "\<forall>c \<in> set xs. \<not> is_ws c" for xs
    using that by (cases xs) simp_all
  from this [of s] this [of "rev s"] assms show ?thesis by (simp add: trim_def trim_start_def trim_end_def)
qed

lemma ascii_lower_ascii: "c < 128 \<Longrightarrow> ascii_lowercase c < 128"
  by (simp add: ascii_lowercase_def)

lemma lower_ascii_list: "list_all (\<lambda>c. c < 128) s \<Longrightarrow> list_all (\<lambda>c. c < 128) (map ascii_lowercase s)"
  by (auto simp: list_all_iff ascii_lower_ascii)

lemma split_last_ascii:
  assumes "list_all (\<lambda>c. c < 128) s" "s \<noteq> []"
  shows "split_at s (str_len s - 1) = Some (butlast s, [last s])"
proof -
  have "list_all (\<lambda>c. c < 128) (butlast s)"
    using assms(1) by (auto simp: list_all_iff dest: in_set_butlastD)
  then have "str_len (butlast s) = str_len s - 1"
    using assms by (simp add: ascii_str_len)
  with split_at_append [of "butlast s" "[last s]"] assms(2) show ?thesis by simp
qed

lemma digits_val_alnum: "digits_val acc s = Some n \<Longrightarrow> c \<in> set s \<Longrightarrow> 48 \<le> c \<and> c \<le> 57"
  by (induction s arbitrary: acc) (auto simp: digit_def split: if_splits option.splits)

lemma parse_i64_unsigned:
  assumes "\<forall>c \<in> set s. c \<noteq> 43 \<and> c \<noteq> 45" "length s \<le> 18"
  shows "parse_i64 s = map_option word_of_nat (parse_nat s)"
proof -
  have "strip_plus s = s" "s = [] \<or> hd s \<noteq> 45"
    using assms(1) by (cases s; simp add: strip_plus_def)+
  moreover have "n < 2 ^ 63" if "parse_nat s = Some n" for n
  proof -
    have "n < 10 ^ length s" using that by (rule parse_nat_bound)
    also have "\<dots> \<le> 10 ^ 18" using assms(2) by (intro power_increasing) simp_all
    finally show ?thesis by simp
  qed
  ultimately show ?thesis
    by (auto simp: parse_i64_def parse_signed_def split: option.split)
qed

lemma range_ms_bound:
  assumes "length s \<le> 8"
  shows "range_ms s \<le> 9999999 * 86400000"
proof (cases "parse_nat (map ascii_lowercase (butlast s))")
  case None
  then show ?thesis by (auto simp: range_ms_def unit_ms_def split: option.split if_splits)
next
  case (Some n)
  have "n < 10 ^ length (butlast s)" using parse_nat_bound [OF Some] by simp
  also have "\<dots> \<le> 10 ^ 7" using assms by (intro power_increasing) simp_all
  finally have "n * 86400000 \<le> 9999999 * 86400000" by simp
  with Some show ?thesis
    by (auto simp: range_ms_def unit_ms_def split: option.split if_splits)
qed

lemma parse_range_ascii:
  assumes "valid_range U s" "list_all (\<lambda>c. c < 128) s"
  shows "parse_range_to_ms U s = Some (word_of_nat (range_ms s))"
proof -
  let ?t = "map ascii_lowercase s"
  have alnum: "\<forall>c \<in> set s. is_alphanumeric U c" and len: "length s \<le> 8"
    using assms by (auto simp: valid_range_def list_all_iff ascii_str_len [OF assms(2)])
  have "trim s = s"
    using alnum assms(2) by (intro trim_no_ws) (auto simp: list_all_iff dest: alnum_not_ws)
  then have lower: "to_lowercase U (trim s) = ?t" using assms(2) by (simp add: to_lowercase_def)
  show ?thesis
  proof (cases "s = []")
    case True
    then show ?thesis using lower by (simp add: parse_range_to_ms_def range_ms_def lit_def)
  next
    case False
    have sp: "split_at ?t (str_len ?t - 1) = Some (butlast ?t, [last ?t])"
      using lower_ascii_list [OF assms(2)] False by (intro split_last_ascii) simp_all
    have no_sign: "\<forall>c \<in> set s. ascii_lowercase c \<noteq> 43 \<and> ascii_lowercase c \<noteq> 45"
      using alnum assms(2) by (simp add: alnum_lower_no_sign [of U] list_all_iff)
    have "\<forall>c \<in> set (butlast ?t). c \<noteq> 43 \<and> c \<noteq> 45"
      using no_sign by (auto dest!: in_set_butlastD)
    then have num: "parse_i64 (butlast ?t) = map_option word_of_nat (parse_nat (butlast ?t))"
      using len by (intro parse_i64_unsigned) simp_all
    have "unwrap_or (map_option word_of_nat x) 1 = (word_of_nat (unwrap_or x 1) :: i64)" for x
      by (cases x) simp_all
    then show ?thesis
      using False lower sp num
      by (simp add: parse_range_to_ms_def range_ms_def unit_ms_def lit_def last_map map_butlast Let_def mult.assoc)
  qed
qed

lemma range_start:
  fixes now :: i64
  assumes "length s \<le> 8" "0 \<le> sint now"
  shows "sint (word_of_nat (range_ms s) :: i64) = int (range_ms s)"
    and "sint (now - word_of_nat (range_ms s)) = sint now - int (range_ms s)"
proof -
  have b: "range_ms s \<le> 9999999 * 86400000" using assms(1) by (rule range_ms_bound)
  then have "signed_take_bit 63 (int (range_ms s)) = int (range_ms s)"
    by (intro signed_take_bit_int_eq_self) simp_all
  then show ms: "sint (word_of_nat (range_ms s) :: i64) = int (range_ms s)"
    by (simp add: signed_of_nat)
  then have "\<bar>sint now - sint (word_of_nat (range_ms s) :: i64)\<bar> < 2 ^ 63"
    using b assms(2) sint_less [of now] by simp
  from sint_diff_small [OF this] ms
  show "sint (now - word_of_nat (range_ms s)) = sint now - int (range_ms s)" by simp
qed

lemma valid_range_length: "valid_range U s \<Longrightarrow> list_all (\<lambda>c. c < 128) s \<Longrightarrow> length s \<le> 8"
  by (simp add: valid_range_def ascii_str_len)

lemma split_inside_char:
  assumes "128 \<le> c"
  shows "split_at (s @ [c]) (str_len (s @ [c]) - 1) = None"
proof -
  have two: "2 \<le> utf8_len c" using assms by (simp add: utf8_len_def)
  have "str_len a \<noteq> str_len (s @ [c]) - 1" if "s @ [c] = a @ b" for a b
  proof (cases "b = []")
    case True
    with that two show ?thesis by auto
  next
    case False
    with that have "s = a @ butlast b" by (metis butlast_append butlast_snoc)
    then have "str_len a \<le> str_len s" by simp
    with two show ?thesis by simp
  qed
  then show ?thesis unfolding split_at_None_iff by blast
qed

subsection \<open>Lemmas: handlers\<close>

lemma finish_request_simps [simp]:
  "fst (finish_request path r) = fst r"
  "as_nodes (snd (finish_request path r)) = as_nodes (snd r)"
  "as_db (snd (finish_request path r)) = as_db (snd r)"
  "as_broadcast (snd (finish_request path r)) = as_broadcast (snd r)"
  "as_worker_txs (snd (finish_request path r)) = as_worker_txs (snd r)"
  by (simp_all add: finish_request_def split: prod.split)

lemma with_db_reading:
  "as_db (snd (with_db (get_node scan oc k) st)) = as_db st"
  "as_nodes (snd (with_db f st)) = as_nodes st" "as_broadcast (snd (with_db f st)) = as_broadcast st"
  "as_worker_txs (snd (with_db f st)) = as_worker_txs st"
  by (simp_all add: with_db_eq)

lemma clamp_bounds: "1 \<le> sint (clamp_i64 1 1000 x) \<and> sint (clamp_i64 1 1000 x) \<le> 1000"
  by (auto simp: clamp_i64_def word_sless_alt not_less)

lemma select_run [simp]:
  "snd (run_stmt oc (select_node scan k) db) = db" "snd (run_stmt oc (select_snapshots scan k x y z) db) = db"
  by (cases oc; simp add: run_stmt_def select_node_def select_snapshots_def)+

lemma with_db_select:
  "with_db (get_node scan oc k) st =
     (let res = fst (run_stmt oc (select_node scan k) (as_db st))
      in (res, st\<lparr>as_metrics := count_query (lit ''get_node'') res (as_metrics st)\<rparr>))"
  "with_db (get_snapshots scan oc k x y z) st =
     (let res = fst (run_stmt oc (select_snapshots scan k x y z) (as_db st))
      in (res, st\<lparr>as_metrics := count_query (lit ''get_snapshots'') res (as_metrics st)\<rparr>))"
  using select_run(1) [of oc scan k "as_db st"] select_run(2) [of oc scan k x y z "as_db st"]
  by (simp_all add: with_db_def get_node_def get_snapshots_def query_def Let_def split_def)

lemma get_node_history_eq:
  "get_node_history J U scan outcome now_ms node_id params st =
     map_option (finish_request (lit ''/api/v1/nodes/:id/history''))
       (if \<not> is_valid_node_id U node_id then Some (Inl BadRequest, st)
        else if \<not> valid_range U (hq_range params) then Some (Inl BadRequest, st)
        else (case parse_range_to_ms U (hq_range params) of
                None \<Rightarrow> None
              | Some ms \<Rightarrow>
                  (let limit = clamp_i64 1 1000 (hq_limit params);
                       from_ms = now_ms - ms
                   in case with_db (get_snapshots scan outcome node_id from_ms now_ms limit) st of
                        (Inl e, st) \<Rightarrow> Some (Inl InternalServerError, st)
                      | (Inr snapshots, st) \<Rightarrow>
                          Some (Inr (history_json J node_id (hq_range params) from_ms now_ms snapshots), st))))"
  by (simp add: get_node_history_def history_lookup_def history_reply_def with_db_select Let_def split: option.split sum.split)

lemma get_node_handler_eq:
  "get_node_handler J U scan outcome node_id st =
     finish_request (lit ''/api/v1/nodes/:id'')
       (if \<not> is_valid_node_id U node_id then (Inl BadRequest, st)
        else (case as_nodes st node_id of
                Some n \<Rightarrow> (Inr (node_json J n), st)
              | None \<Rightarrow>
                  (case with_db (get_node scan outcome node_id) st of
                     (Inr (Some n), st) \<Rightarrow>
                       (Inr (node_json J n), st\<lparr>as_nodes := (as_nodes st)(nf_node_id n \<mapsto> n)\<rparr>)
                   | (Inr None, st) \<Rightarrow> (Inl NotFound, st)
                   | (Inl e, st) \<Rightarrow> (Inl InternalServerError, st))))"
  by (simp add: get_node_handler_def get_node_lookup_def get_node_reply_def with_db_select Let_def split: option.split sum.split)

text \<open>A lookup in the database that finds the node, on a registry that does not have it.\<close>

lemma get_node_handler_miss:
  assumes "is_valid_node_id U k" "as_nodes st k = None"
  shows "fst (get_node_handler J U scan Executed k st) =
      (case node_answer scan (as_db st) k of None \<Rightarrow> Inl NotFound | Some n \<Rightarrow> Inr (node_json J n)) \<and>
    as_nodes (snd (get_node_handler J U scan Executed k st)) =
      (case node_answer scan (as_db st) k of None \<Rightarrow> as_nodes st | Some n \<Rightarrow> (as_nodes st)(nf_node_id n \<mapsto> n))"
proof -
  obtain st1 where w: "with_db (get_node scan Executed k) st = (Inr (node_answer scan (as_db st) k), st1)"
    and "as_nodes st1 = as_nodes st"
    by (simp add: with_db_eq get_node_answer)
  then show ?thesis
    using assms by (cases "node_answer scan (as_db st) k") (simp_all add: get_node_handler_eq)
qed

lemma joined_rows_id: "row \<in> set (joined_rows scan db k) \<Longrightarrow> nw_id row = k"
  by (auto simp: joined_rows_def Let_def split: option.splits if_splits)

lemma node_answer_id: "node_answer scan db k = Some n \<Longrightarrow> nf_node_id n = k"
  using joined_rows_id [of _ scan db k]
  by (cases "joined_rows scan db k") (auto simp: node_answer_def node_info_of_row_def Let_def)

subsection \<open>Properties\<close>

text \<open>
  The byte-wise comparison accepts a token exactly when it is the expected text.
\<close>

theorem validate_token_is_equality:
  assumes "scalars token" "scalars expected"
  shows "validate_token token expected \<longleftrightarrow> token = expected"
  using assms by (rule validate_token_eq)

theorem validate_token_is_equality_witness:
  "validate_token (lit ''s3cret'') (lit ''s3cret'') \<and> \<not> validate_token (lit ''s3cres'') (lit ''s3cret'')"
  using validate_token_is_equality [of "lit ''s3cret''" "lit ''s3cret''"]
    validate_token_is_equality [of "lit ''s3cres''" "lit ''s3cret''"]
  by (simp add: lit_def scalars_def is_scalar_def)

text \<open>
  A protected handler runs exactly for the requests that present the secret, in the
  authorization header, the token header or the first token of the query (spaces around it
  aside). Any other request is answered 401 without the handler being run: the state changes in
  the failure counter only. Without a configured secret every request is answered 500.
\<close>

theorem protected_handler_needs_secret:
  assumes "scalars secret" "request_scalars to_str req"
  shows "with_claims to_str (Some secret) req handler st =
           (if \<exists>t \<in> presented_tokens to_str req. trim t = secret then handler st
            else Some (Inl Unauthorized,
              st\<lparr>as_metrics := inc_auth_failure (lit ''http'') (lit ''unauthorized'') (as_metrics st)\<rparr>)) \<and>
         with_claims to_str None req handler st = Some (Inl InternalServerError, st)"
  using claims_cases [OF assms, of "as_metrics st"]
  by (simp add: with_claims_def claims_from_request_parts_def)

theorem protected_handler_needs_secret_witness:
  "with_claims Some (Some (lit ''s3cret'')) \<lparr>hr_headers = [lit ''authorization'' \<mapsto> lit ''Bearer s3cret''], hr_query = None\<rparr>
     (\<lambda>st. Some (Inr (), st)) (app_state_new demo_db metrics_new []) = Some (Inr (), app_state_new demo_db metrics_new []) \<and>
   fst (the (with_claims Some (Some (lit ''s3cret'')) \<lparr>hr_headers = Map.empty, hr_query = Some (lit ''token=x'')\<rparr>
     (\<lambda>st. Some (Inr (), st)) (app_state_new demo_db metrics_new []))) = Inl Unauthorized"
proof -
  have a: "presented_tokens Some \<lparr>hr_headers = [lit ''authorization'' \<mapsto> lit ''Bearer s3cret''], hr_query = None\<rparr> = {lit ''s3cret''}"
    and b: "presented_tokens Some \<lparr>hr_headers = Map.empty, hr_query = Some (lit ''token=x'')\<rparr> = {lit ''x''}"
    by (simp_all add: presented_tokens_def lit_def strip_prefix_def starts_with_def)
  have sc: "scalars (lit ''s3cret'')" "scalars (lit ''x'')" by (simp_all add: lit_def scalars_def is_scalar_def)
  have "trim (lit ''s3cret'') = lit ''s3cret''" "trim (lit ''x'') \<noteq> lit ''s3cret''"
    by (simp_all add: trim_def trim_start_def trim_end_def lit_def is_ws_def)
  with protected_handler_needs_secret [OF sc(1), of Some "\<lparr>hr_headers = [lit ''authorization'' \<mapsto> lit ''Bearer s3cret''], hr_query = None\<rparr>"
      "\<lambda>st. Some (Inr (), st)" "app_state_new demo_db metrics_new []"]
    protected_handler_needs_secret [OF sc(1), of Some "\<lparr>hr_headers = Map.empty, hr_query = Some (lit ''token=x'')\<rparr>"
      "\<lambda>st. Some (Inr (), st)" "app_state_new demo_db metrics_new []"] sc
  show ?thesis by (simp add: request_scalars_def a b)
qed

text \<open>
  C21: for a range of ASCII characters that passes the validation the parser does not panic and
  nothing overflows: the result is the number (1 when there is none) times the unit, or one hour
  for an unknown unit, at most 9999999 days; with a clock that is not before the epoch the start
  of the range is the clock less that time.
\<close>

theorem validated_range_does_not_overflow:
  assumes "valid_range U s" "list_all (\<lambda>c. c < 128) s" "0 \<le> sint now"
  shows "\<exists>ms. parse_range_to_ms U s = Some ms \<and> sint ms = int (range_ms s) \<and>
           range_ms s \<le> 9999999 * 86400000 \<and> sint (now - ms) = sint now - int (range_ms s)"
proof -
  have "length s \<le> 8" using assms(1,2) by (rule valid_range_length)
  with range_start [OF this assms(3)] range_ms_bound [of s] parse_range_ascii [OF assms(1,2)] show ?thesis
    by simp
qed

theorem validated_range_does_not_overflow_witness:
  "parse_range_to_ms \<lparr>un_alphanumeric = (\<lambda>_. False), un_lowercase = id\<rparr> (lit ''7D'') = Some 604800000"
proof -
  let ?U = "\<lparr>un_alphanumeric = (\<lambda>_. False), un_lowercase = id\<rparr>"
  have "valid_range ?U (lit ''7D'')"
    by (simp add: valid_range_def lit_def is_alphanumeric_def utf8_len_def)
  moreover have "range_ms (lit ''7D'') = 604800000"
    by (simp add: range_ms_def lit_def unit_ms_def ascii_lowercase_def parse_nat_def digit_def)
  ultimately obtain ms where ms: "parse_range_to_ms ?U (lit ''7D'') = Some ms" "sint ms = 604800000"
    using validated_range_does_not_overflow [of ?U "lit ''7D''" 0] by (auto simp: lit_def)
  then have "ms = 604800000" by (intro signed_word_eqI) simp
  with ms show ?thesis by simp
qed

text \<open>
  C22: a range can pass the validation and make the handler panic: \<open>is_alphanumeric\<close> admits letters
  beyond ASCII, and splitting off the last byte of a text that ends in such a letter is a panic
  (which ends the process, since the release profile aborts). The validation is by characters,
  the split by bytes.
\<close>

theorem non_ascii_range_panics:
  assumes "is_valid_node_id U k" "valid_range U (hq_range params)"
    and "to_lowercase U (trim (hq_range params)) = s @ [c]" "128 \<le> c"
  shows "get_node_history J U scan outcome now k params st = None"
  using assms split_inside_char [OF assms(4), of s]
  by (simp add: get_node_history_eq parse_range_to_ms_def Let_def)

theorem non_ascii_range_panics_witness:
  "get_node_history demo_json_lib \<lparr>un_alphanumeric = (\<lambda>c. c = 233), un_lowercase = id\<rparr> id Executed 0 (lit ''web-1'')
     \<lparr>hq_range = [49, 233], hq_limit = 10\<rparr> demo_state = None"
proof (rule non_ascii_range_panics [of _ _ _ "[49]" 233])
  let ?U = "\<lparr>un_alphanumeric = (\<lambda>c. c = 233), un_lowercase = id\<rparr>"
  show "is_valid_node_id ?U (lit ''web-1'')"
    by (simp add: is_valid_node_id_def lit_def is_alphanumeric_def utf8_len_def)
  show "valid_range ?U (hq_range \<lparr>hq_range = [49, 233], hq_limit = 10\<rparr>)"
    by (simp add: valid_range_def is_alphanumeric_def utf8_len_def)
  show "to_lowercase ?U (trim (hq_range \<lparr>hq_range = [49, 233], hq_limit = 10\<rparr>)) = [49] @ [233]"
    by (simp add: to_lowercase_def trim_def trim_start_def trim_end_def is_ws_def)
qed simp

text \<open>
  C20: a history request with a valid node id and a validated ASCII range, when the query is
  executed, is answered with the newest snapshots of the node between the start of the range and
  now, by descending time: at most the limit clamped to 1..1000, and fewer only when there are no
  more. Registry, tables, queues and broadcasts stay as they were.
\<close>

theorem history_answer:
  fixes st :: "'j app_state"
  assumes "scan_ok scan" "is_valid_node_id U k" "0 \<le> sint now"
    and "valid_range U (hq_range params)" "list_all (\<lambda>c. c < 128) (hq_range params)"
  defines "from_ms \<equiv> now - word_of_nat (range_ms (hq_range params))"
    and "wanted \<equiv> filter (\<lambda>r. sr_node_id r = k \<and> sint now - int (range_ms (hq_range params)) \<le> sint (sr_timestamp r) \<and>
                                sint (sr_timestamp r) \<le> sint now) (db_snapshots (as_db st))"
  shows "\<exists>rs st'. get_node_history J U scan Executed now k params st =
      Some (Inr (history_json J k (hq_range params) from_ms now
        (map (\<lambda>r. \<lparr>sd_node_id = sr_node_id r, sd_timestamp = sr_timestamp r, sd_stats_json = sr_stats_json r\<rparr>) rs)), st') \<and>
      newest_of rs wanted \<and>
      length rs = min (nat (sint (clamp_i64 1 1000 (hq_limit params)))) (length wanted) \<and> length rs \<le> 1000 \<and>
      as_db st' = as_db st \<and> as_nodes st' = as_nodes st \<and> as_worker_txs st' = as_worker_txs st \<and>
      as_broadcast st' = as_broadcast st"
proof -
  let ?limit = "clamp_i64 1 1000 (hq_limit params)"
  let ?q = "get_snapshots scan Executed k from_ms now ?limit"
  have lim: "0 \<le> sint ?limit" "sint ?limit \<le> 1000" using clamp_bounds [of "hq_limit params"] by simp_all
  have r: "parse_range_to_ms U (hq_range params) = Some (word_of_nat (range_ms (hq_range params)))"
    by (rule parse_range_ascii [OF assms(4,5)])
  have from_ms: "sint from_ms = sint now - int (range_ms (hq_range params))"
    unfolding from_ms_def using valid_range_length [OF assms(4,5)] assms(3) by (rule range_start)
  from snapshots_query [OF assms(1) lim(1), of k from_ms now "as_db st" "as_metrics st"] obtain rs where
    rs: "fst (?q (as_db st, as_metrics st)) =
        Inr (map (\<lambda>r. \<lparr>sd_node_id = sr_node_id r, sd_timestamp = sr_timestamp r, sd_stats_json = sr_stats_json r\<rparr>) rs)"
      "newest_of rs wanted" "length rs = min (nat (sint ?limit)) (length wanted)"
    unfolding wanted_def from_ms [symmetric] by blast
  then obtain st1 where w: "with_db ?q st = (Inr (map (\<lambda>r. \<lparr>sd_node_id = sr_node_id r, sd_timestamp = sr_timestamp r,
         sd_stats_json = sr_stats_json r\<rparr>) rs), st1)"
    and "as_db st1 = as_db st" "as_nodes st1 = as_nodes st" "as_worker_txs st1 = as_worker_txs st"
      "as_broadcast st1 = as_broadcast st"
    by (simp add: with_db_eq)
  with assms(2,4) r rs lim show ?thesis
    by (auto simp: get_node_history_eq Let_def from_ms_def [symmetric] finish_request_def intro!: exI [of _ rs])
qed

theorem history_answer_witness:
  "\<exists>answer st'. get_node_history demo_json_lib \<lparr>un_alphanumeric = (\<lambda>_. False), un_lowercase = id\<rparr> id Executed 25 [110]
      (history_query_of None (Some 5000)) demo_state = Some (Inr answer, st') \<and> as_db st' = demo_db"
proof -
  let ?U = "\<lparr>un_alphanumeric = (\<lambda>_. False), un_lowercase = id\<rparr>" and ?q = "history_query_of None (Some 5000)"
  have q: "hq_range ?q = lit ''1h''" "hq_limit ?q = 5000"
    by (simp_all add: history_query_of_def default_range_def)
  have r: "range_ms (lit ''1h'') = 3600000"
    by (simp add: range_ms_def lit_def unit_ms_def ascii_lowercase_def parse_nat_def digit_def)
  have "is_valid_node_id ?U [110]" "valid_range ?U (lit ''1h'')" "list_all (\<lambda>c. c < 128) (lit ''1h'')"
    "scan_ok (id :: demo_json snapshot_row list \<Rightarrow> _)" "clamp_i64 1 1000 5000 = 1000"
    by (simp_all add: is_valid_node_id_def valid_range_def lit_def is_alphanumeric_def utf8_len_def scan_ok_def
        clamp_i64_def word_sless_alt)
  with history_answer [where scan = id and U = ?U and k = "[110]" and now = 25 and params = ?q
      and st = demo_state and J = demo_json_lib] show ?thesis
    by (simp add: q r) (elim exE conjE, simp)
qed

text \<open>
  A node that is in the database but not in the registry is answered from the database and
  put into the registry: the next request is answered the same without a query, whatever the
  database does by then. A node that is in neither is answered 404.
\<close>

theorem get_node_fills_registry:
  fixes J :: "'j json_lib"
  assumes "is_valid_node_id U k" "as_nodes st k = None" "scan_ok scan"
  defines "r \<equiv> get_node_handler J U scan Executed k st"
  shows "(if k \<in> dom (db_nodes (as_db st))
          then \<exists>n. fst r = Inr (node_json J n) \<and> nf_node_id n = k \<and> as_nodes (snd r) = (as_nodes st)(k \<mapsto> n) \<and>
               fst (get_node_handler J U scan outcome k (snd r)) = Inr (node_json J n) \<and>
               DB_LATENCY (as_metrics (snd (get_node_handler J U scan outcome k (snd r)))) = DB_LATENCY (as_metrics (snd r))
          else fst r = Inl NotFound \<and> as_nodes (snd r) = as_nodes st)"
proof (cases "k \<in> dom (db_nodes (as_db st))")
  case True
  with node_answer_known [OF assms(3)] obtain n where n: "node_answer scan (as_db st) k = Some n" "nf_node_id n = k"
    by (metis option.collapse)
  with get_node_handler_miss [OF assms(1,2), of J scan] have
    r: "fst r = Inr (node_json J n)" "as_nodes (snd r) = (as_nodes st)(k \<mapsto> n)" by (simp_all add: r_def)
  then have "get_node_handler J U scan outcome k (snd r) = finish_request (lit ''/api/v1/nodes/:id'') (Inr (node_json J n), snd r)"
    using assms(1) by (simp add: get_node_handler_eq)
  with True n r show ?thesis by (auto simp: finish_request_def count_http_def Let_def)
next
  case False
  with get_node_handler_miss [OF assms(1,2), of J scan] show ?thesis
    by (simp add: r_def node_answer_unknown)
qed

theorem get_node_fills_registry_witness:
  "\<exists>n. fst (get_node_handler demo_json_lib \<lparr>un_alphanumeric = (\<lambda>_. False), un_lowercase = id\<rparr> id Executed [110]
            (app_state_new demo_db metrics_new [])) = Inr (node_json demo_json_lib n) \<and> nf_node_id n = [110]"
  using get_node_fills_registry [of "\<lparr>un_alphanumeric = (\<lambda>_. False), un_lowercase = id\<rparr>" "[110]"
      "app_state_new demo_db metrics_new []" id demo_json_lib Executed]
  by (auto simp: is_valid_node_id_def is_alphanumeric_def utf8_len_def app_state_new_def scan_ok_def demo_db_def)

text \<open>
  A node id that is empty, longer than 64 bytes or holds another character than letters,
  digits, hyphens and underscores is answered 400 by both node handlers, and so is a range that
  fails its validation; the database is not asked and only the request counters change.
\<close>

theorem invalid_request_rejected:
  assumes "\<not> is_valid_node_id U k \<or> \<not> valid_range U (hq_range params)"
  shows "get_node_history J U scan outcome now k params st = Some (Inl BadRequest,
           st\<lparr>as_metrics := count_http (lit ''/api/v1/nodes/:id/history'') (lit ''GET'') (lit ''400'') (as_metrics st)\<rparr>) \<and>
         (is_valid_node_id U k \<or> get_node_handler J U scan outcome k st = (Inl BadRequest,
           st\<lparr>as_metrics := count_http (lit ''/api/v1/nodes/:id'') (lit ''GET'') (lit ''400'') (as_metrics st)\<rparr>))"
  using assms by (auto simp: get_node_history_eq get_node_handler_eq finish_request_def)

theorem invalid_request_rejected_witness:
  "fst (get_node_handler demo_json_lib \<lparr>un_alphanumeric = (\<lambda>_. False), un_lowercase = id\<rparr> id Executed (lit ''a/b'') demo_state) =
   Inl BadRequest"
proof -
  have "\<not> is_valid_node_id \<lparr>un_alphanumeric = (\<lambda>_. False), un_lowercase = id\<rparr> (lit ''a/b'')"
    by (simp add: is_valid_node_id_def lit_def is_alphanumeric_def)
  then show ?thesis
    using invalid_request_rejected [of "\<lparr>un_alphanumeric = (\<lambda>_. False), un_lowercase = id\<rparr>" "lit ''a/b''"
        "history_query_of None None" demo_json_lib id Executed 0 demo_state] by simp
qed

text \<open>
  The list of nodes has one entry per registered node, in the order the registry is walked,
  and its count is their number.
\<close>

theorem list_nodes_complete:
  assumes "walks order st"
  shows "fst (list_nodes J order st) = Inr (jl_object J
     [(lit ''nodes'', jl_array J (map (\<lambda>k. node_json J (the (as_nodes st k))) order)),
      (lit ''count'', jl_u64 J (word_of_nat (card (dom (as_nodes st)))))])"
proof -
  have "List.map_filter (as_nodes st) ks = map (\<lambda>k. the (as_nodes st k)) ks" if "set ks \<subseteq> dom (as_nodes st)" for ks
    using that by (induction ks) (auto simp: List.map_filter_simps)
  moreover have "length order = card (dom (as_nodes st))"
    using assms distinct_card [of order] by (simp add: walks_def)
  ultimately show ?thesis using assms by (simp add: list_nodes_def walks_def Let_def comp_def)
qed

theorem list_nodes_complete_witness:
  "fst (list_nodes demo_json_lib [[110]] demo_state) = Inr (DObject
     [(lit ''nodes'', DArray [node_json demo_json_lib (demo_info 20 Online)]), (lit ''count'', DInt 1)])"
  using list_nodes_complete [of "[[110]]" demo_state demo_json_lib]
  by (simp add: walks_def)

end
