(* ===== verification/Pulse_Auth.thy ===== *)
theory Pulse_Auth
  imports Pulse_Proto
begin

text \<open>
  src/pulse-core/src/auth.rs: signing and verification of requests, the nonce tracker, the
  tonic interceptor of the server and the header injection of the agent.

  The crates \<open>hmac\<close>, \<open>sha2\<close>, \<open>hex\<close> and the header values of \<open>tonic\<close> are the record
  \<open>auth_lib\<close> of functions, an argument of every operation that calls them; what the code
  relies on is \<open>auth_lib_ok\<close>. The clock is an argument too: the seconds since the epoch, or
  \<open>None\<close> where \<open>duration_since(UNIX_EPOCH)\<close> fails. The mutex of the tracker is a flag
  (\<open>ai_poisoned\<close>): all calls of one interceptor take it, so a sequence of calls is a
  sequence of states.
\<close>

subsection \<open>The libraries\<close>

record 'v auth_lib =
  al_hmac :: "u8 list \<Rightarrow> (u8 list \<Rightarrow> u8 list) option"
  al_sha256 :: "u8 list \<Rightarrow> u8 list"
  al_hex_encode :: "u8 list \<Rightarrow> rstr"
  al_hex_decode :: "rstr \<Rightarrow> u8 list option"
  al_to_str :: "'v \<Rightarrow> rstr option"
  al_parse_value :: "rstr \<Rightarrow> 'v option"

text \<open>The characters a header value can carry as text.\<close>

definition visible_ascii :: "rchar \<Rightarrow> bool" where
  "visible_ascii c \<longleftrightarrow> 32 \<le> c \<and> c \<le> 126"

definition lower_hex_char :: "rchar \<Rightarrow> bool" where
  "lower_hex_char c \<longleftrightarrow> (48 \<le> c \<and> c \<le> 57) \<or> (97 \<le> c \<and> c \<le> 102)"

text \<open>
  Documented behaviour of the crates: HMAC takes a key of any length, \<open>hex::encode\<close> writes
  lower-case hexadecimal digits that \<open>hex::decode\<close> reads back, and a string of visible ASCII
  characters is a header value whose text is that string.
\<close>

definition auth_lib_ok :: "'v auth_lib \<Rightarrow> bool" where
  "auth_lib_ok L \<longleftrightarrow>
     (\<forall>k. al_hmac L k \<noteq> None) \<and>
     (\<forall>b. al_hex_decode L (al_hex_encode L b) = Some b) \<and>
     (\<forall>b. \<forall>c \<in> set (al_hex_encode L b). lower_hex_char c) \<and>
     (\<forall>s. (\<forall>c \<in> set s. visible_ascii c) \<longrightarrow>
        (\<exists>v. al_parse_value L s = Some v \<and> al_to_str L v = Some s))"

subsection \<open>Signing and verifying\<close>

definition MAX_CLOCK_SKEW :: i64 where
  "MAX_CLOCK_SKEW = 60"

text \<open>\<open>.unwrap_or_default().as_secs() as i64\<close>\<close>

definition epoch_secs :: "u64 option \<Rightarrow> i64" where
  "epoch_secs now = unwrap_or now 0"

text \<open>
  The fallback hashes the time in nanoseconds, the debug text of the thread and the process
  id when the entropy source fails (\<open>entropy = None\<close>).
\<close>

definition generate_nonce ::
  "'v auth_lib \<Rightarrow> u8 list option \<Rightarrow> nat \<Rightarrow> rstr \<Rightarrow> u32 \<Rightarrow> rstr" where
  "generate_nonce L entropy nanos thread_id pid =
     al_hex_encode L
       (case entropy of
          Some buf \<Rightarrow> buf
        | None \<Rightarrow>
            (let seed = show_nat nanos @ lit '':'' @ thread_id @ lit '':'' @ show_nat (unat pid)
             in take 16 (al_sha256 L (utf8 seed))))"

definition signed_message :: "rstr \<Rightarrow> i64 \<Rightarrow> rstr \<Rightarrow> rstr" where
  "signed_message node_id timestamp nonce =
     node_id @ lit '':'' @ show_i64 timestamp @ lit '':'' @ nonce"

text \<open>\<open>None\<close> is the panic of \<open>expect\<close> on a rejected key.\<close>

definition sign_request ::
  "'v auth_lib \<Rightarrow> u8 list \<Rightarrow> rstr \<Rightarrow> i64 \<Rightarrow> rstr \<Rightarrow> rstr option" where
  "sign_request L secret node_id timestamp nonce =
     (let message = signed_message node_id timestamp nonce in
      case al_hmac L secret of
        None \<Rightarrow> None
      | Some mac \<Rightarrow> Some (al_hex_encode L (mac (utf8 message))))"

definition verify_request ::
  "'v auth_lib \<Rightarrow> u64 option \<Rightarrow> u8 list \<Rightarrow> rstr \<Rightarrow> i64 \<Rightarrow> rstr \<Rightarrow> rstr \<Rightarrow>
   auth_error + unit" where
  "verify_request L clock secret node_id timestamp nonce signature =
     bind_res (ok_or clock ClockError) (\<lambda>now.
       let drift = wrapping_abs (now - timestamp) in
       if MAX_CLOCK_SKEW <s drift then Inl (ExpiredTimestamp drift MAX_CLOCK_SKEW)
       else (let message = signed_message node_id timestamp nonce in
         bind_res (ok_or (al_hmac L secret) InvalidKey) (\<lambda>mac.
         bind_res (ok_or (al_hex_decode L signature) InvalidSignature) (\<lambda>expected.
           if mac (utf8 message) = expected then Inr () else Inl InvalidSignature))))"

subsection \<open>The nonce tracker\<close>

record nonce_tracker =
  nt_nonces :: "rstr set"
  nt_last_purge :: i64

definition nonce_tracker_new :: "u64 option \<Rightarrow> nonce_tracker" where
  "nonce_tracker_new clock = \<lparr>nt_nonces = {}, nt_last_purge = epoch_secs clock\<rparr>"

definition check_and_insert ::
  "u64 option \<Rightarrow> rstr \<Rightarrow> nonce_tracker \<Rightarrow> bool \<times> nonce_tracker" where
  "check_and_insert clock nonce t =
     (let now = epoch_secs clock;
          t' = (if MAX_CLOCK_SKEW * 2 <s now - nt_last_purge t
                then t\<lparr>nt_nonces := {}, nt_last_purge := now\<rparr> else t)
      in (nonce \<notin> nt_nonces t', t'\<lparr>nt_nonces := insert nonce (nt_nonces t')\<rparr>))"

subsection \<open>The interceptor of the server\<close>

datatype status = Unauthenticated rstr | Internal rstr

type_synonym 'v metadata = "rstr \<rightharpoonup> 'v"

record auth_interceptor =
  ai_secret :: "u8 list"
  ai_seen_nonces :: nonce_tracker
  ai_poisoned :: bool

definition auth_interceptor_new :: "u64 option \<Rightarrow> u8 list \<Rightarrow> auth_interceptor" where
  "auth_interceptor_new clock secret =
     \<lparr>ai_secret = secret, ai_seen_nonces = nonce_tracker_new clock, ai_poisoned = False\<rparr>"

definition extract_header :: "'v auth_lib \<Rightarrow> 'v metadata \<Rightarrow> rstr \<Rightarrow> auth_error + rstr" where
  "extract_header L md key =
     bind_res (ok_or (md key) (MissingHeader key)) (\<lambda>v.
       ok_or (al_to_str L v) (MissingHeader key))"

definition unauthenticated :: "auth_error + 'a \<Rightarrow> status + 'a" where
  "unauthenticated r =
     (case r of Inl e \<Rightarrow> Inl (Unauthenticated (display_auth_error e)) | Inr a \<Rightarrow> Inr a)"

text \<open>The checks of \<open>Interceptor::call\<close> up to the nonce; the result is the nonce.\<close>

definition check_headers ::
  "'v auth_lib \<Rightarrow> u64 option \<Rightarrow> u8 list \<Rightarrow> 'v metadata \<Rightarrow> status + rstr" where
  "check_headers L clock secret md =
     bind_res (unauthenticated (extract_header L md (lit ''x-pulse-node-id''))) (\<lambda>node_id.
     bind_res (unauthenticated (extract_header L md (lit ''x-pulse-timestamp''))) (\<lambda>timestamp_str.
     bind_res (unauthenticated (extract_header L md (lit ''x-pulse-nonce''))) (\<lambda>nonce.
     bind_res (unauthenticated (extract_header L md (lit ''x-pulse-signature''))) (\<lambda>signature.
     bind_res (ok_or (parse_i64 timestamp_str)
                 (Unauthenticated (lit ''invalid timestamp format''))) (\<lambda>timestamp.
     bind_res (unauthenticated
                 (verify_request L clock secret node_id timestamp nonce signature)) (\<lambda>_.
       Inr nonce))))))"

text \<open>
  \<open>Interceptor::call\<close>: the clock is read once by \<open>verify_request\<close> and once more, later, by
  the tracker. The request is passed on unchanged.
\<close>

definition interceptor_call ::
  "'v auth_lib \<Rightarrow> u64 option \<Rightarrow> u64 option \<Rightarrow> 'v metadata \<Rightarrow> auth_interceptor \<Rightarrow>
   (status + 'v metadata) \<times> auth_interceptor" where
  "interceptor_call L clock clock' md ai =
     (case check_headers L clock (ai_secret ai) md of
        Inl st \<Rightarrow> (Inl st, ai)
      | Inr nonce \<Rightarrow>
          if ai_poisoned ai then (Inl (Internal (lit ''nonce tracker lock poisoned'')), ai)
          else (let (is_new, t) = check_and_insert clock' nonce (ai_seen_nonces ai);
                    ai' = ai\<lparr>ai_seen_nonces := t\<rparr>
                in if \<not> is_new then (Inl (Unauthenticated (lit ''replayed nonce'')), ai')
                   else (Inr md, ai')))"

text \<open>A sequence of requests answered by one interceptor.\<close>

fun interceptor_run ::
  "'v auth_lib \<Rightarrow> (u64 option \<times> u64 option \<times> 'v metadata) list \<Rightarrow> auth_interceptor \<Rightarrow>
   (status + 'v metadata) list \<times> auth_interceptor" where
  "interceptor_run L [] ai = ([], ai)"
| "interceptor_run L ((c, c', md) # rs) ai =
     (let (r, ai') = interceptor_call L c c' md ai; (out, ai'') = interceptor_run L rs ai'
      in (r # out, ai''))"

subsection \<open>The headers of the agent\<close>

definition insert_header ::
  "'v auth_lib \<Rightarrow> rstr \<Rightarrow> rstr \<Rightarrow> rstr \<Rightarrow> 'v metadata \<Rightarrow> status + 'v metadata" where
  "insert_header L key val err md =
     bind_res (ok_or (al_parse_value L val) (Internal err)) (\<lambda>v. Inr (md(key \<mapsto> v)))"

text \<open>\<open>None\<close> is the panic of \<open>sign_request\<close>; \<open>nonce\<close> is the result of \<open>generate_nonce\<close>.\<close>

definition inject_auth_headers ::
  "'v auth_lib \<Rightarrow> u64 option \<Rightarrow> rstr \<Rightarrow> u8 list \<Rightarrow> rstr \<Rightarrow> 'v metadata \<Rightarrow>
   (status + 'v metadata) option" where
  "inject_auth_headers L clock nonce secret node_id md =
     (case clock of
        None \<Rightarrow> Some (Inl (Internal (lit ''system clock error'')))
      | Some timestamp \<Rightarrow>
          (case sign_request L secret node_id timestamp nonce of
             None \<Rightarrow> None
           | Some signature \<Rightarrow> Some (
               bind_res (insert_header L (lit ''x-pulse-node-id'') node_id
                           (lit ''invalid node id'') md) (\<lambda>md.
               bind_res (insert_header L (lit ''x-pulse-timestamp'') (show_i64 timestamp)
                           (lit ''timestamp format error'') md) (\<lambda>md.
               bind_res (insert_header L (lit ''x-pulse-nonce'') nonce
                           (lit ''nonce format error'') md) (\<lambda>md.
               insert_header L (lit ''x-pulse-signature'') signature
                 (lit ''signature format error'') md))))))"

subsection \<open>Lemmas: the library interface\<close>

lemma auth_lib_okD:
  assumes "auth_lib_ok L"
  shows "\<exists>mac. al_hmac L k = Some mac"
    and "al_hex_decode L (al_hex_encode L b) = Some b"
    and "c \<in> set (al_hex_encode L b) \<Longrightarrow> lower_hex_char c"
    and "\<forall>c \<in> set s. visible_ascii c \<Longrightarrow> \<exists>v. al_parse_value L s = Some v \<and> al_to_str L v = Some s"
  using assms by (auto simp: auth_lib_ok_def)

lemma lower_hex_visible: "lower_hex_char c \<Longrightarrow> visible_ascii c"
  by (auto simp: lower_hex_char_def visible_ascii_def)

lemma show_i64_visible: "\<forall>c \<in> set (show_i64 x). visible_ascii c"
  by (auto simp: visible_ascii_def dest: show_i64_chars)

lemma hex_encode_visible: "auth_lib_ok L \<Longrightarrow> \<forall>c \<in> set (al_hex_encode L b). visible_ascii c"
  by (blast intro: lower_hex_visible auth_lib_okD(3))

subsection \<open>Lemmas: the freshness window\<close>

lemma unauthenticated_simps [simp]:
  "unauthenticated (Inr a) = Inr a"
  "unauthenticated (Inl e) = Inl (Unauthenticated (display_auth_error e))"
  by (simp_all add: unauthenticated_def)

lemma unauthenticated_Inr_iff [result_iff]: "unauthenticated r = Inr a \<longleftrightarrow> r = Inr a"
  by (cases r) (simp_all add: unauthenticated_def)

lemma drift_small_iff:
  fixes d :: i64
  shows "\<not> MAX_CLOCK_SKEW <s wrapping_abs d \<longleftrightarrow> \<bar>sint d\<bar> \<le> 60 \<or> sint d = - (2 ^ 63)"
proof (cases "sint d = - (2 ^ 63)")
  case True
  then have "d = 2 ^ 63"
    by (intro signed_word_eqI) simp
  then show ?thesis by (simp add: wrapping_abs_def MAX_CLOCK_SKEW_def)
next
  case False
  then show ?thesis
    by (auto simp: word_sless_alt MAX_CLOCK_SKEW_def sint_wrapping_abs not_less)
qed

lemma verify_request_Inr_iff:
  "verify_request L clock secret node_id ts nonce sig = Inr () \<longleftrightarrow>
     (\<exists>now mac. clock = Some now \<and> \<not> MAX_CLOCK_SKEW <s wrapping_abs (now - ts) \<and>
        al_hmac L secret = Some mac \<and>
        al_hex_decode L sig = Some (mac (utf8 (signed_message node_id ts nonce))))"
  by (auto simp: verify_request_def Let_def result_iff split: if_splits)

lemma extract_header_Inr_iff [result_iff]:
  "extract_header L md key = Inr s \<longleftrightarrow> (\<exists>v. md key = Some v \<and> al_to_str L v = Some s)"
  by (auto simp: extract_header_def result_iff)

lemma check_headers_Inr_iff:
  "check_headers L clock secret md = Inr nonce \<longleftrightarrow>
     (\<exists>node_id ts_str sig ts.
        extract_header L md (lit ''x-pulse-node-id'') = Inr node_id \<and>
        extract_header L md (lit ''x-pulse-timestamp'') = Inr ts_str \<and>
        extract_header L md (lit ''x-pulse-nonce'') = Inr nonce \<and>
        extract_header L md (lit ''x-pulse-signature'') = Inr sig \<and>
        parse_i64 ts_str = Some ts \<and>
        verify_request L clock secret node_id ts nonce sig = Inr ())"
  by (auto simp: check_headers_def bind_res_Inr_iff unauthenticated_Inr_iff ok_or_iff)

lemma fresh_within_skew:
  assumes "\<bar>sint now - sint ts\<bar> \<le> 60"
  shows "\<not> MAX_CLOCK_SKEW <s wrapping_abs (now - ts)"
  using assms by (simp add: drift_small_iff sint_diff_small)

lemma drift_accepts_iff:
  assumes "0 \<le> sint now" "sint now < 2 ^ 62"
  shows "\<not> MAX_CLOCK_SKEW <s wrapping_abs (now - ts) \<longleftrightarrow>
         \<bar>sint now - sint ts\<bar> \<le> 60 \<or> sint ts = sint now - 2 ^ 63"
proof -
  have ts: "- (2 ^ 63) \<le> sint ts" "sint ts < 2 ^ 63"
    using sint_greater_eq [of ts] sint_less [of ts] by simp_all
  consider (small) "sint now - sint ts < 2 ^ 63" | (big) "2 ^ 63 \<le> sint now - sint ts" by linarith
  then show ?thesis
  proof cases
    case small
    moreover have "- (2 ^ 63) < sint now - sint ts" using assms(1) ts(2) by linarith
    ultimately have "sint (now - ts) = sint now - sint ts" by (intro sint_diff_small) linarith
    with small \<open>- (2 ^ 63) < sint now - sint ts\<close> show ?thesis by (auto simp: drift_small_iff)
  next
    case big
    let ?x = "sint now - sint ts"
    have "now - ts = word_of_int (?x - 2 ^ 64)" by simp
    moreover have "signed_take_bit 63 (?x - 2 ^ 64) = ?x - 2 ^ 64"
      using big assms(2) ts by (intro signed_take_bit_int_eq_self) simp_all
    ultimately have "sint (now - ts) = ?x - 2 ^ 64" by (simp only: signed_of_int) simp
    with big assms ts show ?thesis by (auto simp: drift_small_iff)
  qed
qed

subsection \<open>Lemmas: the signed message\<close>

lemma show_i64_inj: "show_i64 a = show_i64 b \<Longrightarrow> a = b"
  by (metis option.inject parse_i64_show_i64)

lemma append_colon_inj:
  assumes "(58::rchar) \<notin> set a" "58 \<notin> set a'" "a @ 58 # b = a' @ 58 # b'"
  shows "a = a' \<and> b = b'"
  using assms split_once_Some_iff [of 58 "a @ 58 # b" a b] split_once_Some_iff [of 58 "a @ 58 # b" a' b']
  by simp

lemma colon_notin_show_i64: "58 \<notin> set (show_i64 x)"
  by (auto dest: show_i64_chars)

lemma signed_message_inj:
  assumes "58 \<notin> set node" "58 \<notin> set node'"
    and "signed_message node ts nonce = signed_message node' ts' nonce'"
  shows "node = node' \<and> ts = ts' \<and> nonce = nonce'"
proof -
  from assms(3) have "node @ 58 # (show_i64 ts @ 58 # nonce) = node' @ 58 # (show_i64 ts' @ 58 # nonce')"
    by (simp add: signed_message_def rust_str)
  from append_colon_inj [OF assms(1,2) this] have "node = node'"
    "show_i64 ts @ 58 # nonce = show_i64 ts' @ 58 # nonce'" by simp_all
  moreover from append_colon_inj [OF colon_notin_show_i64 colon_notin_show_i64 this(2)]
  have "show_i64 ts = show_i64 ts'" "nonce = nonce'" by simp_all
  ultimately show ?thesis by (blast dest: show_i64_inj)
qed

subsection \<open>The contract of a replay guard\<close>

text \<open>
  What the interceptor relies on: while a guard is open (no purge is due) a nonce passes iff it
  was not seen, and every nonce it is asked about is seen from then on.
\<close>

locale replay_guard =
  fixes check :: "'t \<Rightarrow> 'n \<Rightarrow> 's \<Rightarrow> bool \<times> 's"
    and seen :: "'s \<Rightarrow> 'n set"
    and open_at :: "'t \<Rightarrow> 's \<Rightarrow> bool"
  assumes fresh: "open_at t s \<Longrightarrow> fst (check t n s) \<longleftrightarrow> n \<notin> seen s"
    and records: "open_at t s \<Longrightarrow> seen (snd (check t n s)) = insert n (seen s)"
    and stays_open: "open_at t s \<Longrightarrow> open_at t' (snd (check t n s)) \<longleftrightarrow> open_at t' s"
begin

lemma seen_mono: "open_at t s \<Longrightarrow> check t n s = (b, s') \<Longrightarrow> m \<in> seen s \<Longrightarrow> m \<in> seen s'"
  using records [of t s n] by simp

lemma asked_is_seen: "open_at t s \<Longrightarrow> check t n s = (b, s') \<Longrightarrow> n \<in> seen s'"
  using records [of t s n] by simp

lemma seen_is_rejected: "open_at t s \<Longrightarrow> n \<in> seen s \<Longrightarrow> check t n s = (b, s') \<Longrightarrow> \<not> b"
  using fresh [of t s n] by simp

lemma open_kept: "open_at t s \<Longrightarrow> check t n s = (b, s') \<Longrightarrow> open_at t' s' \<longleftrightarrow> open_at t' s"
  using stays_open [of t s t' n] by simp

end

definition purge_not_due :: "u64 option \<Rightarrow> nonce_tracker \<Rightarrow> bool" where
  "purge_not_due clock t \<longleftrightarrow> \<not> MAX_CLOCK_SKEW * 2 <s epoch_secs clock - nt_last_purge t"

interpretation tracker: replay_guard check_and_insert nt_nonces purge_not_due
  by unfold_locales (simp_all add: check_and_insert_def purge_not_due_def Let_def)

subsection \<open>Lemmas: runs of the interceptor\<close>

text \<open>The nonce a request carries, once its other headers are valid.\<close>

abbreviation nonce_of :: "'v auth_lib \<Rightarrow> 'v metadata \<Rightarrow> auth_error + rstr" where
  "nonce_of L md \<equiv> extract_header L md (lit ''x-pulse-nonce'')"

lemma interceptor_call_cases:
  assumes "interceptor_call L c c' md ai = (r, ai')"
  obtains (rejected) st where "r = Inl st" "ai' = ai" "\<nexists>n. check_headers L c (ai_secret ai) md = Inr n"
  | (poisoned) st where "r = Inl st" "ai' = ai" "ai_poisoned ai"
  | (checked) n b t where "check_headers L c (ai_secret ai) md = Inr n" "nonce_of L md = Inr n"
      "\<not> ai_poisoned ai" "check_and_insert c' n (ai_seen_nonces ai) = (b, t)"
      "ai' = ai\<lparr>ai_seen_nonces := t\<rparr>"
      "r = (if b then Inr md else Inl (Unauthenticated (lit ''replayed nonce'')))"
proof (cases "check_headers L c (ai_secret ai) md")
  case (Inl st)
  with assms show thesis by (intro rejected) (auto simp: interceptor_call_def)
next
  case (Inr n)
  then have n: "nonce_of L md = Inr n" by (auto simp: check_headers_Inr_iff)
  obtain b t where bt: "check_and_insert c' n (ai_seen_nonces ai) = (b, t)"
    by (cases "check_and_insert c' n (ai_seen_nonces ai)")
  show thesis
  proof (cases "ai_poisoned ai")
    case True
    with assms Inr show thesis by (intro poisoned) (auto simp: interceptor_call_def)
  next
    case False
    with assms Inr n bt show thesis
      by (intro checked) (auto simp: interceptor_call_def Let_def split: if_splits)
  qed
qed

lemma interceptor_call_seen:
  assumes "interceptor_call L c c' md ai = (r, ai')" "purge_not_due c' (ai_seen_nonces ai)"
  shows "purge_not_due d (ai_seen_nonces ai') \<longleftrightarrow> purge_not_due d (ai_seen_nonces ai)"
    and "n \<in> nt_nonces (ai_seen_nonces ai) \<Longrightarrow> n \<in> nt_nonces (ai_seen_nonces ai')"
    and "r = Inr md' \<Longrightarrow> nonce_of L md = Inr n \<Longrightarrow>
           n \<notin> nt_nonces (ai_seen_nonces ai) \<and> n \<in> nt_nonces (ai_seen_nonces ai')"
proof -
  show "purge_not_due d (ai_seen_nonces ai') \<longleftrightarrow> purge_not_due d (ai_seen_nonces ai)"
    using assms(1)
    by (cases rule: interceptor_call_cases) (use assms(2) in \<open>auto dest: tracker.open_kept\<close>)
  show "n \<in> nt_nonces (ai_seen_nonces ai) \<Longrightarrow> n \<in> nt_nonces (ai_seen_nonces ai')"
    using assms(1)
    by (cases rule: interceptor_call_cases) (use assms(2) in \<open>auto dest: tracker.seen_mono\<close>)
  show "r = Inr md' \<Longrightarrow> nonce_of L md = Inr n \<Longrightarrow>
      n \<notin> nt_nonces (ai_seen_nonces ai) \<and> n \<in> nt_nonces (ai_seen_nonces ai')"
    using assms(1)
    by (cases rule: interceptor_call_cases)
      (use assms(2) in \<open>auto split: if_splits dest: tracker.seen_is_rejected tracker.asked_is_seen\<close>)
qed

lemma interceptor_run_rejects_seen:
  assumes "interceptor_run L rs ai = (out, ai')"
    and "\<forall>(c, c', md) \<in> set rs. purge_not_due c' (ai_seen_nonces ai)"
    and "n \<in> nt_nonces (ai_seen_nonces ai)" "j < length rs"
    and "nonce_of L (snd (snd (rs ! j))) = Inr n"
  shows "\<nexists>md'. out ! j = Inr md'"
  using assms
proof (induction rs arbitrary: ai out ai' j)
  case Nil
  then show ?case by simp
next
  case (Cons req rs)
  obtain c c' md where req: "req = (c, c', md)" by (cases req)
  obtain r ai1 where r: "interceptor_call L c c' md ai = (r, ai1)" by fastforce
  obtain out1 ai2 where run: "interceptor_run L rs ai1 = (out1, ai2)" by fastforce
  from Cons.prems(1) req r run have out: "out = r # out1" by simp
  have due: "purge_not_due c' (ai_seen_nonces ai)" using Cons.prems(2) req by simp
  note step = interceptor_call_seen [OF r due]
  show ?case
  proof (cases j)
    case 0
    with Cons.prems(3,5) req out step(3) show ?thesis by (cases r) auto
  next
    case (Suc k)
    have "\<forall>(c, c', md) \<in> set rs. purge_not_due c' (ai_seen_nonces ai1)"
      using Cons.prems(2) step(1) by auto
    with Cons.IH [OF run, of k] have "\<nexists>md'. out1 ! k = Inr md'"
      using Cons.prems(3-5) Suc step(2) by simp
    with Suc out show ?thesis by simp
  qed
qed

lemma interceptor_run_no_replay:
  assumes "interceptor_run L rs ai = (out, ai')"
    and "\<forall>(c, c', md) \<in> set rs. purge_not_due c' (ai_seen_nonces ai)"
    and "i < j" "j < length rs" "out ! i = Inr m1" "out ! j = Inr m2"
  shows "nonce_of L (snd (snd (rs ! i))) \<noteq> nonce_of L (snd (snd (rs ! j)))"
  using assms
proof (induction rs arbitrary: ai out ai' i j)
  case Nil
  then show ?case by simp
next
  case (Cons req rs)
  obtain c c' md where req: "req = (c, c', md)" by (cases req)
  obtain r ai1 where r: "interceptor_call L c c' md ai = (r, ai1)" by fastforce
  obtain out1 ai2 where run: "interceptor_run L rs ai1 = (out1, ai2)" by fastforce
  from Cons.prems(1) req r run have out: "out = r # out1" by simp
  have due: "purge_not_due c' (ai_seen_nonces ai)" using Cons.prems(2) req by simp
  note step = interceptor_call_seen [OF r due]
  have due1: "\<forall>(c, c', md) \<in> set rs. purge_not_due c' (ai_seen_nonces ai1)"
    using Cons.prems(2) step(1) by auto
  obtain k where k: "j = Suc k" using Cons.prems(3) by (cases j) auto
  show ?case
  proof (cases i)
    case (Suc h)
    with Cons.IH [OF run due1, of h k] Cons.prems(3-6) out k show ?thesis by simp
  next
    case 0
    then have "r = Inr m1" using Cons.prems(5) out by simp
    moreover from this r obtain n where n: "nonce_of L md = Inr n"
      by (auto elim!: interceptor_call_cases)
    ultimately have "n \<in> nt_nonces (ai_seen_nonces ai1)" using step(3) by blast
    with interceptor_run_rejects_seen [OF run due1, of n k] Cons.prems(4,6) out k n 0 req
    show ?thesis by auto
  qed
qed

subsection \<open>Lemmas: the headers of the agent pass the checks\<close>

lemma header_names_distinct:
  "lit ''x-pulse-node-id'' \<noteq> lit ''x-pulse-timestamp''"
  "lit ''x-pulse-node-id'' \<noteq> lit ''x-pulse-nonce''"
  "lit ''x-pulse-node-id'' \<noteq> lit ''x-pulse-signature''"
  "lit ''x-pulse-timestamp'' \<noteq> lit ''x-pulse-nonce''"
  "lit ''x-pulse-timestamp'' \<noteq> lit ''x-pulse-signature''"
  "lit ''x-pulse-nonce'' \<noteq> lit ''x-pulse-signature''"
  by (simp_all add: lit_def)

lemma inject_auth_headers_ok:
  assumes L: "auth_lib_ok L" and node: "\<forall>c \<in> set node. visible_ascii c"
    and nonce: "\<forall>c \<in> set nonce. visible_ascii c"
  obtains md' mac where
    "inject_auth_headers L (Some ts) nonce secret node md = Some (Inr md')"
    "extract_header L md' (lit ''x-pulse-node-id'') = Inr node"
    "extract_header L md' (lit ''x-pulse-timestamp'') = Inr (show_i64 ts)"
    "nonce_of L md' = Inr nonce"
    "extract_header L md' (lit ''x-pulse-signature'') =
       Inr (al_hex_encode L (mac (utf8 (signed_message node ts nonce))))"
    "al_hmac L secret = Some mac"
proof -
  obtain mac where mac: "al_hmac L secret = Some mac" using auth_lib_okD(1) [OF L] by blast
  let ?sig = "al_hex_encode L (mac (utf8 (signed_message node ts nonce)))"
  note val = auth_lib_okD(4) [OF L]
  obtain v1 where v1: "al_parse_value L node = Some v1" "al_to_str L v1 = Some node"
    using val [OF node] by blast
  obtain v2 where v2: "al_parse_value L (show_i64 ts) = Some v2" "al_to_str L v2 = Some (show_i64 ts)"
    using val [OF show_i64_visible] by blast
  obtain v3 where v3: "al_parse_value L nonce = Some v3" "al_to_str L v3 = Some nonce"
    using val [OF nonce] by blast
  obtain v4 where v4: "al_parse_value L ?sig = Some v4" "al_to_str L v4 = Some ?sig"
    using val [OF hex_encode_visible [OF L]] by blast
  let ?md = "md(lit ''x-pulse-node-id'' \<mapsto> v1, lit ''x-pulse-timestamp'' \<mapsto> v2,
    lit ''x-pulse-nonce'' \<mapsto> v3, lit ''x-pulse-signature'' \<mapsto> v4)"
  show thesis
    by (rule that [of ?md mac])
      (simp_all add: inject_auth_headers_def sign_request_def Let_def mac insert_header_def
        extract_header_def v1 v2 v3 v4 header_names_distinct header_names_distinct [symmetric])
qed

lemma check_headers_injected:
  assumes L: "auth_lib_ok L" and "inject_auth_headers L (Some ts) nonce secret node md = Some (Inr md')"
    and node: "\<forall>c \<in> set node. visible_ascii c" and nonce: "\<forall>c \<in> set nonce. visible_ascii c"
    and "\<not> MAX_CLOCK_SKEW <s wrapping_abs (now - ts)"
  shows "check_headers L (Some now) secret md' = Inr nonce"
proof -
  obtain md1 mac where "inject_auth_headers L (Some ts) nonce secret node md = Some (Inr md1)"
    and h: "extract_header L md1 (lit ''x-pulse-node-id'') = Inr node"
    "extract_header L md1 (lit ''x-pulse-timestamp'') = Inr (show_i64 ts)"
    "nonce_of L md1 = Inr nonce"
    "extract_header L md1 (lit ''x-pulse-signature'') =
       Inr (al_hex_encode L (mac (utf8 (signed_message node ts nonce))))"
    and mac: "al_hmac L secret = Some mac"
    by (rule inject_auth_headers_ok [OF L node nonce])
  then have "md1 = md'" using assms(2) by simp
  with h mac assms(5) auth_lib_okD(2) [OF L] show ?thesis
    by (simp add: check_headers_Inr_iff verify_request_Inr_iff)
qed

lemma interceptor_call_accepts:
  assumes "check_headers L c (ai_secret ai) md = Inr n" "\<not> ai_poisoned ai"
    and "check_and_insert c' n (ai_seen_nonces ai) = (True, t)"
  shows "interceptor_call L c c' md ai = (Inr md, ai\<lparr>ai_seen_nonces := t\<rparr>)"
  using assms by (simp add: interceptor_call_def)

lemma check_and_insert_new:
  assumes "n \<notin> nt_nonces t"
  obtains t' where "check_and_insert c n t = (True, t')"
  using assms by (simp add: check_and_insert_def Let_def)

subsection \<open>An instance of the libraries\<close>

text \<open>
  A concrete \<open>auth_lib\<close> for the witnesses: hexadecimal as the crate documents it, header
  values as strings, and a keyed function in the place of HMAC.
\<close>

definition hex_char :: "nat \<Rightarrow> rchar" where
  "hex_char d = (if d < 10 then 48 + d else 87 + d)"

definition hex_val :: "rchar \<Rightarrow> nat option" where
  "hex_val c =
     (if 48 \<le> c \<and> c \<le> 57 then Some (c - 48)
      else if 97 \<le> c \<and> c \<le> 102 then Some (c - 87)
      else if 65 \<le> c \<and> c \<le> 70 then Some (c - 55) else None)"

fun demo_hex_encode :: "u8 list \<Rightarrow> rstr" where
  "demo_hex_encode [] = []"
| "demo_hex_encode (b # bs) = hex_char (unat b div 16) # hex_char (unat b mod 16) # demo_hex_encode bs"

fun demo_hex_decode :: "rstr \<Rightarrow> u8 list option" where
  "demo_hex_decode [] = Some []"
| "demo_hex_decode [c] = None"
| "demo_hex_decode (c # d # s) =
     (case (hex_val c, hex_val d, demo_hex_decode s) of
        (Some h, Some l, Some bs) \<Rightarrow> Some (word_of_nat (16 * h + l) # bs) | _ \<Rightarrow> None)"

definition demo_lib :: "rstr auth_lib" where
  "demo_lib =
     \<lparr>al_hmac = (\<lambda>k. Some (\<lambda>m. k @ m)), al_sha256 = (\<lambda>m. m),
      al_hex_encode = demo_hex_encode, al_hex_decode = demo_hex_decode,
      al_to_str = (\<lambda>v. if list_all visible_ascii v then Some v else None),
      al_parse_value = (\<lambda>s. if list_all visible_ascii s then Some s else None)\<rparr>"

lemma hex_val_hex_char: "d < 16 \<Longrightarrow> hex_val (hex_char d) = Some d"
  by (auto simp: hex_val_def hex_char_def)

lemma demo_hex_roundtrip: "demo_hex_decode (demo_hex_encode bs) = Some bs"
proof (induction bs)
  case Nil
  then show ?case by simp
next
  case (Cons b bs)
  have "unat b < 256" by (rule unat_u8_less)
  then have "unat b div 16 < 16" by simp
  with Cons show ?case by (simp add: hex_val_hex_char)
qed

lemma demo_hex_lower: "c \<in> set (demo_hex_encode bs) \<Longrightarrow> lower_hex_char c"
proof (induction bs)
  case (Cons b bs)
  have "unat b < 256" by (rule unat_u8_less)
  then have "unat b div 16 < 16" "unat b mod 16 < 16" by simp_all
  with Cons show ?case by (auto simp: lower_hex_char_def hex_char_def split: if_splits)
qed simp

lemma demo_lib_ok: "auth_lib_ok demo_lib"
  unfolding auth_lib_ok_def demo_lib_def
  by (simp add: demo_hex_roundtrip list_all_iff) (blast intro: demo_hex_lower)

definition demo_node :: rstr where
  "demo_node = lit ''node-01''"

text \<open>The headers the agent sends for \<open>demo_node\<close> at a given time with a given nonce.\<close>

definition demo_md :: "i64 \<Rightarrow> rstr \<Rightarrow> rstr metadata" where
  "demo_md ts nonce =
     (case inject_auth_headers demo_lib (Some ts) nonce [1, 2, 3] demo_node Map.empty of
        Some (Inr md) \<Rightarrow> md | _ \<Rightarrow> Map.empty)"

lemma demo_visible: "\<forall>c \<in> set demo_node. visible_ascii c"
  "\<forall>c \<in> set (lit ''aa''). visible_ascii c" "\<forall>c \<in> set (lit ''bb''). visible_ascii c"
  by (simp_all add: demo_node_def lit_def visible_ascii_def)

lemma demo_md_inject:
  assumes "\<forall>c \<in> set nonce. visible_ascii c"
  shows "inject_auth_headers demo_lib (Some ts) nonce [1, 2, 3] demo_node Map.empty =
    Some (Inr (demo_md ts nonce))" "nonce_of demo_lib (demo_md ts nonce) = Inr nonce"
proof -
  obtain md1 where
    i: "inject_auth_headers demo_lib (Some ts) nonce [1, 2, 3] demo_node Map.empty = Some (Inr md1)"
    and n: "nonce_of demo_lib md1 = Inr nonce"
    by (rule inject_auth_headers_ok [OF demo_lib_ok demo_visible(1) assms])
  then have "demo_md ts nonce = md1" by (simp add: demo_md_def)
  with i n show "inject_auth_headers demo_lib (Some ts) nonce [1, 2, 3] demo_node Map.empty =
      Some (Inr (demo_md ts nonce))" "nonce_of demo_lib (demo_md ts nonce) = Inr nonce"
    by simp_all
qed

lemma demo_md_checked:
  "\<forall>c \<in> set nonce. visible_ascii c \<Longrightarrow> \<bar>sint now - sint ts\<bar> \<le> 60 \<Longrightarrow>
   check_headers demo_lib (Some now) [1, 2, 3] (demo_md ts nonce) = Inr nonce"
  using check_headers_injected [OF demo_lib_ok demo_md_inject(1) demo_visible(1) _ fresh_within_skew]
  by blast

subsection \<open>Properties\<close>

text \<open>
  A request the agent signs is accepted by a server with the same secret. For every node
  id of visible ASCII characters and every generated nonce, header injection succeeds, and the
  interceptor passes the request on unchanged when the two clocks differ by at most sixty
  seconds and the nonce is not on record.
\<close>

theorem signed_request_accepted:
  assumes "auth_lib_ok L" "\<forall>c \<in> set node. visible_ascii c"
    and "nonce = generate_nonce L entropy nanos thread_id pid"
    and "\<bar>sint now - sint ts\<bar> \<le> 60"
    and "ai_secret ai = secret" "\<not> ai_poisoned ai" "nonce \<notin> nt_nonces (ai_seen_nonces ai)"
  shows "\<exists>md' ai'. inject_auth_headers L (Some ts) nonce secret node md = Some (Inr md') \<and>
           interceptor_call L (Some now) clock' md' ai = (Inr md', ai')"
proof -
  have nonce: "\<forall>c \<in> set nonce. visible_ascii c"
    using assms(1,3) by (simp add: generate_nonce_def hex_encode_visible)
  obtain md' where md': "inject_auth_headers L (Some ts) nonce secret node md = Some (Inr md')"
    by (rule inject_auth_headers_ok [OF assms(1,2) nonce])
  obtain t where t: "check_and_insert clock' nonce (ai_seen_nonces ai) = (True, t)"
    using check_and_insert_new [OF assms(7)] .
  have "check_headers L (Some now) (ai_secret ai) md' = Inr nonce"
    using check_headers_injected [OF assms(1) md' assms(2) nonce fresh_within_skew [OF assms(4)]]
    by (simp add: assms(5))
  from interceptor_call_accepts [OF this assms(6) t] md' show ?thesis by blast
qed

theorem signed_request_accepted_witness:
  "\<exists>md' ai'. inject_auth_headers demo_lib (Some 1000)
        (generate_nonce demo_lib (Some [7, 8]) 0 [] 0) [1, 2, 3] demo_node Map.empty = Some (Inr md') \<and>
     interceptor_call demo_lib (Some 1060) (Some 1060) md' (auth_interceptor_new (Some 900) [1, 2, 3]) =
       (Inr md', ai')"
  by (rule signed_request_accepted [OF demo_lib_ok demo_visible(1) refl])
    (simp_all add: auth_interceptor_new_def nonce_tracker_new_def)

text \<open>
  C2: an accepted request is authentic. Whenever the interceptor passes a request on, it is
  the request it was given, all four headers are present, the timestamp is a decimal integer
  within the window, the signature is the HMAC under the server's secret of exactly the node
  id, timestamp and nonce of the headers, and the nonce is recorded.
\<close>

theorem accepted_request_is_authentic:
  assumes "interceptor_call L clock clock' md ai = (Inr md', ai')"
  shows "md' = md \<and>
    (\<exists>node ts_str ts nonce sig now mac.
       extract_header L md (lit ''x-pulse-node-id'') = Inr node \<and>
       extract_header L md (lit ''x-pulse-timestamp'') = Inr ts_str \<and> parse_i64 ts_str = Some ts \<and>
       extract_header L md (lit ''x-pulse-nonce'') = Inr nonce \<and>
       extract_header L md (lit ''x-pulse-signature'') = Inr sig \<and>
       clock = Some now \<and> \<not> MAX_CLOCK_SKEW <s wrapping_abs (now - ts) \<and>
       al_hmac L (ai_secret ai) = Some mac \<and>
       al_hex_decode L sig = Some (mac (utf8 (signed_message node ts nonce))) \<and>
       nonce \<in> nt_nonces (ai_seen_nonces ai'))"
  using assms
proof (cases rule: interceptor_call_cases)
  case (checked n b t)
  from checked(4,5) have "n \<in> nt_nonces (ai_seen_nonces ai')"
    by (auto simp: check_and_insert_def Let_def)
  with checked show ?thesis
    by (auto simp: check_headers_Inr_iff verify_request_Inr_iff split: if_splits)
qed simp_all

theorem accepted_request_is_authentic_witness:
  "\<exists>ai' ts nonce sig mac.
     interceptor_call demo_lib (Some 1001) (Some 1001) (demo_md 1000 (lit ''aa''))
       (auth_interceptor_new (Some 900) [1, 2, 3]) = (Inr (demo_md 1000 (lit ''aa'')), ai') \<and>
     extract_header demo_lib (demo_md 1000 (lit ''aa'')) (lit ''x-pulse-signature'') = Inr sig \<and>
     al_hmac demo_lib [1, 2, 3] = Some mac \<and> \<not> MAX_CLOCK_SKEW <s wrapping_abs (1001 - ts) \<and>
     nonce \<in> nt_nonces (ai_seen_nonces ai')"
proof -
  let ?ai = "auth_interceptor_new (Some 900) [1, 2, 3]"
  have "lit ''aa'' \<notin> nt_nonces (ai_seen_nonces ?ai)"
    by (simp add: auth_interceptor_new_def nonce_tracker_new_def)
  then obtain t where "check_and_insert (Some 1001) (lit ''aa'') (ai_seen_nonces ?ai) = (True, t)"
    by (rule check_and_insert_new)
  moreover have "check_headers demo_lib (Some 1001) (ai_secret ?ai) (demo_md 1000 (lit ''aa'')) =
      Inr (lit ''aa'')"
    using demo_md_checked [OF demo_visible(2), of 1001 1000]
    by (simp add: auth_interceptor_new_def)
  ultimately have "interceptor_call demo_lib (Some 1001) (Some 1001) (demo_md 1000 (lit ''aa'')) ?ai =
      (Inr (demo_md 1000 (lit ''aa'')), ?ai\<lparr>ai_seen_nonces := t\<rparr>)"
    by (intro interceptor_call_accepts) (simp_all add: auth_interceptor_new_def)
  moreover have "ai_secret ?ai = [1, 2, 3]" by (simp add: auth_interceptor_new_def)
  ultimately show ?thesis
    using accepted_request_is_authentic [OF \<open>interceptor_call _ _ _ _ _ = _\<close>]
    by (metis option.inject)
qed

text \<open>
  C15: an interceptor that answers a sequence of requests passes no nonce on twice, whatever
  the requests are, as long as the tracker is not due for a purge at any of them (at most 120
  seconds since it was made or last purged).
\<close>

theorem shared_interceptor_no_replay:
  assumes "interceptor_run L rs ai = (out, ai')"
    and "\<forall>(c, c', md) \<in> set rs. purge_not_due c' (ai_seen_nonces ai)"
    and "i < j" "j < length rs" "out ! i = Inr m1" "out ! j = Inr m2"
  shows "extract_header L (snd (snd (rs ! i))) (lit ''x-pulse-nonce'') \<noteq>
         extract_header L (snd (snd (rs ! j))) (lit ''x-pulse-nonce'')"
  using interceptor_run_no_replay [OF assms] .

lemma demo_call:
  assumes "\<forall>c \<in> set nonce. visible_ascii c" "\<bar>sint now - sint ts\<bar> \<le> 60"
    and "ai_secret ai = [1, 2, 3]" "\<not> ai_poisoned ai"
    and "purge_not_due (Some now) (ai_seen_nonces ai)" "nonce \<notin> nt_nonces (ai_seen_nonces ai)"
  shows "interceptor_call demo_lib (Some now) (Some now) (demo_md ts nonce) ai =
    (Inr (demo_md ts nonce),
     ai\<lparr>ai_seen_nonces := (ai_seen_nonces ai)\<lparr>nt_nonces := insert nonce (nt_nonces (ai_seen_nonces ai))\<rparr>\<rparr>)"
  using demo_md_checked [OF assms(1,2)] assms(3-6)
  by (simp add: interceptor_call_def check_and_insert_def purge_not_due_def Let_def)

theorem shared_interceptor_no_replay_witness:
  "extract_header demo_lib (demo_md 1000 (lit ''aa'')) (lit ''x-pulse-nonce'') \<noteq>
   extract_header demo_lib (demo_md 1000 (lit ''bb'')) (lit ''x-pulse-nonce'')"
proof -
  let ?ai = "auth_interceptor_new (Some 990) [1, 2, 3]"
  let ?rs = "[(Some 1000, Some 1000, demo_md 1000 (lit ''aa'')),
              (Some 1001, Some 1001, demo_md 1000 (lit ''bb''))]"
  have ai: "ai_secret ?ai = [1, 2, 3]" "\<not> ai_poisoned ?ai"
    "ai_seen_nonces ?ai = \<lparr>nt_nonces = {}, nt_last_purge = 990\<rparr>"
    by (simp_all add: auth_interceptor_new_def nonce_tracker_new_def epoch_secs_def)
  have ne: "lit ''bb'' \<noteq> lit ''aa''" by (simp add: lit_def)
  have due: "purge_not_due (Some 1000) (ai_seen_nonces ?ai)" "purge_not_due (Some 1001) (ai_seen_nonces ?ai)"
    by (simp_all add: ai purge_not_due_def epoch_secs_def MAX_CLOCK_SKEW_def)
  have "\<exists>ai'. interceptor_run demo_lib ?rs ?ai =
      ([Inr (demo_md 1000 (lit ''aa'')), Inr (demo_md 1000 (lit ''bb''))], ai')"
    using ne due by (simp add: demo_call demo_visible ai purge_not_due_def)
  then obtain ai' where run: "interceptor_run demo_lib ?rs ?ai =
      ([Inr (demo_md 1000 (lit ''aa'')), Inr (demo_md 1000 (lit ''bb''))], ai')" by blast
  show ?thesis
    using shared_interceptor_no_replay [OF run, of 0 1] due by simp
qed

text \<open>
  C35: the freshness window. For a server clock between 1970 and the year 146 billion a
  timestamp passes the drift check exactly when it is within sixty seconds of the clock or is
  the one value \<open>now - 2\<^sup>6\<^sup>3\<close>, for which the subtraction and \<open>abs\<close> both wrap around and
  the drift comes out negative.
\<close>

theorem freshness_window:
  assumes "0 \<le> sint now" "sint now < 2 ^ 62" "auth_lib_ok L"
  shows "(\<exists>drift mx. verify_request L (Some now) secret node ts nonce sig =
            Inl (ExpiredTimestamp drift mx)) \<longleftrightarrow>
         \<not> (\<bar>sint now - sint ts\<bar> \<le> 60 \<or> sint ts = sint now - 2 ^ 63)"
proof -
  obtain mac where "al_hmac L secret = Some mac" using auth_lib_okD(1) [OF assms(3)] by blast
  then have "(\<exists>drift mx. verify_request L (Some now) secret node ts nonce sig =
      Inl (ExpiredTimestamp drift mx)) \<longleftrightarrow> MAX_CLOCK_SKEW <s wrapping_abs (now - ts)"
    by (cases "al_hex_decode L sig") (auto simp: verify_request_def Let_def)
  with drift_accepts_iff [OF assms(1,2), of ts] show ?thesis by blast
qed

theorem freshness_window_witness:
  "(\<exists>drift mx. verify_request demo_lib (Some 1700000000) [1] demo_node 1699999939 [] [] =
      Inl (ExpiredTimestamp drift mx)) \<and>
   \<not> (\<exists>drift mx. verify_request demo_lib (Some 1700000000) [1] demo_node (1700000000 - 2 ^ 63) [] [] =
      Inl (ExpiredTimestamp drift mx))"
proof
  show "\<exists>drift mx. verify_request demo_lib (Some 1700000000) [1] demo_node 1699999939 [] [] =
      Inl (ExpiredTimestamp drift mx)"
    by (subst freshness_window [OF _ _ demo_lib_ok]) simp_all
  show "\<not> (\<exists>drift mx. verify_request demo_lib (Some 1700000000) [1] demo_node (1700000000 - 2 ^ 63) [] [] =
      Inl (ExpiredTimestamp drift mx))"
    by (subst freshness_window [OF _ _ demo_lib_ok]) simp_all
qed

text \<open>
  The purge forgets nonces that are still fresh. A tracker made at \<open>t0\<close> is cleared by the
  first request after \<open>t0 + 120\<close>, so a request accepted at \<open>t0 + 120\<close> is accepted a second
  time one second later, although its timestamp is only one second old.
\<close>

theorem purge_readmits_fresh_nonce:
  assumes "check_headers L (Some (t0 + 120)) secret md = Inr nonce"
    and "check_headers L (Some (t0 + 121)) secret md = Inr nonce"
    and "ai = auth_interceptor_new (Some t0) secret"
  shows "fst (interceptor_run L [(Some (t0 + 120), Some (t0 + 120), md),
                                 (Some (t0 + 121), Some (t0 + 121), md)] ai) = [Inr md, Inr md]"
proof -
  have "\<not> (120 :: i64) <s 120" "(120 :: i64) <s 121" by simp_all
  with assms show ?thesis
    by (simp add: interceptor_call_def check_and_insert_def auth_interceptor_new_def
        nonce_tracker_new_def epoch_secs_def MAX_CLOCK_SKEW_def Let_def)
qed

theorem purge_readmits_fresh_nonce_witness:
  "fst (interceptor_run demo_lib
     [(Some (1000 + 120), Some (1000 + 120), demo_md 1120 (lit ''aa'')),
      (Some (1000 + 121), Some (1000 + 121), demo_md 1120 (lit ''aa''))]
     (auth_interceptor_new (Some 1000) [1, 2, 3])) =
   [Inr (demo_md 1120 (lit ''aa'')), Inr (demo_md 1120 (lit ''aa''))]"
  by (rule purge_readmits_fresh_nonce [OF _ _ refl]; rule demo_md_checked [OF demo_visible(2)]; simp)

text \<open>
  For node ids without a colon the signed text determines the node id, the timestamp and
  the nonce, so no two different requests of such nodes share a signed text.
\<close>

theorem signed_message_unambiguous:
  assumes "58 \<notin> set node" "58 \<notin> set node'"
  shows "signed_message node ts nonce = signed_message node' ts' nonce' \<longleftrightarrow>
         node = node' \<and> ts = ts' \<and> nonce = nonce'"
  using signed_message_inj [OF assms] by blast

theorem signed_message_unambiguous_witness:
  "signed_message (lit ''a'') 1 (lit ''x'') \<noteq> signed_message (lit ''b'') 1 (lit ''x'')"
  using signed_message_unambiguous [of "lit ''a''" "lit ''b''" 1 "lit ''x''" 1 "lit ''x''"]
  by (simp add: lit_def)

text \<open>
  A colon in a node id makes the signed text ambiguous. A signature made for the node
  \<open>node:t1\<close> at time \<open>t2\<close> verifies just as well for the node \<open>node\<close> at time \<open>t1\<close> with a
  nonce that starts with \<open>t2\<close>, as long as both times are in the window.
\<close>

theorem colon_in_node_id_moves_signature:
  assumes "\<not> MAX_CLOCK_SKEW <s wrapping_abs (now - t1)"
    and "verify_request L (Some now) secret (node @ lit '':'' @ show_i64 t1) t2 nonce sig = Inr ()"
  shows "verify_request L (Some now) secret node t1 (show_i64 t2 @ lit '':'' @ nonce) sig = Inr ()"
  using assms by (simp add: verify_request_Inr_iff signed_message_def)

theorem colon_in_node_id_moves_signature_witness:
  "verify_request demo_lib (Some 1000) [1] (lit ''a'') 1000 (show_i64 1001 @ lit '':'' @ lit ''n'')
     (demo_hex_encode ([1] @ utf8 (signed_message (lit ''a:1000'') 1001 (lit ''n'')))) = Inr ()"
proof (rule colon_in_node_id_moves_signature)
  show "\<not> MAX_CLOCK_SKEW <s wrapping_abs (1000 - 1000)"
    by (rule fresh_within_skew) simp
  have node: "lit ''a'' @ lit '':'' @ show_i64 1000 = lit ''a:1000''"
    by (simp add: lit_def show_i64_def show_int_def show_nat.simps)
  have "\<not> MAX_CLOCK_SKEW <s wrapping_abs (1000 - 1001 :: i64)"
    by (rule fresh_within_skew) simp
  then show "verify_request demo_lib (Some 1000) [1] (lit ''a'' @ lit '':'' @ show_i64 1000) 1001 (lit ''n'')
      (demo_hex_encode ([1] @ utf8 (signed_message (lit ''a:1000'') 1001 (lit ''n'')))) = Inr ()"
    unfolding node by (simp add: verify_request_Inr_iff demo_lib_def demo_hex_roundtrip del: demo_hex_encode.simps)
qed

end
