(* ===== verification/Pulse_Grpc.thy ===== *)
theory Pulse_Grpc
  imports Pulse_State Pulse_Auth
begin

text \<open>
  src/pulse-server/src/grpc.rs: the telemetry stream of one agent. \<open>stream_open\<close> is the part of
  \<open>stream_telemetry\<close> before the task is spawned, \<open>stream_loop\<close> the task: a loop over the inbound
  messages that ends when the stream ends, at a receive error, at a spoofed node id or when the
  agent is gone. The commands for the agent go through a channel of 32 places, \<open>sk_cmds\<close>, into which the
  acknowledgement of a heartbeat is sent with an await: \<open>handle_event\<close> is the part of an iteration up
  to that await, with the acknowledgement to be sent in \<open>sk_ack\<close>, and \<open>send_ack\<close> the await itself, which
  does not return (\<open>None\<close>) while the 32 places are taken. The inbound stream is a list of events; each
  carries the clock reading of its handling, how many commands the agent takes out of the channel until
  the handling is over, and whether it has dropped the command stream by then. A result \<open>None\<close> of the
  other functions is a panic.
\<close>

subsection \<open>Definitions\<close>

record stream_event =
  se_msg :: "telemetry_message option"
  se_now_ms :: i64
  se_reads :: nat
  se_client_gone :: bool

datatype flow = Continue | Break

record 'j stream_task =
  sk_state :: "'j app_state"
  sk_cmds :: "server_command list"
  sk_ack :: "server_command option"

definition stream_open :: "'v auth_lib \<Rightarrow> 'v metadata \<Rightarrow> status + rstr" where
  "stream_open L md =
     (case md (lit ''x-pulse-node-id'') of
        Some val \<Rightarrow>
          (case al_to_str L val of
             Some s \<Rightarrow> Inr s
           | None \<Rightarrow> Inl (Unauthenticated (lit ''invalid x-pulse-node-id header'')))
      | None \<Rightarrow> Inl (Unauthenticated (lit ''missing x-pulse-node-id header'')))"

definition count_metric :: "(metrics \<Rightarrow> metrics) \<Rightarrow> 'j app_state \<Rightarrow> 'j app_state" where
  "count_metric f st = st\<lparr>as_metrics := f (as_metrics st)\<rparr>"

definition handle_stats ::
  "'j json_lib \<Rightarrow> (rstr \<Rightarrow> u64) \<Rightarrow> rstr \<Rightarrow> node_stats \<Rightarrow> 'j app_state \<Rightarrow> (flow \<times> 'j app_state) option" where
  "handle_stats J hash auth_node_id stats st =
     (if ns_node_id stats \<noteq> auth_node_id
      then Some (Break, count_metric (inc_auth_failure (lit ''grpc'') (lit ''node_id_spoofing'')) st)
      else
        (let st = count_metric (inc_grpc_message auth_node_id (lit ''stats'')) st;
             timestamp_ms = ns_timestamp_ms stats
         in case jl_stats_to_value J (stats_serializable_from stats) of
              None \<Rightarrow> Some (Continue, st)
            | Some stats_json \<Rightarrow>
                (let stats_str = jl_to_string J stats_json;
                     st = st\<lparr>as_nodes := (as_nodes st)(auth_node_id \<mapsto>
                       \<lparr>nf_node_id = auth_node_id, nf_hostname = auth_node_id,
                        nf_last_seen_ms = timestamp_ms, nf_status = Online,
                        nf_latest_stats = Some stats_json\<rparr>)\<rparr>;
                     item = IStats auth_node_id timestamp_ms stats_str stats_json
                 in case send_to_worker hash auth_node_id item st of
                      None \<Rightarrow> None
                    | Some st \<Rightarrow> Some (Continue, broadcast_send
                        \<lparr>nu_node_id = auth_node_id, nu_timestamp_ms = timestamp_ms, nu_stats = stats_json\<rparr> st))))"

definition handle_heartbeat ::
  "i64 \<Rightarrow> rstr \<Rightarrow> heartbeat \<Rightarrow> 'j stream_task \<Rightarrow> flow \<times> 'j stream_task" where
  "handle_heartbeat now_ms auth_node_id hb t =
     (if hb_node_id hb \<noteq> auth_node_id
      then (Break, t\<lparr>sk_state := count_metric (inc_auth_failure (lit ''grpc'') (lit ''node_id_spoofing'')) (sk_state t)\<rparr>)
      else
        (let st = count_metric (inc_grpc_message auth_node_id (lit ''heartbeat'')) (sk_state t);
             st = (case as_nodes st auth_node_id of
                     None \<Rightarrow> st
                   | Some entry \<Rightarrow> st\<lparr>as_nodes := (as_nodes st)(auth_node_id \<mapsto>
                       entry\<lparr>nf_last_seen_ms := hb_timestamp_ms hb, nf_status := Online\<rparr>)\<rparr>);
             ack = Some (HeartbeatAck now_ms)
         in (Continue, t\<lparr>sk_state := st, sk_ack := Some ack\<rparr>)))"

text \<open>
  \<open>cmd_tx.send(Ok(ack)).await\<close>: an error when the receiver is gone, otherwise a place in the channel,
  which has to be free.
\<close>

definition cmd_capacity :: nat where
  "cmd_capacity = 32"

definition send_ack :: "bool \<Rightarrow> 'j stream_task \<Rightarrow> (flow \<times> 'j stream_task) option" where
  "send_ack client_gone t =
     (case sk_ack t of
        None \<Rightarrow> Some (Continue, t)
      | Some ack \<Rightarrow>
          if client_gone then Some (Break, t\<lparr>sk_ack := None\<rparr>)
          else if length (sk_cmds t) < cmd_capacity
               then Some (Continue, t\<lparr>sk_cmds := sk_cmds t @ [ack], sk_ack := None\<rparr>)
               else None)"

definition agent_reads :: "nat \<Rightarrow> 'j stream_task \<Rightarrow> 'j stream_task" where
  "agent_reads n t = t\<lparr>sk_cmds := drop n (sk_cmds t)\<rparr>"

definition handle_probe_result ::
  "(rstr \<Rightarrow> u64) \<Rightarrow> i64 \<Rightarrow> rstr \<Rightarrow> probe_result \<Rightarrow> 'j app_state \<Rightarrow> 'j app_state option" where
  "handle_probe_result hash now_ms auth_node_id probe st =
     (let st = count_metric (inc_grpc_message auth_node_id (lit ''probe_result'')) st;
          item = IProbe auth_node_id (pr_target probe) (pr_success probe) (pr_latency_us probe)
                   (pr_error_message probe) now_ms
      in send_to_worker hash auth_node_id item st)"

definition handle_event ::
  "'j json_lib \<Rightarrow> (rstr \<Rightarrow> u64) \<Rightarrow> rstr \<Rightarrow> stream_event \<Rightarrow> 'j stream_task \<Rightarrow> (flow \<times> 'j stream_task) option" where
  "handle_event J hash auth_node_id e t =
     (case se_msg e of
        None \<Rightarrow> Some (Break, t)
      | Some None \<Rightarrow> Some (Continue, t)
      | Some (Some (PStats stats)) \<Rightarrow>
          (case handle_stats J hash auth_node_id stats (sk_state t) of
             None \<Rightarrow> None
           | Some (fl, st) \<Rightarrow> Some (fl, t\<lparr>sk_state := st\<rparr>))
      | Some (Some (PHeartbeat hb)) \<Rightarrow>
          Some (handle_heartbeat (se_now_ms e) auth_node_id hb t)
      | Some (Some (PProbeResult probe)) \<Rightarrow>
          (case handle_probe_result hash (se_now_ms e) auth_node_id probe (sk_state t) of
             None \<Rightarrow> None
           | Some st \<Rightarrow> Some (Continue, t\<lparr>sk_state := st\<rparr>)))"

text \<open>The loop over the inbound messages. A send that never gets a place keeps the task from reading on.\<close>

fun stream_loop ::
  "'j json_lib \<Rightarrow> (rstr \<Rightarrow> u64) \<Rightarrow> rstr \<Rightarrow> stream_event list \<Rightarrow> 'j stream_task \<Rightarrow> 'j stream_task option" where
  "stream_loop J hash auth_node_id [] t = Some t"
| "stream_loop J hash auth_node_id (e # es) t =
     (case handle_event J hash auth_node_id e t of
        None \<Rightarrow> None
      | Some (Break, t) \<Rightarrow> Some t
      | Some (Continue, t) \<Rightarrow>
          (let t = agent_reads (se_reads e) t in
           case send_ack (se_client_gone e) t of
             None \<Rightarrow> Some t
           | Some (Break, t) \<Rightarrow> Some t
           | Some (Continue, t) \<Rightarrow> stream_loop J hash auth_node_id es t))"

text \<open>The whole call: the headers are read, then the task runs on the inbound messages.\<close>

definition stream_telemetry ::
  "'v auth_lib \<Rightarrow> 'j json_lib \<Rightarrow> (rstr \<Rightarrow> u64) \<Rightarrow> 'v metadata \<Rightarrow> stream_event list \<Rightarrow> 'j app_state \<Rightarrow>
   (status + 'j stream_task) option" where
  "stream_telemetry L J hash md inbound st =
     (case stream_open L md of
        Inl s \<Rightarrow> Some (Inl s)
      | Inr auth_node_id \<Rightarrow>
          map_option Inr (stream_loop J hash auth_node_id inbound \<lparr>sk_state = st, sk_cmds = [], sk_ack = None\<rparr>))"

subsection \<open>Specification\<close>

text \<open>
  What a stream of node \<open>a\<close> may do to the server: the registry changes at \<open>a\<close> only, where the
  entry carries the id \<open>a\<close>; updates of \<open>a\<close> are broadcast after those already sent; items of \<open>a\<close>
  are appended to queues; the tables are not touched.
\<close>

definition only_node :: "rstr \<Rightarrow> 'j app_state \<Rightarrow> 'j app_state \<Rightarrow> bool" where
  "only_node a st st' \<longleftrightarrow>
     (\<forall>n. n \<noteq> a \<longrightarrow> as_nodes st' n = as_nodes st n) \<and>
     (\<exists>us. as_broadcast st' = as_broadcast st @ us \<and> (\<forall>u \<in> set us. nu_node_id u = a)) \<and>
     length (as_worker_txs st') = length (as_worker_txs st) \<and>
     (\<forall>i < length (as_worker_txs st). \<exists>xs.
        ch_queue (as_worker_txs st' ! i) = ch_queue (as_worker_txs st ! i) @ xs \<and>
        (\<forall>x \<in> set xs. ii_node_id x = a)) \<and>
     as_db st' = as_db st"

definition registry_ok :: "'j app_state \<Rightarrow> bool" where
  "registry_ok st \<longleftrightarrow> finite (dom (as_nodes st)) \<and> (\<forall>k n. as_nodes st k = Some n \<longrightarrow> nf_node_id n = k)"

definition spoofed :: "rstr \<Rightarrow> stream_event \<Rightarrow> bool" where
  "spoofed a e \<longleftrightarrow>
     (case se_msg e of
        Some (Some (PStats s)) \<Rightarrow> ns_node_id s \<noteq> a
      | Some (Some (PHeartbeat h)) \<Rightarrow> hb_node_id h \<noteq> a
      | _ \<Rightarrow> False)"

subsection \<open>Lemmas\<close>

lemma count_metric_simps [simp]:
  "as_db (count_metric f st) = as_db st" "as_nodes (count_metric f st) = as_nodes st"
  "as_broadcast (count_metric f st) = as_broadcast st" "as_worker_txs (count_metric f st) = as_worker_txs st"
  "as_metrics (count_metric f st) = f (as_metrics st)"
  by (simp_all add: count_metric_def)

lemma inc_auth_failure_eq: "inc_auth_failure c r m = m\<lparr>AUTH_FAILURES := incr (c, r) (AUTH_FAILURES m)\<rparr>"
  by (cases m) (simp add: inc_auth_failure_def)

lemma only_node_refl [simp]: "only_node a st st"
  by (auto simp: only_node_def)

lemma only_node_trans:
  assumes "only_node a st st'" "only_node a st' st''"
  shows "only_node a st st''"
proof -
  have q: "\<exists>xs. ch_queue (as_worker_txs st'' ! i) = ch_queue (as_worker_txs st ! i) @ xs \<and>
        (\<forall>x \<in> set xs. ii_node_id x = a)" if "i < length (as_worker_txs st)" for i
  proof -
    from assms(1) that obtain xs where "ch_queue (as_worker_txs st' ! i) = ch_queue (as_worker_txs st ! i) @ xs"
      "\<forall>x \<in> set xs. ii_node_id x = a" by (auto simp: only_node_def)
    moreover from assms that obtain ys where "ch_queue (as_worker_txs st'' ! i) = ch_queue (as_worker_txs st' ! i) @ ys"
      "\<forall>x \<in> set ys. ii_node_id x = a" by (auto simp: only_node_def)
    ultimately show ?thesis by (intro exI [of _ "xs @ ys"]) auto
  qed
  moreover from assms obtain us vs where "as_broadcast st' = as_broadcast st @ us" "\<forall>u \<in> set us. nu_node_id u = a"
    "as_broadcast st'' = as_broadcast st' @ vs" "\<forall>u \<in> set vs. nu_node_id u = a" by (auto simp: only_node_def)
  then have "\<exists>ws. as_broadcast st'' = as_broadcast st @ ws \<and> (\<forall>u \<in> set ws. nu_node_id u = a)"
    by (intro exI [of _ "us @ vs"]) auto
  ultimately show ?thesis using assms by (simp add: only_node_def)
qed

lemma only_node_same:
  "as_broadcast st' = as_broadcast st \<Longrightarrow> as_worker_txs st' = as_worker_txs st \<Longrightarrow> as_db st' = as_db st \<Longrightarrow>
   (\<And>n. n \<noteq> a \<Longrightarrow> as_nodes st' n = as_nodes st n) \<Longrightarrow> only_node a st st'"
  by (auto simp: only_node_def)

lemma send_to_worker_only_node:
  assumes "send_to_worker hash a x st = Some st'" "ii_node_id x = a"
  shows "only_node a st st' \<and> as_nodes st' = as_nodes st \<and> as_broadcast st' = as_broadcast st"
proof -
  have ne: "as_worker_txs st \<noteq> []" using assms(1) send_to_worker_None_iff [of hash a x st] by auto
  let ?i = "unat (hash a) mod length (as_worker_txs st)"
  have "\<exists>xs. ch_queue ((as_worker_txs st)[?i := snd (try_send x (as_worker_txs st ! ?i))] ! j) =
          ch_queue (as_worker_txs st ! j) @ xs \<and> (\<forall>y \<in> set xs. ii_node_id y = a)"
    if "j < length (as_worker_txs st)" for j
    using that assms(2) by (cases "?i = j") (auto simp: try_send_def)
  with assms(1) show ?thesis
    by (auto simp: send_to_worker_cases [OF ne] only_node_def split: if_splits)
qed

lemma broadcast_only_node:
  "nu_node_id u = a \<Longrightarrow> only_node a st (broadcast_send u st)"
  by (auto simp: only_node_def broadcast_send_def)

lemma handle_stats_only_node:
  assumes "handle_stats J hash a s st = Some (fl, st')"
  shows "only_node a st st'"
proof (cases "ns_node_id s = a")
  case False
  with assms show ?thesis by (auto simp: handle_stats_def intro: only_node_same)
next
  case True
  let ?st = "count_metric (inc_grpc_message a (lit ''stats'')) st"
  show ?thesis
  proof (cases "jl_stats_to_value J (stats_serializable_from s)")
    case None
    with True assms show ?thesis by (auto simp: handle_stats_def Let_def intro: only_node_same)
  next
    case (Some v)
    let ?st1 = "?st\<lparr>as_nodes := (as_nodes ?st)(a \<mapsto> \<lparr>nf_node_id = a, nf_hostname = a,
       nf_last_seen_ms = ns_timestamp_ms s, nf_status = Online, nf_latest_stats = Some v\<rparr>)\<rparr>"
    from Some True assms obtain st2 where
      send: "send_to_worker hash a (IStats a (ns_timestamp_ms s) (jl_to_string J v) v) ?st1 = Some st2"
      and st': "st' = broadcast_send \<lparr>nu_node_id = a, nu_timestamp_ms = ns_timestamp_ms s, nu_stats = v\<rparr> st2"
      by (auto simp: handle_stats_def Let_def split: option.splits)
    have "only_node a st ?st1" by (rule only_node_same) simp_all
    moreover have "only_node a ?st1 st2" using send_to_worker_only_node [OF send] by simp
    moreover have "only_node a st2 st'" unfolding st' by (rule broadcast_only_node) simp
    ultimately show ?thesis by (blast intro: only_node_trans)
  qed
qed

lemma handle_heartbeat_only_node: "only_node a (sk_state t) (sk_state (snd (handle_heartbeat now a hb t)))"
  by (rule only_node_same) (auto simp: handle_heartbeat_def Let_def split: option.split)

lemma handle_probe_only_node:
  assumes "handle_probe_result hash now a p st = Some st'"
  shows "only_node a st st'"
proof -
  let ?st = "count_metric (inc_grpc_message a (lit ''probe_result'')) st"
  have "only_node a st ?st" by (rule only_node_same) simp_all
  moreover have "only_node a ?st st'"
    using assms send_to_worker_only_node by (fastforce simp: handle_probe_result_def Let_def)
  ultimately show ?thesis by (rule only_node_trans)
qed

lemma handle_event_only_node:
  "handle_event J hash a e t = Some (fl, t') \<Longrightarrow> only_node a (sk_state t) (sk_state t')"
  using handle_heartbeat_only_node [of a t "se_now_ms e"]
  by (auto simp: handle_event_def dest: handle_stats_only_node handle_probe_only_node
      split: option.splits client_payload.splits) (metis snd_conv)

lemma send_ack_state: "send_ack gone t = Some (fl, t') \<Longrightarrow> sk_state t' = sk_state t"
  by (auto simp: send_ack_def split: option.splits if_splits)

lemma agent_reads_simps [simp]:
  "sk_state (agent_reads n t) = sk_state t" "sk_ack (agent_reads n t) = sk_ack t" "sk_cmds (agent_reads n t) = drop n (sk_cmds t)"
  by (simp_all add: agent_reads_def)

text \<open>What one iteration of the loop does, after which the loop goes on or not.\<close>

lemma stream_loop_Cons:
  assumes "handle_event J hash a e t = Some (fl, t')"
  shows "\<exists>t2. sk_state t2 = sk_state t' \<and> stream_loop J hash a (e # es) t \<in> {Some t2, stream_loop J hash a es t2}"
proof (cases "send_ack (se_client_gone e) (agent_reads (se_reads e) t')")
  case None
  with assms show ?thesis by (cases fl) (auto simp: Let_def intro: agent_reads_simps(1))
next
  case (Some r)
  obtain fl2 t2 where r: "r = (fl2, t2)" by (cases r)
  with Some send_ack_state have "sk_state t2 = sk_state t'" by fastforce
  with assms Some r show ?thesis by (cases fl; cases fl2) auto
qed

lemma stream_loop_only_node:
  "stream_loop J hash a es t = Some t' \<Longrightarrow> only_node a (sk_state t) (sk_state t')"
proof (induction es arbitrary: t)
  case (Cons e es)
  then obtain fl t1 where e: "handle_event J hash a e t = Some (fl, t1)" by (auto split: option.splits)
  from stream_loop_Cons [OF e, of es] Cons.prems obtain t2 where
    t2: "sk_state t2 = sk_state t1" "t2 = t' \<or> stream_loop J hash a es t2 = Some t'" by auto
  then have "only_node a (sk_state t1) (sk_state t')" using Cons.IH [of t2] by auto
  with handle_event_only_node [OF e] show ?case by (rule only_node_trans)
qed simp

lemma handle_event_total:
  assumes "as_worker_txs (sk_state t) \<noteq> []"
  shows "\<exists>fl t'. handle_event J hash a e t = Some (fl, t')"
proof -
  have "handle_stats J hash a s (sk_state t) \<noteq> None" for s
    using assms by (auto simp: handle_stats_def Let_def send_to_worker_None_iff split: option.split)
  moreover have "handle_probe_result hash now a p (sk_state t) \<noteq> None" for now p
    using assms by (simp add: handle_probe_result_def Let_def send_to_worker_None_iff)
  ultimately show ?thesis
    by (auto simp: handle_event_def split: option.split client_payload.split) (metis option.distinct(1))+
qed

lemma only_node_workers: "only_node a st st' \<Longrightarrow> as_worker_txs st \<noteq> [] \<Longrightarrow> as_worker_txs st' \<noteq> []"
  unfolding only_node_def by (metis length_0_conv)

lemma stream_loop_total:
  assumes "as_worker_txs (sk_state t) \<noteq> []"
  shows "\<exists>t'. stream_loop J hash a es t = Some t'"
  using assms
proof (induction es arbitrary: t)
  case (Cons e es)
  from handle_event_total [OF Cons.prems] obtain fl t' where e: "handle_event J hash a e t = Some (fl, t')"
    by blast
  with handle_event_only_node Cons.prems only_node_workers have "as_worker_txs (sk_state t') \<noteq> []" by blast
  with Cons.IH stream_loop_Cons [OF e, of es] show ?case by auto
qed simp

lemma spoofed_event:
  assumes "spoofed a e"
  shows "handle_event J hash a e t =
    Some (Break, t\<lparr>sk_state := count_metric (inc_auth_failure (lit ''grpc'') (lit ''node_id_spoofing'')) (sk_state t)\<rparr>)"
  using assms
  by (auto simp: spoofed_def handle_event_def handle_stats_def handle_heartbeat_def
      split: option.splits client_payload.splits)

text \<open>A stream whose events all continue runs to its end; the events after it are handled next.\<close>

fun runs_through :: "'j json_lib \<Rightarrow> (rstr \<Rightarrow> u64) \<Rightarrow> rstr \<Rightarrow> stream_event list \<Rightarrow> 'j stream_task \<Rightarrow> 'j stream_task option" where
  "runs_through J hash a [] t = Some t"
| "runs_through J hash a (e # es) t =
     (case handle_event J hash a e t of
        Some (Continue, t) \<Rightarrow>
          (case send_ack (se_client_gone e) (agent_reads (se_reads e) t) of
             Some (Continue, t) \<Rightarrow> runs_through J hash a es t | _ \<Rightarrow> None)
      | _ \<Rightarrow> None)"

lemma stream_loop_append:
  "runs_through J hash a es t = Some t' \<Longrightarrow> stream_loop J hash a (es @ fs) t = stream_loop J hash a fs t'"
  by (induction es arbitrary: t) (auto split: option.splits flow.splits prod.splits)

lemma registry_ok_upd:
  "registry_ok st \<Longrightarrow> nf_node_id n = a \<Longrightarrow> as_nodes st' = (as_nodes st)(a \<mapsto> n) \<Longrightarrow> registry_ok st'"
  by (auto simp: registry_ok_def)

lemma registry_ok_same: "registry_ok st \<Longrightarrow> as_nodes st' = as_nodes st \<Longrightarrow> registry_ok st'"
  by (simp add: registry_ok_def)

lemma send_to_worker_nodes: "send_to_worker hash n x st = Some st' \<Longrightarrow> as_nodes st' = as_nodes st"
  by (auto simp: send_to_worker_def Let_def split: option.splits prod.splits if_splits)

lemma handle_event_registry_ok:
  assumes "handle_event J hash a e t = Some (fl, t')" "registry_ok (sk_state t)"
  shows "registry_ok (sk_state t')"
proof -
  have "registry_ok st'" if "handle_stats J hash a s (sk_state t) = Some (f, st')" for s f st'
    using that assms(2)
    by (auto simp: handle_stats_def Let_def broadcast_send_def registry_ok_def
        dest!: send_to_worker_nodes split: if_splits option.splits)
  moreover have "registry_ok (sk_state (snd (handle_heartbeat now a hb t)))" for now hb
    using assms(2) by (auto simp: handle_heartbeat_def Let_def registry_ok_def split: option.split)
  moreover have "registry_ok st'" if "handle_probe_result hash now a p (sk_state t) = Some st'" for now p st'
    using that assms(2) by (auto simp: handle_probe_result_def Let_def registry_ok_def dest!: send_to_worker_nodes)
  ultimately show ?thesis using assms
    by (auto simp: handle_event_def split: option.splits client_payload.splits) (metis snd_conv)
qed

lemma stream_loop_registry_ok:
  "stream_loop J hash a es t = Some t' \<Longrightarrow> registry_ok (sk_state t) \<Longrightarrow> registry_ok (sk_state t')"
proof (induction es arbitrary: t)
  case (Cons e es)
  then obtain fl t1 where e: "handle_event J hash a e t = Some (fl, t1)" by (auto split: option.splits)
  then have ok: "registry_ok (sk_state t1)" using Cons.prems(2) by (rule handle_event_registry_ok)
  from stream_loop_Cons [OF e, of es] Cons.prems(1) obtain t2 where
    "sk_state t2 = sk_state t1" "t2 = t' \<or> stream_loop J hash a es t2 = Some t'" by auto
  with ok Cons.IH [of t2] show ?case by auto
qed simp

subsection \<open>Properties\<close>

text \<open>
  C4: a telemetry stream acts for the node of its authenticated header and for no other,
  whatever messages it carries: with at least one worker the stream never panics, it changes the
  registry at that node only, broadcasts only updates of that node, queues only items of that
  node (in the queue of its shard) behind what was there, and does not touch the tables.
\<close>

theorem stream_acts_for_its_node:
  assumes "stream_open L md = Inr a" "as_worker_txs st \<noteq> []"
  shows "\<exists>t. stream_telemetry L J hash md inbound st = Some (Inr t) \<and> only_node a st (sk_state t)"
proof -
  from stream_loop_total [of "\<lparr>sk_state = st, sk_cmds = [], sk_ack = None\<rparr>" J hash a inbound] assms(2)
  obtain t where t: "stream_loop J hash a inbound \<lparr>sk_state = st, sk_cmds = [], sk_ack = None\<rparr> = Some t" by auto
  with stream_loop_only_node [OF t] assms(1) show ?thesis by (simp add: stream_telemetry_def)
qed

theorem stream_acts_for_its_node_witness:
  "\<exists>t. stream_telemetry demo_lib demo_json_lib (\<lambda>_. 0) [lit ''x-pulse-node-id'' \<mapsto> [97]]
         [\<lparr>se_msg = Some (Some (PStats (demo_stats [97]))), se_now_ms = 6, se_reads = 0, se_client_gone = False\<rparr>]
         (app_state_new database_new metrics_new [channel_new 2]) = Some (Inr t) \<and>
       only_node [97] (app_state_new database_new metrics_new [channel_new 2]) (sk_state t)"
  using stream_acts_for_its_node [of demo_lib "[lit ''x-pulse-node-id'' \<mapsto> [97]]" "[97]"
      "app_state_new database_new metrics_new [channel_new 2]"]
  by (simp add: stream_open_def demo_lib_def visible_ascii_def app_state_new_def)

text \<open>
  A message whose node id is not the authenticated one closes the stream: after any messages
  that are handled to the end, it leaves the state as those messages left it but for one more
  authentication failure, sends no command, and no later message is looked at.
\<close>

theorem spoofed_message_closes_stream:
  assumes "spoofed a e" "runs_through J hash a before t = Some t'"
  shows "stream_loop J hash a (before @ e # after) t =
    Some (t'\<lparr>sk_state := (sk_state t')\<lparr>as_metrics := (as_metrics (sk_state t'))
      \<lparr>AUTH_FAILURES := incr (lit ''grpc'', lit ''node_id_spoofing'') (AUTH_FAILURES (as_metrics (sk_state t')))\<rparr>\<rparr>\<rparr>)"
  using stream_loop_append [OF assms(2), of "e # after"]
  by (simp add: spoofed_event [OF assms(1)] count_metric_def inc_auth_failure_eq)

theorem spoofed_message_closes_stream_witness:
  "stream_loop demo_json_lib (\<lambda>_. 0) (lit ''web-1'')
     ([\<lparr>se_msg = Some None, se_now_ms = 1, se_reads = 0, se_client_gone = False\<rparr>] @
      \<lparr>se_msg = Some (Some (PHeartbeat \<lparr>hb_node_id = lit ''db-1'', hb_timestamp_ms = 5\<rparr>)), se_now_ms = 1,
       se_reads = 0, se_client_gone = False\<rparr> # [])
     \<lparr>sk_state = app_state_new database_new metrics_new [channel_new 1024], sk_cmds = [], sk_ack = None\<rparr> =
   Some \<lparr>sk_state = app_state_new database_new
          (metrics_new\<lparr>AUTH_FAILURES := incr (lit ''grpc'', lit ''node_id_spoofing'') (\<lambda>_. 0)\<rparr>) [channel_new 1024],
         sk_cmds = [], sk_ack = None\<rparr>"
proof -
  let ?e = "\<lparr>se_msg = Some (Some (PHeartbeat \<lparr>hb_node_id = lit ''db-1'', hb_timestamp_ms = 5\<rparr>)), se_now_ms = 1,
       se_reads = 0, se_client_gone = False\<rparr>"
  have "spoofed (lit ''web-1'') ?e" by (simp add: spoofed_def lit_def)
  moreover have "runs_through demo_json_lib (\<lambda>_. 0) (lit ''web-1'') [\<lparr>se_msg = Some None, se_now_ms = 1, se_reads = 0, se_client_gone = False\<rparr>]
      \<lparr>sk_state = app_state_new database_new metrics_new [channel_new 1024], sk_cmds = [], sk_ack = None\<rparr> =
      Some \<lparr>sk_state = app_state_new database_new metrics_new [channel_new 1024], sk_cmds = [], sk_ack = None\<rparr>"
    by (simp add: handle_event_def send_ack_def agent_reads_def)
  ultimately show ?thesis
    by (subst spoofed_message_closes_stream) (assumption, assumption, simp add: app_state_new_def metrics_new_def)
qed

text \<open>
  A statistics message of the authenticated node, on a server with workers whose queue for
  the node has room, registers the node as online with the message's time and statistics, queues
  one item with the same value and its text, and broadcasts one update; the JSON value is the
  object of the message's fields.
\<close>

theorem stats_message_effect:
  assumes "json_lib_ok J" "ns_node_id s = a" "as_worker_txs st \<noteq> []"
    and "i = unat (hash a) mod length (as_worker_txs st)" "c = as_worker_txs st ! i"
    and "ch_open c" "length (ch_queue c) < ch_capacity c"
  shows "\<exists>v. v = jl_object J (stats_fields J (stats_serializable_from s)) \<and>
     handle_stats J hash a s st = Some (Continue, st
       \<lparr>as_metrics := inc_grpc_message a (lit ''stats'') (as_metrics st),
        as_nodes := (as_nodes st)(a \<mapsto> \<lparr>nf_node_id = a, nf_hostname = a, nf_last_seen_ms = ns_timestamp_ms s,
                       nf_status = Online, nf_latest_stats = Some v\<rparr>),
        as_worker_txs := (as_worker_txs st)[i := c\<lparr>ch_queue := ch_queue c @
                           [IStats a (ns_timestamp_ms s) (jl_to_string J v) v]\<rparr>],
        as_broadcast := as_broadcast st @ [\<lparr>nu_node_id = a, nu_timestamp_ms = ns_timestamp_ms s, nu_stats = v\<rparr>]\<rparr>)"
  using assms json_lib_okD(5) [OF assms(1)]
  by (simp add: handle_stats_def Let_def send_to_worker_cases try_send_def broadcast_send_def count_metric_def)

theorem stats_message_effect_witness:
  "\<exists>v st'. handle_stats demo_json_lib (\<lambda>_. 0) [97] (demo_stats [97]) (app_state_new database_new metrics_new [channel_new 2]) =
      Some (Continue, st') \<and> as_nodes st' [97] = Some \<lparr>nf_node_id = [97], nf_hostname = [97], nf_last_seen_ms = 5,
        nf_status = Online, nf_latest_stats = Some v\<rparr>"
  using stats_message_effect [OF demo_json_lib_ok, of "demo_stats [97]" "[97]"
      "app_state_new database_new metrics_new [channel_new 2]" 0 "\<lambda>_. 0" "channel_new 2"]
  by (simp add: app_state_new_def channel_new_def demo_stats_def)

text \<open>
  A heartbeat of the authenticated node marks a registered node online with the heartbeat's
  time, keeps its statistics, and is acknowledged with the server's clock as soon as the channel of
  commands has a place; a node the registry does not have is not added by it.
\<close>

theorem heartbeat_effect:
  assumes "hb_node_id hb = a" "handle_heartbeat now_ms a hb t = (fl, t')"
  shows "fl = Continue \<and> sk_cmds t' = sk_cmds t \<and>
         as_nodes (sk_state t') =
           (as_nodes (sk_state t))(a := map_option
              (\<lambda>n. n\<lparr>nf_last_seen_ms := hb_timestamp_ms hb, nf_status := Online\<rparr>) (as_nodes (sk_state t) a)) \<and>
         send_ack False t' =
           (if length (sk_cmds t) < 32
            then Some (Continue, t'\<lparr>sk_cmds := sk_cmds t @ [Some (HeartbeatAck now_ms)], sk_ack := None\<rparr>) else None) \<and>
         send_ack True t' = Some (Break, t'\<lparr>sk_ack := None\<rparr>)"
  using assms by (auto simp: handle_heartbeat_def Let_def send_ack_def cmd_capacity_def split: option.splits)

theorem heartbeat_effect_witness:
  "as_nodes (sk_state (snd (handle_heartbeat 9 [97] \<lparr>hb_node_id = [97], hb_timestamp_ms = 5\<rparr>
     \<lparr>sk_state = (app_state_new database_new metrics_new [])\<lparr>as_nodes := [[97] \<mapsto>
        \<lparr>nf_node_id = [97], nf_hostname = [], nf_last_seen_ms = 1, nf_status = Offline, nf_latest_stats = Some DNull\<rparr>]\<rparr>,
      sk_cmds = [], sk_ack = None\<rparr>))) =
   [[97] \<mapsto> \<lparr>nf_node_id = [97], nf_hostname = [], nf_last_seen_ms = 5, nf_status = Online, nf_latest_stats = Some DNull\<rparr>]"
  using heartbeat_effect [of "\<lparr>hb_node_id = [97], hb_timestamp_ms = 5\<rparr>" "[97]" 9
     "\<lparr>sk_state = (app_state_new database_new metrics_new [])\<lparr>as_nodes := [[97] \<mapsto>
        \<lparr>nf_node_id = [97], nf_hostname = [], nf_last_seen_ms = 1, nf_status = Offline, nf_latest_stats = Some DNull\<rparr>]\<rparr>,
      sk_cmds = [], sk_ack = None\<rparr>"]
  by (simp add: app_state_new_def prod_eq_iff)

end
