(* ===== verification/Pulse_Ws.thy ===== *)
theory Pulse_Ws
  imports Pulse_Api Pulse_Grpc
begin

text \<open>
  src/pulse-server/src/ws.rs: the WebSocket fan-out. A connection subscribes to the broadcast
  channel, sends the current nodes as its first message and then forwards the updates it has not
  filtered out. The broadcast channel keeps the last 256 updates (\<open>broadcast::channel(256)\<close> in
  state.rs): a receiver is its position in the sequence of all updates, and a receiver that is
  further behind loses the oldest ones and is told how many.

  Arguments: \<open>ser\<close> writes a message as JSON text (\<open>serde_json::to_string\<close>), \<open>sent\<close> says whether
  the socket took the text, \<open>order\<close> is the order in which the registry is walked.
\<close>

subsection \<open>Definitions\<close>

record 'j node_snapshot =
  sp_node_id :: rstr
  sp_hostname :: rstr
  sp_last_seen_ms :: i64
  sp_status :: node_status
  sp_stats :: "'j option"

datatype 'j ws_message =
    WsInit "'j node_snapshot list"
  | WsUpdate rstr i64 'j

datatype 'j recv_result = Received "'j node_update" | Lagged nat | Pending

definition broadcast_capacity :: nat where
  "broadcast_capacity = 256"

text \<open>\<open>rx.recv()\<close> at position \<open>pos\<close>; the channel is never closed while the state exists.\<close>

definition broadcast_recv :: "'j app_state \<Rightarrow> nat \<Rightarrow> 'j recv_result \<times> nat" where
  "broadcast_recv st pos =
     (let n = length (as_broadcast st) in
      if n \<le> pos then (Pending, pos)
      else if broadcast_capacity < n - pos
      then (Lagged (n - broadcast_capacity - pos), n - broadcast_capacity)
      else (Received (as_broadcast st ! pos), Suc pos))"

record ws_session =
  wss_filter :: "rstr option"
  wss_rx :: nat
  wss_out :: "rstr list"

definition ws_passes :: "rstr option \<Rightarrow> rstr \<Rightarrow> bool" where
  "ws_passes flt node_id = (case flt of None \<Rightarrow> True | Some f \<Rightarrow> f = node_id)"

definition node_snapshot_of :: "'j node_info \<Rightarrow> 'j node_snapshot" where
  "node_snapshot_of node =
     \<lparr>sp_node_id = nf_node_id node, sp_hostname = nf_hostname node, sp_last_seen_ms = nf_last_seen_ms node,
      sp_status = nf_status node, sp_stats = nf_latest_stats node\<rparr>"

definition ws_count :: "int \<Rightarrow> 'j app_state \<Rightarrow> 'j app_state" where
  "ws_count d st = count_metric (WS_CONNECTIONS_update (\<lambda>n. n + d)) st"

text \<open>
  \<open>handle_socket\<close> up to the two tasks; \<open>None\<close> is the early return, at which the guard takes the
  connection off the gauge again.
\<close>

definition ws_connect ::
  "('j ws_message \<Rightarrow> rstr option) \<Rightarrow> rstr list \<Rightarrow> bool \<Rightarrow> rstr option \<Rightarrow> 'j app_state \<Rightarrow>
   ws_session option \<times> 'j app_state" where
  "ws_connect ser order sent flt st =
     (let st = ws_count 1 st;
          rx = length (as_broadcast st);
          nodes = map node_snapshot_of
            (List.map_filter (as_nodes st) (filter (ws_passes flt) order))
      in case ser (WsInit nodes) of
           None \<Rightarrow> (Some \<lparr>wss_filter = flt, wss_rx = rx, wss_out = []\<rparr>, st)
         | Some json \<Rightarrow>
             if sent then (Some \<lparr>wss_filter = flt, wss_rx = rx, wss_out = [json]\<rparr>, st)
             else (None, ws_count (- 1) st))"

text \<open>One turn of the sending task.\<close>

definition ws_forward ::
  "('j ws_message \<Rightarrow> rstr option) \<Rightarrow> bool \<Rightarrow> 'j app_state \<Rightarrow> ws_session \<Rightarrow> flow \<times> ws_session" where
  "ws_forward ser sent st s =
     (case broadcast_recv st (wss_rx s) of
        (Pending, rx) \<Rightarrow> (Continue, s)
      | (Lagged n, rx) \<Rightarrow> (Continue, s\<lparr>wss_rx := rx\<rparr>)
      | (Received u, rx) \<Rightarrow>
          (let s = s\<lparr>wss_rx := rx\<rparr> in
           if \<not> ws_passes (wss_filter s) (nu_node_id u) then (Continue, s)
           else (case ser (WsUpdate (nu_node_id u) (nu_timestamp_ms u) (nu_stats u)) of
                   None \<Rightarrow> (Continue, s)
                 | Some json \<Rightarrow>
                     if sent then (Continue, s\<lparr>wss_out := wss_out s @ [json]\<rparr>) else (Break, s))))"

text \<open>Messages of the client: a close or an error ends the receiving task.\<close>

datatype ws_client_message = WsClose | WsError | WsPing nat | WsOther

definition ws_client :: "ws_client_message \<Rightarrow> flow" where
  "ws_client m = (case m of WsClose \<Rightarrow> Break | WsError \<Rightarrow> Break | WsPing _ \<Rightarrow> Continue | WsOther \<Rightarrow> Continue)"

text \<open>The end of \<open>handle_socket\<close>, when one of the tasks has ended: the guard is dropped.\<close>

definition ws_disconnect :: "'j app_state \<Rightarrow> 'j app_state" where
  "ws_disconnect st = ws_count (- 1) st"

definition ws_handler ::
  "('v \<Rightarrow> rstr option) \<Rightarrow> rstr option \<Rightarrow> 'v http_request \<Rightarrow> ('j ws_message \<Rightarrow> rstr option) \<Rightarrow> rstr list \<Rightarrow>
   bool \<Rightarrow> rstr option \<Rightarrow> 'j app_state \<Rightarrow> ((http_status + ws_session option) \<times> 'j app_state) option" where
  "ws_handler to_str secret_var req ser order sent flt =
     with_claims to_str secret_var req (\<lambda>st.
       let (s, st) = ws_connect ser order sent flt st in Some (Inr s, st))"

text \<open>\<open>n\<close> turns of the sending task on a socket that takes every text.\<close>

fun ws_forwards :: "('j ws_message \<Rightarrow> rstr option) \<Rightarrow> nat \<Rightarrow> 'j app_state \<Rightarrow> ws_session \<Rightarrow> ws_session" where
  "ws_forwards ser 0 st s = s"
| "ws_forwards ser (Suc n) st s = ws_forwards ser n st (snd (ws_forward ser True st s))"

subsection \<open>Specification\<close>

definition update_text :: "('j ws_message \<Rightarrow> rstr option) \<Rightarrow> 'j node_update \<Rightarrow> rstr list" where
  "update_text ser u =
     (case ser (WsUpdate (nu_node_id u) (nu_timestamp_ms u) (nu_stats u)) of None \<Rightarrow> [] | Some t \<Rightarrow> [t])"

definition texts_for :: "('j ws_message \<Rightarrow> rstr option) \<Rightarrow> rstr option \<Rightarrow> 'j node_update list \<Rightarrow> rstr list" where
  "texts_for ser flt us = concat (map (update_text ser) (filter (\<lambda>u. ws_passes flt (nu_node_id u)) us))"

text \<open>Connections as the gauge sees them: each event opens one (which may fail at once) or ends one.\<close>

datatype ws_event = WsOpen "rstr list" bool "rstr option" | WsEnd

text \<open>\<open>live\<close> counts the connections whose handler has not returned.\<close>

fun ws_run ::
  "('j ws_message \<Rightarrow> rstr option) \<Rightarrow> ws_event list \<Rightarrow> nat \<times> 'j app_state \<Rightarrow> nat \<times> 'j app_state" where
  "ws_run ser [] x = x"
| "ws_run ser (WsOpen order sent flt # es) (live, st) =
     (let (s, st) = ws_connect ser order sent flt st
      in ws_run ser es (if s = None then live else Suc live, st))"
| "ws_run ser (WsEnd # es) (live, st) =
     ws_run ser es (if live = 0 then (0, st) else (live - 1, ws_disconnect st))"

subsection \<open>Lemmas\<close>

lemma ws_count_simps [simp]:
  "as_db (ws_count d st) = as_db st" "as_nodes (ws_count d st) = as_nodes st"
  "as_broadcast (ws_count d st) = as_broadcast st" "as_worker_txs (ws_count d st) = as_worker_txs st"
  "WS_CONNECTIONS (as_metrics (ws_count d st)) = WS_CONNECTIONS (as_metrics st) + d"
  by (simp_all add: ws_count_def)

lemma ws_count_inverse [simp]: "ws_count (- 1) (ws_count 1 st) = st"
  by (cases st; cases "as_metrics st") (simp add: ws_count_def count_metric_def)

lemma texts_for_simps [simp]:
  "texts_for ser flt [] = []"
  "texts_for ser flt (u # us) =
     (if ws_passes flt (nu_node_id u) then update_text ser u @ texts_for ser flt us else texts_for ser flt us)"
  by (simp_all add: texts_for_def)

lemma ws_forward_received:
  assumes "wss_rx s < length (as_broadcast st)" "length (as_broadcast st) - wss_rx s \<le> broadcast_capacity"
  shows "snd (ws_forward ser True st s) =
    s\<lparr>wss_rx := Suc (wss_rx s),
       wss_out := wss_out s @ texts_for ser (wss_filter s) [as_broadcast st ! wss_rx s]\<rparr>"
  using assms
  by (simp add: ws_forward_def broadcast_recv_def Let_def update_text_def split: option.split)

lemma ws_forwards_drop:
  assumes "wss_rx s + n = length (as_broadcast st)" "n \<le> broadcast_capacity"
  shows "ws_forwards ser n st s =
    s\<lparr>wss_rx := length (as_broadcast st),
       wss_out := wss_out s @ texts_for ser (wss_filter s) (drop (wss_rx s) (as_broadcast st))\<rparr>"
  using assms
proof (induction n arbitrary: s)
  case 0
  then show ?case by simp
next
  case (Suc n)
  let ?s = "snd (ws_forward ser True st s)"
  have lt: "wss_rx s < length (as_broadcast st)" using Suc.prems by simp
  then have s: "?s = s\<lparr>wss_rx := Suc (wss_rx s),
       wss_out := wss_out s @ texts_for ser (wss_filter s) [as_broadcast st ! wss_rx s]\<rparr>"
    using Suc.prems by (intro ws_forward_received) simp_all
  then have "ws_forwards ser n st ?s = ?s\<lparr>wss_rx := length (as_broadcast st),
       wss_out := wss_out ?s @ texts_for ser (wss_filter ?s) (drop (wss_rx ?s) (as_broadcast st))\<rparr>"
    using Suc.prems by (intro Suc.IH) simp_all
  moreover have "drop (wss_rx s) (as_broadcast st) = as_broadcast st ! wss_rx s # drop (Suc (wss_rx s)) (as_broadcast st)"
    using lt by (simp add: Cons_nth_drop_Suc)
  ultimately show ?case by (simp add: s)
qed

lemma ws_forward_lagged:
  assumes "broadcast_capacity < length (as_broadcast st) - wss_rx s"
  shows "ws_forward ser sent st s = (Continue, s\<lparr>wss_rx := length (as_broadcast st) - broadcast_capacity\<rparr>)"
  using assms by (simp add: ws_forward_def broadcast_recv_def Let_def)

lemma ws_connect_gauge:
  "ws_connect ser order sent flt st = (s, st') \<Longrightarrow>
   WS_CONNECTIONS (as_metrics st') = WS_CONNECTIONS (as_metrics st) + (if s = None then 0 else 1)"
  by (auto simp: ws_connect_def Let_def split: option.splits if_splits)

subsection \<open>Properties\<close>

text \<open>
  C26: a dashboard that keeps up gets exactly the updates of its filter, in order: for a connection
  that is at most 256 updates behind, forwarding until it has caught up appends to what it sent
  the texts of all updates since its position that pass the filter, and nothing else.
\<close>

theorem ws_delivers_filtered_updates:
  assumes "wss_rx s \<le> length (as_broadcast st)" "length (as_broadcast st) - wss_rx s \<le> 256"
  shows "ws_forwards ser (length (as_broadcast st) - wss_rx s) st s =
    s\<lparr>wss_rx := length (as_broadcast st),
       wss_out := wss_out s @ texts_for ser (wss_filter s) (drop (wss_rx s) (as_broadcast st))\<rparr>"
  using assms by (intro ws_forwards_drop) (simp_all add: broadcast_capacity_def)

theorem ws_delivers_filtered_updates_witness:
  "wss_out (ws_forwards (\<lambda>m. case m of WsInit _ \<Rightarrow> Some [] | WsUpdate n t v \<Rightarrow> Some n) (Suc (Suc 0))
      (broadcast_send \<lparr>nu_node_id = [98], nu_timestamp_ms = 1, nu_stats = DNull\<rparr>
        (broadcast_send \<lparr>nu_node_id = [97], nu_timestamp_ms = 1, nu_stats = DNull\<rparr> (app_state_new database_new metrics_new [])))
      \<lparr>wss_filter = Some [97], wss_rx = 0, wss_out = []\<rparr>) = [[97]]"
  using ws_delivers_filtered_updates [of "\<lparr>wss_filter = Some [97], wss_rx = 0, wss_out = []\<rparr>"
      "broadcast_send \<lparr>nu_node_id = [98], nu_timestamp_ms = 1, nu_stats = DNull\<rparr>
        (broadcast_send \<lparr>nu_node_id = [97], nu_timestamp_ms = 1, nu_stats = DNull\<rparr> (app_state_new database_new metrics_new []))"
      "\<lambda>m. case m of WsInit _ \<Rightarrow> Some [] | WsUpdate n t v \<Rightarrow> Some n"]
  by (simp add: broadcast_send_def app_state_new_def ws_passes_def update_text_def)

text \<open>
  C27: a dashboard that falls more than 256 updates behind loses exactly the oldest ones: one turn
  skips to the 256th newest update, and catching up from there delivers those that pass the
  filter among the newest 256, in order.
\<close>

theorem ws_lagging_keeps_newest:
  assumes "256 < length (as_broadcast st) - wss_rx s"
  shows "ws_forwards ser 257 st s =
    s\<lparr>wss_rx := length (as_broadcast st),
       wss_out := wss_out s @ texts_for ser (wss_filter s) (drop (length (as_broadcast st) - 256) (as_broadcast st))\<rparr>"
proof -
  let ?s = "s\<lparr>wss_rx := length (as_broadcast st) - 256\<rparr>"
  have "ws_forwards ser (Suc 256) st s = ws_forwards ser 256 st ?s"
    unfolding ws_forwards.simps using ws_forward_lagged [of st s ser True] assms
    by (simp add: broadcast_capacity_def)
  also have "\<dots> = ?s\<lparr>wss_rx := length (as_broadcast st),
       wss_out := wss_out ?s @ texts_for ser (wss_filter ?s) (drop (wss_rx ?s) (as_broadcast st))\<rparr>"
    using assms by (intro ws_forwards_drop) (simp_all add: broadcast_capacity_def)
  finally show ?thesis by simp
qed

theorem ws_lagging_keeps_newest_witness:
  "wss_rx (ws_forwards (\<lambda>m. None) 257
      ((app_state_new database_new metrics_new [])\<lparr>as_broadcast := replicate 300 \<lparr>nu_node_id = [97], nu_timestamp_ms = 1, nu_stats = DNull\<rparr>\<rparr>)
      \<lparr>wss_filter = None, wss_rx = 0, wss_out = []\<rparr>) = 300"
  using ws_lagging_keeps_newest [of "(app_state_new database_new metrics_new [])\<lparr>as_broadcast := replicate 300
      \<lparr>nu_node_id = [97], nu_timestamp_ms = 1, nu_stats = DNull\<rparr>\<rparr>" "\<lparr>wss_filter = None, wss_rx = 0, wss_out = []\<rparr>" "\<lambda>m. None"]
  by (simp del: ws_forwards.simps)

text \<open>
  The gauge of active connections is the number of connections whose handler has not returned,
  after any sequence of connections, failed first sends and disconnects; it never goes below its
  start value.
\<close>

theorem ws_gauge_counts_connections:
  "WS_CONNECTIONS (as_metrics (snd (ws_run ser es (0, st)))) =
   WS_CONNECTIONS (as_metrics st) + int (fst (ws_run ser es (0, st)))"
proof -
  have "WS_CONNECTIONS (as_metrics (snd (ws_run ser es (live, st)))) - int (fst (ws_run ser es (live, st))) =
        WS_CONNECTIONS (as_metrics st) - int live" for live
  proof (induction ser es "(live, st)" arbitrary: live st rule: ws_run.induct)
    case (2 ser order sent flt es live st)
    obtain s st' where c: "ws_connect ser order sent flt st = (s, st')" by fastforce
    with 2 ws_connect_gauge [OF c] show ?case by (cases s) fastforce+
  next
    case (3 ser es live st)
    then show ?case by (cases "live = 0") (simp_all add: ws_disconnect_def)
  qed simp
  from this [of 0] show ?thesis by simp
qed

text \<open>
  The sending task of a closed connection can stay for ever. When the client disconnects the
  handler returns and drops the handle of the sending task, which goes on; it notices the closed
  socket only when it sends. Every update of a node that its filter rejects lets it go on without
  sending, so while only other nodes report, the task (and its place in the broadcast channel)
  is never freed.
\<close>

theorem ws_filtered_task_never_ends:
  assumes "wss_filter s = Some f" "\<forall>u \<in> set (as_broadcast st). nu_node_id u \<noteq> f"
  shows "fst (ws_forward ser False st s) = Continue \<and> wss_filter (snd (ws_forward ser False st s)) = Some f"
proof -
  have "nu_node_id (as_broadcast st ! wss_rx s) \<noteq> f" if "wss_rx s < length (as_broadcast st)"
    using assms(2) that by simp
  with assms(1) show ?thesis
    by (auto simp: ws_forward_def broadcast_recv_def Let_def ws_passes_def)
qed

theorem ws_filtered_task_never_ends_witness:
  "fst (ws_forward (\<lambda>m. Some []) False
      (broadcast_send \<lparr>nu_node_id = [98], nu_timestamp_ms = 1, nu_stats = DNull\<rparr> (app_state_new database_new metrics_new []))
      \<lparr>wss_filter = Some [97], wss_rx = 0, wss_out = []\<rparr>) = Continue"
  using ws_filtered_task_never_ends [of "\<lparr>wss_filter = Some [97], wss_rx = 0, wss_out = []\<rparr>" "[97]"
      "broadcast_send \<lparr>nu_node_id = [98], nu_timestamp_ms = 1, nu_stats = DNull\<rparr> (app_state_new database_new metrics_new [])"
      "\<lambda>m. Some []"]
  by (simp add: broadcast_send_def app_state_new_def)

end
