(* ===== verification/Pulse_Values.thy ===== *)
theory Pulse_Values
  imports Pulse_Server
begin

text \<open>
  What the JSON values of the server are. The server treats statistics as untyped values of
  \<open>serde_json\<close> once they have left the protocol message (src/pulse-server/src/grpc.rs, state.rs, db.rs,
  main.rs, api.rs): in the registry, the queues, the broadcast, the tables and the pending offline
  transitions. The typing below says what they are: the object of a serialised message, what the
  database reads from the text of such an object, or null. Every step of the server keeps it.
\<close>

subsection \<open>The typing\<close>

definition stats_value :: "'j json_lib \<Rightarrow> 'j \<Rightarrow> bool" where
  "stats_value J v \<longleftrightarrow> (\<exists>s. v = jl_object J (stats_fields J s))"

definition stored_value :: "'j json_lib \<Rightarrow> 'j \<Rightarrow> bool" where
  "stored_value J v \<longleftrightarrow> v = jl_null J \<or> (\<exists>w. stats_value J w \<and> jl_from_str J (jl_to_string J w) = Some v)"

definition typed_value :: "'j json_lib \<Rightarrow> 'j \<Rightarrow> bool" where
  "typed_value J v \<longleftrightarrow> stats_value J v \<or> stored_value J v"

fun typed_item :: "'j json_lib \<Rightarrow> 'j ingestion_item \<Rightarrow> bool" where
  "typed_item J (IStats n ts str v) \<longleftrightarrow> stats_value J v \<and> str = jl_to_string J v"
| "typed_item J (IProbe n tg ok lat e ts) \<longleftrightarrow> True"

definition typed_nodes :: "'j json_lib \<Rightarrow> (rstr \<rightharpoonup> 'j node_info) \<Rightarrow> bool" where
  "typed_nodes J m \<longleftrightarrow> (\<forall>k n v. m k = Some n \<longrightarrow> nf_latest_stats n = Some v \<longrightarrow> typed_value J v)"

definition typed_queues :: "'j json_lib \<Rightarrow> 'j ingestion_item channel list \<Rightarrow> bool" where
  "typed_queues J cs \<longleftrightarrow> (\<forall>c \<in> set cs. \<forall>x \<in> set (ch_queue c). typed_item J x)"

definition typed_db :: "'j json_lib \<Rightarrow> 'j database \<Rightarrow> bool" where
  "typed_db J db \<longleftrightarrow> (\<forall>r \<in> set (db_snapshots db). stored_value J (sr_stats_json r))"

definition typed_state :: "'j json_lib \<Rightarrow> 'j app_state \<Rightarrow> bool" where
  "typed_state J st \<longleftrightarrow>
     typed_nodes J (as_nodes st) \<and> typed_queues J (as_worker_txs st) \<and>
     (\<forall>u \<in> set (as_broadcast st). typed_value J (nu_stats u)) \<and> typed_db J (as_db st)"

definition typed_server :: "'j json_lib \<Rightarrow> 'j server \<Rightarrow> bool" where
  "typed_server J s \<longleftrightarrow>
     typed_state J (sv_state s) \<and> (\<forall>(k, t, stats) \<in> set (sv_pending s). \<forall>v. stats = Some v \<longrightarrow> typed_value J v) \<and>
     (\<forall>n v. Inr (Some n) \<in> set (sv_reads s) \<longrightarrow> nf_latest_stats n = Some v \<longrightarrow> typed_value J v)"

subsection \<open>Lemmas: the parts of the state\<close>

named_theorems typing "operations that keep the typing"

lemma typed_null [simp]: "typed_value J (jl_null J)" "stored_value J (jl_null J)"
  by (simp_all add: typed_value_def stored_value_def)

lemma typed_frame:
  assumes "typed_state J st" "as_nodes st' = as_nodes st" "as_worker_txs st' = as_worker_txs st"
    and "as_broadcast st' = as_broadcast st" "db_snapshots (as_db st') = db_snapshots (as_db st)"
  shows "typed_state J st'"
  using assms by (simp add: typed_state_def typed_db_def)

lemma typed_count [typing]: "typed_state J st \<Longrightarrow> typed_state J (count_metric f st)"
  by (erule typed_frame) simp_all

lemma typed_metrics [typing]: "typed_state J st \<Longrightarrow> typed_state J (st\<lparr>as_metrics := m\<rparr>)"
  by (erule typed_frame) simp_all

lemma typed_broadcast [typing]:
  "typed_state J st \<Longrightarrow> typed_value J (nu_stats u) \<Longrightarrow> typed_state J (broadcast_send u st)"
  by (auto simp: typed_state_def broadcast_send_def)

lemma typed_node_upd [typing]:
  "typed_state J st \<Longrightarrow> (\<And>v. nf_latest_stats n = Some v \<Longrightarrow> typed_value J v) \<Longrightarrow>
   typed_state J (st\<lparr>as_nodes := (as_nodes st)(k \<mapsto> n)\<rparr>)"
  by (auto simp: typed_state_def typed_nodes_def)

lemma typed_queues_upd:
  "typed_queues J cs \<Longrightarrow> (\<And>x. x \<in> set (ch_queue c) \<Longrightarrow> typed_item J x) \<Longrightarrow> typed_queues J (cs[i := c])"
  using set_update_subset_insert [of cs i c] by (auto simp: typed_queues_def)

lemma typed_send [typing]:
  assumes "typed_state J st" "typed_item J x" "send_to_worker hash a x st = Some st'"
  shows "typed_state J st'"
proof -
  let ?w = "as_worker_txs st" let ?i = "unat (hash a) mod length ?w"
  have ne: "?w \<noteq> []" using assms(3) by (metis send_to_worker_None_iff option.distinct(1))
  then have i: "?i < length ?w" by simp
  have "typed_queues J (?w[?i := snd (try_send x (?w ! ?i))])"
  proof (rule typed_queues_upd)
    show "typed_queues J ?w" using assms(1) by (simp add: typed_state_def)
    then show "typed_item J y" if "y \<in> set (ch_queue (snd (try_send x (?w ! ?i))))" for y
      using that assms(2) nth_mem [OF i] by (auto simp: try_send_def typed_queues_def split: if_splits)
  qed
  with assms(1) show ?thesis
    using assms(3) send_to_worker_cases [OF ne, of hash a x]
    by (cases "fst (try_send x (?w ! ?i))") (auto simp: typed_state_def)
qed

subsection \<open>Lemmas: the stream\<close>

lemma typed_stats:
  assumes "json_lib_ok J" "handle_stats J hash a x st = Some (fl, st')" "typed_state J st"
  shows "typed_state J st'"
proof (cases "ns_node_id x = a")
  case False
  with assms(2,3) show ?thesis by (auto simp: handle_stats_def intro: typing)
next
  case True
  let ?v = "jl_object J (stats_fields J (stats_serializable_from x))"
  let ?st = "count_metric (inc_grpc_message a (lit ''stats'')) st"
  let ?n = "\<lparr>nf_node_id = a, nf_hostname = a, nf_last_seen_ms = ns_timestamp_ms x, nf_status = Online, nf_latest_stats = Some ?v\<rparr>"
  have v: "stats_value J ?v" by (auto simp: stats_value_def)
  from True assms(2) json_lib_okD(5) [OF assms(1)] obtain st2 where
    send: "send_to_worker hash a (IStats a (ns_timestamp_ms x) (jl_to_string J ?v) ?v) (?st\<lparr>as_nodes := (as_nodes ?st)(a \<mapsto> ?n)\<rparr>) = Some st2"
    and st': "st' = broadcast_send \<lparr>nu_node_id = a, nu_timestamp_ms = ns_timestamp_ms x, nu_stats = ?v\<rparr> st2"
    by (auto simp: handle_stats_def Let_def split: option.splits)
  have "typed_state J (?st\<lparr>as_nodes := (as_nodes ?st)(a \<mapsto> ?n)\<rparr>)"
    using assms(3) v by (intro typed_node_upd typed_count) (auto simp: typed_value_def)
  from typed_send [OF this _ send] v have "typed_state J st2" by simp
  with v show ?thesis unfolding st' by (intro typed_broadcast) (simp_all add: typed_value_def)
qed

lemma typed_heartbeat:
  assumes "typed_state J (sk_state t)"
  shows "typed_state J (sk_state (snd (handle_heartbeat now a hb t)))"
proof -
  let ?st = "count_metric (inc_grpc_message a (lit ''heartbeat'')) (sk_state t)"
  have "typed_state J (?st\<lparr>as_nodes := (as_nodes ?st)(a \<mapsto> n\<lparr>nf_last_seen_ms := x, nf_status := Online\<rparr>)\<rparr>)"
    if "as_nodes (sk_state t) a = Some n" for n x
    using assms that by (intro typed_node_upd typed_count) (auto simp: typed_state_def typed_nodes_def)
  with assms show ?thesis by (auto simp: handle_heartbeat_def Let_def intro: typing split: option.split)
qed

lemma typed_event:
  assumes "json_lib_ok J" "handle_event J hash a e t = Some (fl, t')" "typed_state J (sk_state t)"
  shows "typed_state J (sk_state t')"
proof -
  have "typed_state J (sk_state t')" if "Some (handle_heartbeat now a h t) = Some (fl, t')" for now h
    using that typed_heartbeat [OF assms(3), of now a h] by simp
  moreover have "typed_state J st" if "handle_probe_result hash now a p (sk_state t) = Some st" for now p st
    by (rule typed_send [OF typed_count [OF assms(3)] _ that [unfolded handle_probe_result_def Let_def]]) simp
  ultimately show ?thesis
    using assms typed_stats [OF assms(1), of hash a _ "sk_state t"]
    by (auto simp: handle_event_def split: option.splits client_payload.splits)
qed

subsection \<open>Lemmas: the worker and the background tasks\<close>

lemma typed_handle_item:
  assumes "typed_state J (ig_state ig)" "typed_item J x"
  shows "typed_state J (ig_state (handle_item J u io x ig))"
proof -
  have "typed_db J (as_db (ig_state (handle_item J u io x ig)))"
  proof (cases x)
    case (IStats n ts str v)
    have "stored_value J (unwrap_or (jl_from_str J str) (jl_null J))"
      using assms(2) IStats by (cases "jl_from_str J str") (auto simp: stored_value_def)
    with assms(1) IStats show ?thesis
      by (auto simp: with_db_eq handle_item.simps Let_def upsert_node_db insert_snapshot_db typed_state_def typed_db_def)
  next
    case (IProbe n tg ok lat e ts)
    with assms(1) show ?thesis
      by (auto simp: with_db_eq handle_item.simps Let_def insert_probe_result_db typed_state_def typed_db_def)
  qed
  with assms(1) show ?thesis by (simp add: typed_state_def)
qed

lemma typed_worker_step [typing]:
  assumes "typed_state J (ig_state ig)"
  shows "typed_state J (ig_state (worker_step J u i io ig))"
proof (cases "worker_recv i (ig_state ig)")
  case None
  with assms show ?thesis by (simp add: worker_step_def)
next
  case (Some r)
  obtain x st where r: "r = (x, st)" by (cases r)
  let ?w = "as_worker_txs (ig_state ig)"
  from Some r obtain xs where i: "i < length ?w" and c: "ch_queue (?w ! i) = x # xs"
    and st: "st = (ig_state ig)\<lparr>as_worker_txs := ?w[i := (?w ! i)\<lparr>ch_queue := xs\<rparr>]\<rparr>"
    by (auto simp: worker_recv_def channel_recv_def split: if_splits option.splits list.splits)
  have q: "typed_item J y" if "y \<in> set (ch_queue (?w ! i))" for y
    using assms that nth_mem [OF i] by (auto simp: typed_state_def typed_queues_def)
  then have "typed_queues J (?w[i := (?w ! i)\<lparr>ch_queue := xs\<rparr>])" using assms c by (intro typed_queues_upd) (auto simp: typed_state_def)
  with assms have "typed_state J st" by (simp add: st typed_state_def)
  with Some r q c show ?thesis using typed_handle_item [of J "ig\<lparr>ig_state := st\<rparr>" x] by (simp add: worker_step_def)
qed

lemma typed_scan:
  assumes "typed_state J st" "walks order st" "liveness_scan now order st = (ts, st')"
  shows "typed_state J st' \<and> (\<forall>(k, t, stats) \<in> set ts. \<forall>v. stats = Some v \<longrightarrow> typed_value J v)"
proof -
  have w: "distinct order" "set order = dom (as_nodes st)" using assms(2) by (simp_all add: walks_def)
  have "ts = transitions_of now (as_nodes st) order" "as_nodes st' = after_scan now (as_nodes st)"
    "as_worker_txs st' = as_worker_txs st" "as_db st' = as_db st" "as_broadcast st' = as_broadcast st"
    using assms(3) liveness_scan_eq [OF w(1), of now st] scanned_dom [OF w(2), of now]
    by (auto simp: scanned_def)
  with assms(1) show ?thesis
    by (auto simp: typed_state_def typed_nodes_def after_scan_def set_transitions_of)
qed

lemma typed_publish:
  assumes "typed_state J st" "\<forall>v. snd (snd x) = Some v \<longrightarrow> typed_value J v"
  shows "typed_state J (publish_offline J (io, x) st)"
proof -
  obtain oc now k ls v where io: "io = (oc, now)" "x = (k, ls, v)" by (cases io, cases x) auto
  with assms show ?thesis
    by (cases v) (auto simp: publish_offline_eq Let_def upsert_node_db typed_state_def typed_db_def)
qed

lemma typed_cleanup [typing]: "typed_state J st \<Longrightarrow> typed_state J (cleanup_tick o1 o2 now st)"
  by (auto simp: cleanup_tick_def with_db_eq Let_def cleanup_db delete_snapshots_def delete_probes_def typed_state_def typed_db_def)

subsection \<open>Lemmas: requests and the start\<close>

lemma typed_node_answer:
  assumes "typed_db J db" "scan_ok scan" "node_answer scan db k = Some n" "nf_latest_stats n = Some v"
  shows "typed_value J v"
proof -
  let ?snaps = "order_by_timestamp_desc (filter (\<lambda>s. sr_node_id s = k) (scan (db_snapshots db)))"
  from assms(3,4) have "?snaps \<noteq> [] \<and> v = sr_stats_json (hd ?snaps)"
    by (cases ?snaps)
      (auto simp: node_answer_def joined_rows_def node_info_of_row_def Let_def split: option.splits)
  moreover have "set ?snaps \<subseteq> set (db_snapshots db)"
    by (auto simp: scan_set [OF assms(2)] mset_order_by [THEN mset_eq_setD])
  ultimately show ?thesis
    using assms(1) hd_in_set [of ?snaps] unfolding typed_db_def typed_value_def by blast
qed

lemma typed_with_db:
  "db_snapshots (fst (snd (f (as_db st, as_metrics st)))) = db_snapshots (as_db st) \<Longrightarrow>
   typed_state J st \<Longrightarrow> typed_state J (snd (with_db f st))"
  by (erule typed_frame) (simp_all add: with_db_eq)

lemma typed_finish [typing]: "typed_state J (snd r) \<Longrightarrow> typed_state J (snd (finish_request p r))"
  by (erule typed_frame) (simp_all add: finish_request_def split: prod.split)

lemma typed_get_node:
  assumes "typed_state J st" "scan_ok scan"
  shows "typed_state J (snd (get_node_handler J' U scan oc k st))"
proof -
  obtain res st1 where w: "with_db (get_node scan oc k) st = (res, st1)" by (cases "with_db (get_node scan oc k) st")
  have st1: "typed_state J st1" using typed_with_db [OF _ assms(1), of "get_node scan oc k"] w by simp
  have "typed_state J (st1\<lparr>as_nodes := (as_nodes st1)(nf_node_id n \<mapsto> n)\<rparr>)" if "res = Inr (Some n)" for n
    using typed_node_answer [OF _ assms(2) with_db_get_node, of J st oc k n] w that assms(1)
    by (intro typed_node_upd [OF st1]) (simp add: typed_state_def)
  with assms(1) st1 w show ?thesis
    unfolding get_node_handler_eq by (intro typed_finish) (auto split: option.split sum.split)
qed

lemma typed_reply:
  assumes "typed_state J st" "\<And>n v. res = Inr (Some n) \<Longrightarrow> nf_latest_stats n = Some v \<Longrightarrow> typed_value J v"
  shows "typed_state J (snd (get_node_reply J' res st))"
proof -
  have m: "typed_state J (st\<lparr>as_metrics := m\<rparr>)" for m using assms(1) by (rule typed_metrics)
  moreover have "typed_state J (st\<lparr>as_metrics := m, as_nodes := (as_nodes st)(nf_node_id n \<mapsto> n)\<rparr>)"
    if "res = Inr (Some n)" for m n
    using typed_node_upd [OF m, of n m "nf_node_id n"] assms(2) [OF that] by simp
  ultimately show ?thesis
    unfolding get_node_reply_def Let_def by (intro typed_finish) (auto split: option.split sum.split)
qed

lemma typed_history:
  assumes "typed_state J st" "get_node_history J' U scan oc now k params st = Some r"
  shows "typed_state J (snd r)"
proof -
  have "typed_state J st'" if "with_db (get_snapshots scan oc k x now y) st = (q, st')" for x y q st'
    using typed_with_db [OF _ assms(1), of "get_snapshots scan oc k x now y"] that by simp
  with assms show ?thesis
    unfolding get_node_history_eq
    by (auto simp: Let_def intro!: typed_finish split: if_splits option.splits prod.splits sum.splits)
qed

lemma typed_connect: "typed_state J st \<Longrightarrow> typed_state J (snd (ws_connect ser order sent flt st))"
  by (erule typed_frame) (simp_all add: ws_connect_def ws_count_def Let_def split: option.split)

lemma typed_route:
  assumes "serve_route io req r st = Some q" "typed_state J st" "scan_ok (hi_scan io) \<or> (\<exists>flt. r = RWs flt)"
  shows "typed_state J (snd q)"
proof (cases "\<exists>flt. r = RWs flt")
  case True
  then obtain flt x where x: "ws_handler (hi_to_str io) (hi_secret_var io) req (hi_ser io) (hi_order io) (hi_sent io) flt st = Some x"
    "snd q = snd x" using assms(1) by auto
  from x(1) [unfolded ws_handler_def] have "typed_state J (snd x)"
    by (rule with_claims_rule) (use assms(2) in \<open>auto intro: typed_metrics simp: typed_connect split_def Let_def\<close>)
  then show ?thesis by (simp add: x(2))
next
  case False
  with assms(3) have "scan_ok (hi_scan io)" by simp
  with assms(1,2) show ?thesis
    by (elim serve_route_rule)
      (use False in \<open>auto intro: typed_metrics typed_get_node typed_history typed_finish simp: list_nodes_def Let_def\<close>)
qed

lemma typed_start:
  assumes "typed_db J db" "scan_ok scan" "distinct ids" "set ids = dom (db_nodes db)"
  shows "typed_server J (server_start scan ids outcome db)"
proof -
  let ?init = "app_state_new db metrics_new (replicate 4 (channel_new 1024)) :: 'a app_state"
  let ?st = "load_nodes scan ids outcome ?init"
  have "as_nodes ?st = Map.empty \<or> as_nodes ?st = node_answer scan db"
    using load_nodes_Executed [OF assms(2,3), of ?init] assms(4) load_nodes_frame(4) [of outcome scan ids ?init]
    by (cases "outcome = Executed") (simp_all add: app_state_new_def)
  then have "typed_nodes J (as_nodes ?st)" using typed_node_answer [OF assms(1,2)] by (auto simp: typed_nodes_def)
  moreover have "as_broadcast ?st = []"
    by (cases outcome; simp add: load_nodes_def with_db_eq app_state_new_def query_defs get_all_nodes_def Let_def split: sum.split prod.split)
  ultimately show ?thesis
    using assms(1) by (simp add: typed_server_def typed_state_def server_start_def ingest_new_def load_nodes_frame app_state_new_def
        typed_queues_def channel_new_def)
qed

lemma typed_server_upd:
  "typed_state J st \<Longrightarrow> typed_server J s \<Longrightarrow> typed_server J (set_state st s)"
  by (simp add: typed_server_def)

lemma typed_step_agent:
  assumes "server_step L J hash secret vm_url k s s'" "typed_server J s" "json_lib_ok J" and k: "k = TAccept \<or> k = TStream"
  shows "typed_server J s'"
proof -
  have st: "typed_state J (sv_state s)" using assms(2) by (simp add: typed_server_def)
  show ?thesis
    using assms(1)
  proof cases
    case (agent_rejected c0 c c' md status m)
    with st assms(2) show ?thesis by (simp add: typed_server_upd typed_metrics)
  next
    case (agent_connects c0 c c' md md' m a)
    with st assms(2) show ?thesis by (simp add: typed_server_def typed_metrics)
  next
    case (agent_sends i a cmds e t)
    with typed_event [OF assms(3) agent_sends(5)] st assms(2) show ?thesis by (simp add: typed_server_def)
  next
    case (stream_ends i a cmds e t)
    with typed_event [OF assms(3) stream_ends(5)] st assms(2) show ?thesis by (simp add: typed_server_def)
  next
    case (ack_sent i a cmds ack t)
    with send_ack_state [OF ack_sent(5)] st assms(2) show ?thesis by (simp add: typed_server_def)
  next
    case (ack_fails i a cmds ack t)
    with send_ack_state [OF ack_fails(5)] st assms(2) show ?thesis by (simp add: typed_server_def)
  next
    case (command_read i a cmds w)
    with assms(2) show ?thesis by (simp add: typed_server_def)
  qed (use k in simp_all)
qed

lemma typed_step_background:
  assumes "server_step L J hash secret vm_url k s s'" "typed_server J s" "json_lib_ok J" and k: "(\<exists>i. k = TWorker i) \<or> k = TPush \<or> k = TLiveness \<or> k = TCleanup"
  shows "typed_server J s'"
proof -
  have st: "typed_state J (sv_state s)" using assms(2) by (simp add: typed_server_def)
  show ?thesis
    using assms(1)
  proof cases
    case (worker_turn i io)
    with st assms(2) show ?thesis by (simp add: typed_server_def typed_worker_step)
  next
    case (push_ends n failed)
    have "typed_state J (ig_state (vm_post_done n failed (sv_ingest s)))"
      using st by (auto simp: vm_post_done_def ig_count_def Let_def intro: typed_metrics)
    with push_ends assms(2) show ?thesis by (simp add: typed_server_def)
  next
    case (liveness_walks order now ts st)
    with typed_scan [OF st liveness_walks(3,5)] assms(2) show ?thesis by (simp add: typed_server_def)
  next
    case (liveness_publishes x xs io)
    obtain n t v where x: "x = (n, t, v)" by (cases x)
    with liveness_publishes assms(2) have "\<forall>w. snd (snd x) = Some w \<longrightarrow> typed_value J w"
      by (auto simp: typed_server_def)
    from typed_publish [OF st this, of io] liveness_publishes assms(2) show ?thesis by (simp add: typed_server_def)
  next
    case (cleanup o1 o2 now)
    with st assms(2) show ?thesis by (simp add: typed_server_upd typed_cleanup)
  qed (use k in simp_all)
qed

lemma typed_step_http:
  assumes "server_step L J hash secret vm_url k s s'" "typed_server J s" "json_lib_ok J" and k: "k = THttp \<or> k = TRequest \<or> k = TSocket"
  shows "typed_server J s'"
proof -
  have st: "typed_state J (sv_state s)" using assms(2) by (simp add: typed_server_def)
  show ?thesis
    using assms(1)
  proof cases
    case (http_request io req r reply st')
    with typed_route [OF http_request(3) st] assms(2) show ?thesis by (simp add: typed_server_upd)
  next
    case (node_read io req m node_id res)
    have "typed_value J v" if "Inr (Some n) = res" "nf_latest_stats n = Some v" for n v
      using typed_node_answer [OF _ node_read(5) run_select_node that(2), of J "as_db (sv_state s)" "hi_outcome io" node_id]
        node_read(6) st that(1) [symmetric] by (simp add: typed_state_def)
    with node_read assms(2) typed_metrics [OF st] show ?thesis by (auto simp: typed_server_def)
  next
    case (node_replied i reply st')
    then have "typed_value J v" if "sv_reads s ! i = Inr (Some n)" "nf_latest_stats n = Some v" for n v
      using assms(2) that nth_mem [of i "sv_reads s"] by (auto simp: typed_server_def)
    with node_replied typed_reply [OF st, of "sv_reads s ! i" J] assms(2) show ?thesis
      by (auto simp: typed_server_def dest: subsetD [OF set_drop_nth])
  next
    case (read_dropped i)
    with assms(2) show ?thesis by (auto simp: typed_server_def dest: subsetD [OF set_drop_nth])
  next
    case (dashboard_connects io req flt d st')
    with typed_route [OF dashboard_connects(3) st] assms(2) show ?thesis by (simp add: typed_server_def)
  next
    case (dashboard_refused io req flt reply st')
    with typed_route [OF dashboard_refused(3) st] assms(2) show ?thesis by (simp add: typed_server_upd)
  next
    case (dashboard_forwards i ser sent d)
    with assms(2) show ?thesis by (simp add: typed_server_def)
  next
    case (dashboard_ends i)
    with st assms(2) show ?thesis by (simp add: typed_server_def ws_disconnect_def ws_count_def typed_count)
  qed (use k in simp_all)
qed

lemma typed_step:
  assumes "server_step L J hash secret vm_url k s s'" "typed_server J s" "json_lib_ok J"
  shows "typed_server J s'"
  using typed_step_agent [OF assms] typed_step_background [OF assms] typed_step_http [OF assms] by (cases k) simp_all

lemma typed_reachable:
  assumes "server_reachable L J hash secret vm_url s0 s" "typed_server J s0" "json_lib_ok J"
  shows "typed_server J s"
  using assms by induction (simp_all add: typed_step)

subsection \<open>Properties\<close>

text \<open>
  C9: the server's JSON values are well typed. In every state the server can reach from a database
  whose snapshots are, every queued item carries the object of a serialised message together with
  its text, every stored snapshot is null or what the database reads from the text of such an
  object, and every value in the registry, in a broadcast update or in an offline transition still
  to be published is one of these, and so is every value the database has answered to a waiting
  request.
\<close>

theorem server_values_typed:
  assumes "json_lib_ok J" "typed_db J db" "scan_ok scan" "distinct ids" "set ids = dom (db_nodes db)"
    and "server_reachable L J hash secret vm_url (server_start scan ids outcome db) s"
  shows "typed_server J s"
  using assms(6) typed_start [OF assms(2-5)] assms(1) by (rule typed_reachable)

theorem server_values_typed_witness:
  "typed_server demo_json_lib (set_state (cleanup_tick Executed Executed 604800015 (sv_state (server_start id [] Executed database_new)))
     (server_start id [] Executed database_new))"
proof (rule server_values_typed [OF demo_json_lib_ok])
  show "server_reachable demo_lib demo_json_lib (\<lambda>_. 7) [1, 2, 3] None (server_start id [] Executed database_new)
     (set_state (cleanup_tick Executed Executed 604800015 (sv_state (server_start id [] Executed database_new)))
       (server_start id [] Executed database_new))"
    by (rule server_reachable.step [OF server_reachable.start server_step.cleanup])
qed (simp_all add: typed_db_def database_new_def scan_ok_def)

end
