(* ===== verification/Pulse_Lifecycle.thy ===== *)
theory Pulse_Lifecycle
  imports Pulse_Server
begin

text \<open>
  The function \<open>main\<close> of src/pulse-server/src/main.rs from its first statement to its last: the
  order in which it connects, migrates, reads its settings and binds, each with the error it
  returns; the tasks it leaves running; and the shutdown after Ctrl-C.

  The workers end when their queues are empty and every sender is gone. The senders are in
  \<open>AppState\<close>, of which \<open>main\<close>, the liveness check, the two servers, every telemetry stream,
  every waiting request and every dashboard hold a clone. When the gRPC or the HTTP server ends after the cancellation is
  left open: it may or may not wait for its connections.
\<close>

subsection \<open>The start\<close>

text \<open>\<open>migrate\<close> of the repository passes the error of \<open>sqlx\<close> on with a prefix.\<close>

definition migrate :: "rstr + unit \<Rightarrow> rstr + unit" where
  "migrate run = map_sum (\<lambda>e. lit ''migration failed: '' @ e) id run"

text \<open>What the surroundings answer during the start; \<open>context\<close> replaces an error by its text.\<close>

record 'j boot_io =
  bo_connect :: "rstr \<Rightarrow> rstr + 'j database"
  bo_migrations :: "rstr + unit"
  bo_governor :: bool
  bo_scan :: "'j snapshot_row list \<Rightarrow> 'j snapshot_row list"
  bo_ids :: "rstr list"
  bo_load :: db_outcome
  bo_bind :: "u16 \<Rightarrow> rstr + unit"

definition with_context :: "rstr \<Rightarrow> 'e + 'a \<Rightarrow> rstr + 'a" where
  "with_context msg r = map_sum (\<lambda>_. msg) id r"

text \<open>
  \<open>lc_grpc\<close> and \<open>lc_http\<close> are the results of the two servers, \<open>None\<close> while they run; \<open>lc_main\<close>
  says whether \<open>main\<close> still holds its clone of the state, \<open>lc_workers\<close> which workers run.
\<close>

record 'j lifecycle =
  lc_server :: "'j server"
  lc_cancelled :: bool
  lc_grpc :: "(rstr + unit) option"
  lc_http :: "(rstr + unit) option"
  lc_liveness :: bool
  lc_cleanup :: bool
  lc_main :: bool
  lc_workers :: "bool list"
  lc_exit :: "(rstr + unit) option"

definition lifecycle_start :: "'j server \<Rightarrow> 'j lifecycle" where
  "lifecycle_start s =
     \<lparr>lc_server = s, lc_cancelled = False, lc_grpc = None, lc_http = None, lc_liveness = True, lc_cleanup = True,
      lc_main = True, lc_workers = replicate 4 True, lc_exit = None\<rparr>"

definition server_boot :: "'j boot_io \<Rightarrow> env \<Rightarrow> rstr + (server_config \<times> 'j lifecycle)" where
  "server_boot io env =
     bind_res (with_context (lit ''failed to connect to PostgreSQL database'') (bo_connect io (database_url env))) (\<lambda>db.
     bind_res (with_context (lit ''failed to run database migrations'') (migrate (bo_migrations io))) (\<lambda>_.
     bind_res (if bo_governor io then Inr () else Inl (lit ''failed to build governor config'')) (\<lambda>_.
     let s = server_start (bo_scan io) (bo_ids io) (bo_load io) db in
     bind_res (auth_secret_var env) (\<lambda>auth_secret.
     bind_res (grpc_port env) (\<lambda>grpc.
     bind_res (http_port env) (\<lambda>http.
     bind_res (with_context (lit ''failed to bind HTTP listener'') (bo_bind io http)) (\<lambda>_.
       Inr (\<lparr>sc_database_url = database_url env, sc_vm_url = vm_import_url (env (lit ''VICTORIAMETRICS_URL'')),
             sc_auth_secret = utf8 auth_secret, sc_grpc_port = grpc, sc_http_port = http\<rparr>, lifecycle_start s))))))))"

subsection \<open>Running and shutting down\<close>

text \<open>The tasks that are still there to take steps.\<close>

fun lc_runs :: "'j lifecycle \<Rightarrow> task \<Rightarrow> bool" where
  "lc_runs l TAccept \<longleftrightarrow> lc_grpc l = None"
| "lc_runs l THttp \<longleftrightarrow> lc_http l = None"
| "lc_runs l TLiveness \<longleftrightarrow> lc_liveness l"
| "lc_runs l TCleanup \<longleftrightarrow> lc_cleanup l"
| "lc_runs l (TWorker i) \<longleftrightarrow> i < length (lc_workers l) \<and> lc_workers l ! i"
| "lc_runs l TStream \<longleftrightarrow> True"
| "lc_runs l TRequest \<longleftrightarrow> True"
| "lc_runs l TSocket \<longleftrightarrow> True"
| "lc_runs l TPush \<longleftrightarrow> True"

abbreviation lc_queues :: "'j lifecycle \<Rightarrow> 'j ingestion_item channel list" where
  "lc_queues l \<equiv> as_worker_txs (sv_state (lc_server l))"

text \<open>No clone of the state is left, so that the channels of the workers are closed.\<close>

definition senders_gone :: "'j lifecycle \<Rightarrow> bool" where
  "senders_gone l \<longleftrightarrow>
     \<not> lc_main l \<and> lc_grpc l \<noteq> None \<and> lc_http l \<noteq> None \<and> \<not> lc_liveness l \<and>
     sv_streams (lc_server l) = [] \<and> sv_reads (lc_server l) = [] \<and> sv_sockets (lc_server l) = []"

inductive lifecycle_step ::
  "'v auth_lib \<Rightarrow> 'j json_lib \<Rightarrow> (rstr \<Rightarrow> u64) \<Rightarrow> u8 list \<Rightarrow> rstr option \<Rightarrow> 'j lifecycle \<Rightarrow> 'j lifecycle \<Rightarrow> bool"
  for L :: "'v auth_lib" and J :: "'j json_lib" and hash :: "rstr \<Rightarrow> u64" and secret :: "u8 list"
    and vm_url :: "rstr option" where
  serves:
    "lc_exit l = None \<Longrightarrow> lc_runs l k \<Longrightarrow> server_step L J hash secret vm_url k (lc_server l) s' \<Longrightarrow>
     lifecycle_step L J hash secret vm_url l (l\<lparr>lc_server := s'\<rparr>)"
| ctrl_c:
    "lc_exit l = None \<Longrightarrow> \<not> lc_cancelled l \<Longrightarrow> lifecycle_step L J hash secret vm_url l (l\<lparr>lc_cancelled := True\<rparr>)"
| liveness_stops:
    "lc_exit l = None \<Longrightarrow> lc_cancelled l \<Longrightarrow> lc_liveness l \<Longrightarrow> sv_pending (lc_server l) = [] \<Longrightarrow>
     lifecycle_step L J hash secret vm_url l (l\<lparr>lc_liveness := False\<rparr>)"
| cleanup_stops:
    "lc_exit l = None \<Longrightarrow> lc_cancelled l \<Longrightarrow> lc_cleanup l \<Longrightarrow>
     lifecycle_step L J hash secret vm_url l (l\<lparr>lc_cleanup := False\<rparr>)"
| grpc_ends:
    "lc_exit l = None \<Longrightarrow> lc_grpc l = None \<Longrightarrow> lc_cancelled l \<or> isl r \<Longrightarrow>
     lifecycle_step L J hash secret vm_url l (l\<lparr>lc_grpc := Some r\<rparr>)"
| http_ends:
    "lc_exit l = None \<Longrightarrow> lc_http l = None \<Longrightarrow> lc_cancelled l \<or> isl r \<Longrightarrow>
     lifecycle_step L J hash secret vm_url l (l\<lparr>lc_http := Some r\<rparr>)"
| main_drops_state:
    "lc_exit l = None \<Longrightarrow> lc_grpc l \<noteq> None \<Longrightarrow> lc_http l \<noteq> None \<Longrightarrow> lc_main l \<Longrightarrow>
     lifecycle_step L J hash secret vm_url l (l\<lparr>lc_main := False\<rparr>)"
| worker_ends:
    "lc_exit l = None \<Longrightarrow> senders_gone l \<Longrightarrow> i < length (lc_workers l) \<Longrightarrow> lc_workers l ! i \<Longrightarrow>
     ch_queue (lc_queues l ! i) = [] \<Longrightarrow>
     lifecycle_step L J hash secret vm_url l (l\<lparr>lc_workers := (lc_workers l)[i := False]\<rparr>)"
| main_returns:
    "lc_exit l = None \<Longrightarrow> \<not> lc_main l \<Longrightarrow> True \<notin> set (lc_workers l) \<Longrightarrow>
     lifecycle_step L J hash secret vm_url l (l\<lparr>lc_exit := Some (Inr ())\<rparr>)"

inductive lifecycle_reachable ::
  "'v auth_lib \<Rightarrow> 'j json_lib \<Rightarrow> (rstr \<Rightarrow> u64) \<Rightarrow> u8 list \<Rightarrow> rstr option \<Rightarrow> 'j lifecycle \<Rightarrow> 'j lifecycle \<Rightarrow> bool"
  for L :: "'v auth_lib" and J :: "'j json_lib" and hash :: "rstr \<Rightarrow> u64" and secret :: "u8 list"
    and vm_url :: "rstr option" and l0 :: "'j lifecycle" where
  start: "lifecycle_reachable L J hash secret vm_url l0 l0"
| step: "lifecycle_reachable L J hash secret vm_url l0 l \<Longrightarrow> lifecycle_step L J hash secret vm_url l l' \<Longrightarrow>
         lifecycle_reachable L J hash secret vm_url l0 l'"

inductive_cases lifecycle_stepE: "lifecycle_step L J hash secret vm_url l l'"

subsection \<open>Specification\<close>

definition lifecycle_inv :: "(rstr \<Rightarrow> u64) \<Rightarrow> 'j lifecycle \<Rightarrow> bool" where
  "lifecycle_inv hash l \<longleftrightarrow>
     server_inv hash (lc_server l) \<and> length (lc_workers l) = 4 \<and>
     (\<not> lc_liveness l \<longrightarrow> sv_pending (lc_server l) = []) \<and>
     (\<forall>i < 4. \<not> lc_workers l ! i \<longrightarrow> senders_gone l \<and> ch_queue (lc_queues l ! i) = []) \<and>
     (lc_exit l \<noteq> None \<longrightarrow> lc_exit l = Some (Inr ()) \<and> True \<notin> set (lc_workers l))"

text \<open>What is left to do once the senders are gone.\<close>

definition drain_work :: "'j lifecycle \<Rightarrow> nat" where
  "drain_work l =
     2 * sum_list (map (\<lambda>c. length (ch_queue c)) (lc_queues l)) + length (ig_vm_posts (sv_ingest (lc_server l))) +
     length (filter id (lc_workers l)) + (if lc_exit l = None then 1 else 0) + (if lc_cancelled l then 0 else 1)"

subsection \<open>Lemmas: the steps that are left once the senders are gone\<close>

lemma worker_step_queues:
  "as_worker_txs (ig_state (worker_step J u i io ig)) =
     (if i < length (as_worker_txs (ig_state ig)) \<and> ch_queue (as_worker_txs (ig_state ig) ! i) \<noteq> []
      then (as_worker_txs (ig_state ig))[i := (as_worker_txs (ig_state ig) ! i)
             \<lparr>ch_queue := tl (ch_queue (as_worker_txs (ig_state ig) ! i))\<rparr>]
      else as_worker_txs (ig_state ig))"
  by (cases "ch_queue (as_worker_txs (ig_state ig) ! i)")
    (auto simp: worker_step_def worker_recv_def channel_recv_def)

lemma worker_step_idle:
  "\<not> (i < length (as_worker_txs (ig_state ig)) \<and> ch_queue (as_worker_txs (ig_state ig) ! i) \<noteq> []) \<Longrightarrow>
   worker_step J u i io ig = ig"
  by (auto simp: worker_step_def worker_recv_def channel_recv_def split: list.split)

lemma worker_step_posts:
  "length (ig_vm_posts (worker_step J u i io ig)) \<le> Suc (length (ig_vm_posts ig))"
proof -
  have item: "length (ig_vm_posts (handle_item J u io x ig)) \<le> Suc (length (ig_vm_posts ig))" for x and ig :: "'a ingest"
    by (cases x) (auto simp: handle_item.simps vm_push_def ig_count_def Let_def split: option.split prod.split)
  show ?thesis
  proof (cases "worker_recv i (ig_state ig)")
    case (Some r)
    then show ?thesis using item [of "fst r" "ig\<lparr>ig_state := snd r\<rparr>"] by (cases r) (simp add: worker_step_def)
  qed (simp add: worker_step_def)
qed

lemma post_done_queues [simp]: "as_worker_txs (ig_state (vm_post_done n failed ig)) = as_worker_txs (ig_state ig)"
  by (simp add: vm_post_done_def ig_count_def Let_def)

lemma post_done_posts:
  "n < length (ig_vm_posts ig) \<Longrightarrow> Suc (length (ig_vm_posts (vm_post_done n failed ig))) = length (ig_vm_posts ig)"
  by (simp add: vm_post_done_def ig_count_def Let_def)

lemma post_done_idle: "\<not> n < length (ig_vm_posts ig) \<Longrightarrow> vm_post_done n failed ig = ig"
  by (simp add: vm_post_done_def)

lemma cleanup_queues [simp]: "as_worker_txs (cleanup_tick o1 o2 now st) = as_worker_txs st"
  by (simp add: cleanup_tick_def with_db_eq Let_def)

lemma drain_cases:
  assumes "senders_gone l" "lc_runs l k" "server_step L J hash secret vm_url k (lc_server l) s'"
  obtains (worker) i io where "k = TWorker i" "s' = (lc_server l)\<lparr>sv_ingest := worker_step J vm_url i io (sv_ingest (lc_server l))\<rparr>"
  | (push) n failed where "k = TPush" "s' = (lc_server l)\<lparr>sv_ingest := vm_post_done n failed (sv_ingest (lc_server l))\<rparr>"
  | (cleaning) o1 o2 now where "k = TCleanup" "s' = set_state (cleanup_tick o1 o2 now (sv_state (lc_server l))) (lc_server l)"
  using assms(3)
proof cases
  case (worker_turn i io)
  then show ?thesis by (rule worker)
next
  case (push_ends n failed)
  then show ?thesis by (rule push)
next
  case (cleanup o1 o2 now)
  then show ?thesis by (rule cleaning)
qed (use assms(1,2) in \<open>simp_all add: senders_gone_def\<close>)

lemma sum_queue_update:
  "i < length cs \<Longrightarrow> ch_queue (cs ! i) \<noteq> [] \<Longrightarrow>
   Suc (sum_list (map (\<lambda>c. length (ch_queue c)) (cs[i := (cs ! i)\<lparr>ch_queue := tl (ch_queue (cs ! i))\<rparr>]))) =
   sum_list (map (\<lambda>c. length (ch_queue c)) cs)"
proof (induction cs arbitrary: i)
  case (Cons c cs)
  then show ?case by (cases i) (simp_all add: Suc_diff_le)
qed simp

lemma filter_id_update: "i < length bs \<Longrightarrow> bs ! i \<Longrightarrow> Suc (length (filter id (bs[i := False]))) = length (filter id bs)"
proof (induction bs arbitrary: i)
  case (Cons b bs)
  then show ?case by (cases i) auto
qed simp

subsection \<open>Lemmas: the invariant\<close>

lemma lifecycle_invI:
  assumes "server_inv hash (lc_server l)" "length (lc_workers l) = 4"
    and "\<not> lc_liveness l \<Longrightarrow> sv_pending (lc_server l) = []"
    and "\<And>i. i < 4 \<Longrightarrow> \<not> lc_workers l ! i \<Longrightarrow> senders_gone l \<and> ch_queue (lc_queues l ! i) = []"
    and "lc_exit l \<noteq> None \<Longrightarrow> lc_exit l = Some (Inr ()) \<and> True \<notin> set (lc_workers l)"
  shows "lifecycle_inv hash l"
  using assms unfolding lifecycle_inv_def by blast

lemma lifecycle_invD:
  assumes "lifecycle_inv hash l"
  shows "server_inv hash (lc_server l)" "length (lc_workers l) = 4"
    "\<not> lc_liveness l \<Longrightarrow> sv_pending (lc_server l) = []"
    "i < 4 \<Longrightarrow> \<not> lc_workers l ! i \<Longrightarrow> senders_gone l"
    "i < 4 \<Longrightarrow> \<not> lc_workers l ! i \<Longrightarrow> ch_queue (lc_queues l ! i) = []"
    "lc_exit l \<noteq> None \<Longrightarrow> lc_exit l = Some (Inr ()) \<and> True \<notin> set (lc_workers l)"
  using assms unfolding lifecycle_inv_def by blast+

lemma senders_gone_upd:
  assumes "senders_gone l" "sv_streams s' = sv_streams (lc_server l)" "sv_sockets s' = sv_sockets (lc_server l)"
    and "sv_reads s' = sv_reads (lc_server l)"
  shows "senders_gone (l\<lparr>lc_server := s'\<rparr>)"
  using assms by (simp add: senders_gone_def)

text \<open>With the senders gone a worker that has ended finds nothing new in its queue.\<close>

lemma drained_stays:
  assumes "senders_gone l" "lc_runs l k" "server_step L J hash secret vm_url k (lc_server l) s'"
    and "ch_queue (lc_queues l ! i) = []"
  shows "senders_gone (l\<lparr>lc_server := s'\<rparr>) \<and> ch_queue (as_worker_txs (sv_state s') ! i) = []"
  using assms(1-3)
proof (cases rule: drain_cases)
  case (worker j io)
  with assms show ?thesis
    by (cases "i = j") (auto simp: worker_step_queues nth_list_update intro: senders_gone_upd)
next
  case (push n failed)
  with assms show ?thesis by (auto intro: senders_gone_upd)
next
  case (cleaning o1 o2 now)
  with assms show ?thesis by (auto simp: set_state_def intro: senders_gone_upd)
qed

lemma pending_kept:
  assumes "server_step L J hash secret vm_url k s s'" "k \<noteq> TLiveness"
  shows "sv_pending s' = sv_pending s"
  using assms(1)
proof cases
qed (use assms(2) in \<open>simp_all add: set_state_def\<close>)

lemma lifecycle_inv_step:
  assumes "lifecycle_step L J hash secret vm_url l l'" "lifecycle_inv hash l"
  shows "lifecycle_inv hash l'"
  using assms(1)
proof cases
  case (serves k s')
  note inv = lifecycle_invD [OF assms(2)]
  show ?thesis
  proof (rule lifecycle_invI)
    show "server_inv hash (lc_server l')" using server_inv_step [OF serves(4) inv(1)] serves(1) by simp
    show "length (lc_workers l') = 4" using inv(2) serves(1) by simp
    show "sv_pending (lc_server l') = []" if "\<not> lc_liveness l'"
      using that pending_kept [OF serves(4)] serves(1,3) inv(3) by fastforce
    show "senders_gone l' \<and> ch_queue (lc_queues l' ! i) = []" if "i < 4" "\<not> lc_workers l' ! i" for i
      using drained_stays [OF _ serves(3,4)] inv(4,5) [OF that(1)] that(2) serves(1) by simp
  qed (use serves(1,2) in simp)
next
  case (worker_ends i)
  note inv = lifecycle_invD [OF assms(2)]
  have gone: "senders_gone l'" using worker_ends by (simp add: senders_gone_def)
  show ?thesis
  proof (rule lifecycle_invI)
    show "senders_gone l' \<and> ch_queue (lc_queues l' ! j) = []" if "j < 4" "\<not> lc_workers l' ! j" for j
      using gone that worker_ends inv(5) [OF that(1)] by (cases "j = i") simp_all
  qed (use worker_ends inv in simp_all)
next
  case main_returns
  with assms(2) show ?thesis by (simp add: lifecycle_inv_def senders_gone_def)
qed (use assms(2) in \<open>auto simp: lifecycle_inv_def senders_gone_def\<close>)

lemma lifecycle_inv_start: "server_inv hash s \<Longrightarrow> sv_pending s = [] \<Longrightarrow> lifecycle_inv hash (lifecycle_start s)"
  by (auto simp: lifecycle_inv_def lifecycle_start_def)

lemma lifecycle_inv_reachable:
  assumes "lifecycle_reachable L J hash secret vm_url l0 l" "lifecycle_inv hash l0"
  shows "lifecycle_inv hash l"
  using assms by induction (simp_all add: lifecycle_inv_step)

subsection \<open>Lemmas: the start\<close>

lemma with_context_Inr_iff [simp]: "with_context msg r = Inr x \<longleftrightarrow> r = Inr x"
  by (cases r) (simp_all add: with_context_def)

lemma migrate_Inr_iff [simp]: "migrate r = Inr x \<longleftrightarrow> r = Inr x"
  by (cases r) (simp_all add: migrate_def)

lemma server_boot_Inr:
  assumes "server_boot io env = Inr (cfg, l)"
  obtains db where "bo_connect io (database_url env) = Inr db" "server_config_from_env env = Inr cfg"
    "l = lifecycle_start (server_start (bo_scan io) (bo_ids io) (bo_load io) db)"
  using assms by (auto simp: server_boot_def server_config_from_env_def Let_def bind_res_Inr_iff split: if_splits)

lemma server_start_idle [simp]:
  "sv_streams (server_start scan ids oc db) = []" "sv_pending (server_start scan ids oc db) = []"
  by (simp_all add: server_start_def)

lemma lifecycle_inv_boot:
  assumes "server_boot io env = Inr (cfg, l0)" "scan_ok (bo_scan io)" "distinct (bo_ids io)"
    and "\<forall>db. bo_connect io (database_url env) = Inr db \<longrightarrow> set (bo_ids io) = dom (db_nodes db) \<and> db_ok db"
    and "lifecycle_reachable L J hash secret vm_url l0 l"
  shows "lifecycle_inv hash l"
proof -
  from assms(1) obtain db where "bo_connect io (database_url env) = Inr db"
    "l0 = lifecycle_start (server_start (bo_scan io) (bo_ids io) (bo_load io) db)"
    by (rule server_boot_Inr)
  with assms(2-4) have "lifecycle_inv hash l0" by (auto simp add: lifecycle_inv_start server_inv_start)
  with assms(5) show ?thesis by (rule lifecycle_inv_reachable)
qed

subsection \<open>Lemmas: draining\<close>

lemma drain_step_decreases:
  assumes "senders_gone l" "\<not> lc_cleanup l" "lifecycle_step L J hash secret vm_url l l'" "l' \<noteq> l"
  shows "drain_work l' < drain_work l \<and> senders_gone l' \<and> \<not> lc_cleanup l'"
  using assms(3)
proof cases
  case (serves k s')
  from assms(1) serves(3,4) show ?thesis
  proof (cases rule: drain_cases)
    case (worker i io)
    let ?ig = "sv_ingest (lc_server l)"
    have q: "i < length (lc_queues l) \<and> ch_queue (lc_queues l ! i) \<noteq> []"
    proof (rule ccontr)
      assume "\<not> ?thesis"
      from worker_step_idle [OF this, of J vm_url io] worker(2) serves(1) have "l' = l" by simp
      with assms(4) show False by simp
    qed
    from sum_queue_update [OF conjunct1 [OF q] conjunct2 [OF q]] worker_step_posts [of J vm_url i io ?ig]
    show ?thesis using assms(1,2) serves(1) worker q
      by (auto simp: drain_work_def worker_step_queues senders_gone_def)
  next
    case (push n failed)
    have "n < length (ig_vm_posts (sv_ingest (lc_server l)))"
      using push(2) serves(1) assms(4) post_done_idle [of n "sv_ingest (lc_server l)" failed] by force
    from post_done_posts [OF this, of failed] push serves(1) assms(1,2) show ?thesis
      by (auto simp: drain_work_def senders_gone_def)
  next
    case cleaning
    with serves(3) assms(2) show ?thesis by simp
  qed
next
  case (worker_ends i)
  from filter_id_update [OF worker_ends(4,5)] worker_ends(1) assms(1,2) show ?thesis
    by (auto simp: drain_work_def senders_gone_def)
qed (use assms(1,2) in \<open>auto simp: drain_work_def senders_gone_def\<close>)

lemma drain_step_exists:
  assumes "senders_gone l" "lifecycle_inv hash l" "lc_exit l = None"
  shows "\<exists>l'. lifecycle_step L J hash secret vm_url l l' \<and> l' \<noteq> l"
proof (cases "True \<in> set (lc_workers l)")
  case True
  then obtain i where i: "i < length (lc_workers l)" "lc_workers l ! i" by (auto simp: in_set_conv_nth)
  show ?thesis
  proof (cases "ch_queue (lc_queues l ! i) = []")
    case True
    let ?l' = "l\<lparr>lc_workers := (lc_workers l)[i := False]\<rparr>"
    have "lc_workers ?l' ! i \<noteq> lc_workers l ! i" using i by simp
    then have "?l' \<noteq> l" by force
    with lifecycle_step.worker_ends [OF assms(3,1) i True] show ?thesis by blast
  next
    case False
    let ?ig = "sv_ingest (lc_server l)"
    let ?s' = "(lc_server l)\<lparr>sv_ingest := worker_step J vm_url i undefined ?ig\<rparr>"
    have "i < length (lc_queues l)"
      using i(1) lifecycle_invD(1,2) [OF assms(2)] by (simp add: server_inv_def state_inv_def)
    with False sum_queue_update [OF this False] have "lc_queues (l\<lparr>lc_server := ?s'\<rparr>) \<noteq> lc_queues l"
      by (auto simp: worker_step_queues)
    then have "l\<lparr>lc_server := ?s'\<rparr> \<noteq> l" by force
    moreover have "lifecycle_step L J hash secret vm_url l (l\<lparr>lc_server := ?s'\<rparr>)"
      by (rule lifecycle_step.serves [where k = "TWorker i"]) (use assms(3) i in \<open>auto intro: server_step.worker_turn\<close>)
    ultimately show ?thesis by blast
  qed
next
  case False
  let ?l' = "l\<lparr>lc_exit := Some (Inr ())\<rparr>"
  have "lc_exit ?l' \<noteq> lc_exit l" using assms(3) by simp
  then have "?l' \<noteq> l" by force
  moreover have "lifecycle_step L J hash secret vm_url l ?l'"
    by (rule lifecycle_step.main_returns) (use assms(1,3) False in \<open>simp_all add: senders_gone_def\<close>)
  ultimately show ?thesis by blast
qed

subsection \<open>Lemmas: a gRPC server that has failed\<close>

abbreviation stream_ids_of :: "'j server \<Rightarrow> rstr multiset" where
  "stream_ids_of s \<equiv> mset (map fst (sv_streams s))"

lemma update_keeps_fst: "i < length xs \<Longrightarrow> xs ! i = (a, c) \<Longrightarrow> map fst (xs[i := (a, d)]) = map fst xs"
  by (metis fst_conv list_update_id map_update)

lemma drop_nth_subset: "mset (map f (drop_nth i xs)) \<subseteq># mset (map f xs)"
proof -
  have "mset (map f (tl ys)) \<subseteq># mset (map f ys)" for ys by (cases ys) simp_all
  then have "mset (map f (drop (Suc i) xs)) \<subseteq># mset (map f (drop i xs))" by (simp only: drop_Suc tl_drop [symmetric])
  moreover have "mset (map f xs) = mset (map f (take i xs)) + mset (map f (drop i xs))"
    by (metis append_take_drop_id map_append mset_append)
  ultimately show ?thesis by (simp only: drop_nth_def map_append mset_append) (rule mset_subset_eq_mono_add_left_cancel [THEN iffD2])
qed

lemma no_stream_without_acceptor:
  assumes "server_step L J hash secret vm_url k s s'" "k \<noteq> TAccept"
  shows "stream_ids_of s' \<subseteq># stream_ids_of s \<and> sv_ids s' = sv_ids s"
  using assms(1)
proof cases
qed (use assms(2) in \<open>simp_all add: set_state_def drop_nth_subset update_keeps_fst del: mset_map\<close>)

lemma failed_grpc_stays:
  assumes "lifecycle_step L J hash secret vm_url l l'" "lc_grpc l = Some r"
  shows "lc_grpc l' = Some r \<and> stream_ids_of (lc_server l') \<subseteq># stream_ids_of (lc_server l) \<and> sv_ids (lc_server l') = sv_ids (lc_server l)"
  using assms(1)
proof cases
  case (serves k s')
  then have "k \<noteq> TAccept" using assms(2) by auto
  with serves assms(2) no_stream_without_acceptor [OF serves(4)] show ?thesis by simp
qed (use assms(2) in simp_all)

lemma failed_grpc_reachable:
  assumes "lifecycle_reachable L J hash secret vm_url l0 l" "lc_grpc l0 = Some r"
  shows "lc_grpc l = Some r \<and> stream_ids_of (lc_server l) \<subseteq># stream_ids_of (lc_server l0) \<and> sv_ids (lc_server l) = sv_ids (lc_server l0)"
  using assms(1)
proof induction
  case (step l l')
  with failed_grpc_stays [OF step(2), of r] show ?case by (auto intro: subset_mset.order_trans)
qed (use assms(2) in simp)

lemma main_waits_for_http:
  assumes "lifecycle_reachable L J hash secret vm_url l0 l" "lc_http l0 = None \<longrightarrow> lc_main l0"
  shows "lc_http l = None \<longrightarrow> lc_main l"
  using assms(1)
proof induction
  case (step l l')
  from step(2,3) show ?case by cases auto
qed (use assms(2) in simp)

lemma lifecycle_reachable_trans:
  assumes "lifecycle_reachable L J hash secret vm_url l1 l2" "lifecycle_reachable L J hash secret vm_url l0 l1"
  shows "lifecycle_reachable L J hash secret vm_url l0 l2"
  using assms by induction (auto intro: lifecycle_reachable.step)

subsection \<open>An instance of the start\<close>

definition demo_boot :: "demo_json boot_io" where
  "demo_boot =
     \<lparr>bo_connect = (\<lambda>_. Inr demo_db), bo_migrations = Inr (), bo_governor = True, bo_scan = id, bo_ids = [[110]],
      bo_load = Executed, bo_bind = (\<lambda>_. Inr ())\<rparr>"

definition demo_env :: env where
  "demo_env = [lit ''PULSE_AUTH_SECRET'' \<mapsto> lit ''pw'']"

abbreviation demo_lifecycle :: "demo_json lifecycle" where
  "demo_lifecycle \<equiv> lifecycle_start (server_start id [[110]] Executed demo_db)"

lemma demo_booted: "\<exists>cfg. server_boot demo_boot demo_env = Inr (cfg, demo_lifecycle)"
  by (simp add: server_boot_def demo_boot_def demo_env_def with_context_def migrate_def auth_secret_var_def grpc_port_def
      http_port_def parse_u16_def parse_unsigned_def strip_plus_def parse_nat_def digit_def Let_def lit_def)

lemma demo_boot_db:
  "scan_ok (bo_scan demo_boot)" "distinct (bo_ids demo_boot)"
  "\<forall>db. bo_connect demo_boot (database_url demo_env) = Inr db \<longrightarrow> set (bo_ids demo_boot) = dom (db_nodes db) \<and> db_ok db"
  using demo_start by (auto simp: demo_boot_def)

lemma demo_queues: "i < 4 \<Longrightarrow> ch_queue (lc_queues demo_lifecycle ! i) = []"
  by (simp add: lifecycle_start_def server_start_def ingest_new_def load_nodes_frame app_state_new_def channel_new_def)

text \<open>Ctrl-C on a server without clients: everything ends in turn.\<close>

abbreviation demo_stopped :: "demo_json lifecycle" where
  "demo_stopped \<equiv> demo_lifecycle\<lparr>lc_cancelled := True, lc_liveness := False, lc_cleanup := False,
     lc_grpc := Some (Inr ()), lc_http := Some (Inr ()), lc_main := False\<rparr>"

lemma demo_stops: "lifecycle_reachable L J hash secret vm_url demo_lifecycle demo_stopped"
proof -
  let ?R = "lifecycle_reachable L J hash secret vm_url demo_lifecycle"
  let ?l1 = "demo_lifecycle\<lparr>lc_cancelled := True\<rparr>"
  let ?l3 = "?l1\<lparr>lc_liveness := False, lc_cleanup := False\<rparr>"
  let ?l5 = "?l3\<lparr>lc_grpc := Some (Inr ()), lc_http := Some (Inr ())\<rparr>"
  have "?R ?l1" by (rule lifecycle_reachable.step [OF lifecycle_reachable.start lifecycle_step.ctrl_c])
    (simp_all add: lifecycle_start_def)
  then have "?R (?l1\<lparr>lc_liveness := False\<rparr>)"
    by (rule lifecycle_reachable.step [OF _ lifecycle_step.liveness_stops]) (simp_all add: lifecycle_start_def)
  then have "?R (?l1\<lparr>lc_liveness := False\<rparr>\<lparr>lc_cleanup := False\<rparr>)"
    by (rule lifecycle_reachable.step [OF _ lifecycle_step.cleanup_stops]) (simp_all add: lifecycle_start_def)
  then have "?R (?l3\<lparr>lc_grpc := Some (Inr ())\<rparr>)"
    by (rule lifecycle_reachable.step [OF _ lifecycle_step.grpc_ends]) (simp_all add: lifecycle_start_def)
  then have "?R (?l3\<lparr>lc_grpc := Some (Inr ())\<rparr>\<lparr>lc_http := Some (Inr ())\<rparr>)"
    by (rule lifecycle_reachable.step [OF _ lifecycle_step.http_ends]) (simp_all add: lifecycle_start_def)
  then have "?R (?l5\<lparr>lc_main := False\<rparr>)"
    by (rule lifecycle_reachable.step [OF _ lifecycle_step.main_drops_state]) (simp_all add: lifecycle_start_def)
  then show ?thesis by simp
qed

lemma demo_stopped_gone: "senders_gone demo_stopped" "\<not> lc_cleanup demo_stopped"
  by (simp_all add: senders_gone_def lifecycle_start_def server_start_def)

lemma demo_worker_ends:
  assumes "lifecycle_reachable L J hash secret vm_url demo_lifecycle (demo_stopped\<lparr>lc_workers := ws\<rparr>)"
    and "length ws = 4" "i < 4" "ws ! i"
  shows "lifecycle_reachable L J hash secret vm_url demo_lifecycle (demo_stopped\<lparr>lc_workers := ws[i := False]\<rparr>)"
proof -
  let ?l = "demo_stopped\<lparr>lc_workers := ws\<rparr>"
  have "lifecycle_step L J hash secret vm_url ?l (?l\<lparr>lc_workers := (lc_workers ?l)[i := False]\<rparr>)"
    by (rule lifecycle_step.worker_ends)
      (use assms(2-4) demo_queues [OF assms(3)] in \<open>simp_all add: senders_gone_def lifecycle_start_def server_start_def\<close>)
  from lifecycle_reachable.step [OF assms(1) this] show ?thesis by simp
qed

lemma demo_exits:
  "lifecycle_reachable L J hash secret vm_url demo_lifecycle
     (demo_stopped\<lparr>lc_workers := [False, False, False, False], lc_exit := Some (Inr ())\<rparr>)"
proof -
  let ?R = "lifecycle_reachable L J hash secret vm_url demo_lifecycle"
  have "?R (demo_stopped\<lparr>lc_workers := [True, True, True, True]\<rparr>)"
    using demo_stops by (simp add: lifecycle_start_def numeral_eq_Suc)
  from demo_worker_ends [OF this, of 0] have "?R (demo_stopped\<lparr>lc_workers := [False, True, True, True]\<rparr>)" by simp
  from demo_worker_ends [OF this, of 1] have "?R (demo_stopped\<lparr>lc_workers := [False, False, True, True]\<rparr>)" by simp
  from demo_worker_ends [OF this, of 2] have "?R (demo_stopped\<lparr>lc_workers := [False, False, False, True]\<rparr>)" by simp
  from demo_worker_ends [OF this, of 3] have "?R (demo_stopped\<lparr>lc_workers := [False, False, False, False]\<rparr>)" by simp
  then have "?R (demo_stopped\<lparr>lc_workers := [False, False, False, False]\<rparr>\<lparr>lc_exit := Some (Inr ())\<rparr>)"
    by (rule lifecycle_reachable.step [OF _ lifecycle_step.main_returns]) (simp_all add: lifecycle_start_def)
  then show ?thesis by simp
qed

subsection \<open>Properties\<close>

text \<open>
  C10: a clean exit loses nothing that was accepted. From a successful start, however agents, clients,
  timers, failures of the two servers and Ctrl-C interleave, when \<open>main\<close> has returned it has returned
  \<open>Ok\<close>, all four queues are empty, every offline node found by the liveness check has been published,
  and no stream, no waiting request and no dashboard is left; in particular \<open>main\<close> waits for as long as a client stays.
\<close>

theorem clean_exit_drains:
  assumes "server_boot io env = Inr (cfg, l0)" "scan_ok (bo_scan io)" "distinct (bo_ids io)"
    and "\<forall>db. bo_connect io (database_url env) = Inr db \<longrightarrow> set (bo_ids io) = dom (db_nodes db) \<and> db_ok db"
    and "lifecycle_reachable L J hash secret vm_url l0 l" "lc_exit l \<noteq> None"
  shows "lc_exit l = Some (Inr ()) \<and> (\<forall>c \<in> set (lc_queues l). ch_queue c = []) \<and>
    sv_pending (lc_server l) = [] \<and> sv_streams (lc_server l) = [] \<and> sv_reads (lc_server l) = [] \<and> sv_sockets (lc_server l) = []"
proof -
  have "lifecycle_inv hash l" by (rule lifecycle_inv_boot [OF assms(1-5)])
  note inv = lifecycle_invD [OF this]
  have len: "length (lc_queues l) = 4" using inv(1) by (simp add: server_inv_def state_inv_def)
  have stopped: "\<not> lc_workers l ! i" if "i < 4" for i
    using inv(2,6) assms(6) that by (metis (full_types) nth_mem)
  then have "senders_gone l" using inv(4) [of 0] by simp
  moreover have "\<forall>c \<in> set (lc_queues l). ch_queue c = []"
    using stopped inv(5) len by (auto simp: in_set_conv_nth)
  ultimately show ?thesis using inv(3,6) assms(6) by (simp add: senders_gone_def)
qed

theorem clean_exit_drains_witness:
  "\<exists>l :: demo_json lifecycle. lc_exit l = Some (Inr ()) \<and> (\<forall>c \<in> set (lc_queues l). ch_queue c = []) \<and> lc_cancelled l"
proof -
  obtain cfg where boot: "server_boot demo_boot demo_env = Inr (cfg, demo_lifecycle)" using demo_booted ..
  show ?thesis
    using clean_exit_drains [OF boot demo_boot_db demo_exits [of demo_lib demo_json_lib "\<lambda>_. 7" "[1, 2, 3]" None]] by fastforce
qed

text \<open>
  C11: the shutdown ends. Once \<open>main\<close>, the servers, the liveness check and the clients have let go of the
  state and the cleanup task has stopped, every run of steps that change something has at most \<open>drain_work\<close> steps (twice the queued
  items, the pushes in flight, the running workers and two), and a run that cannot go on has
  returned from \<open>main\<close>.
\<close>

theorem shutdown_terminates:
  assumes "server_boot io env = Inr (cfg, l0)" "scan_ok (bo_scan io)" "distinct (bo_ids io)"
    and "\<forall>db. bo_connect io (database_url env) = Inr db \<longrightarrow> set (bo_ids io) = dom (db_nodes db) \<and> db_ok db"
    and "lifecycle_reachable L J hash secret vm_url l0 l" "senders_gone l" "\<not> lc_cleanup l"
    and "((\<lambda>l l'. lifecycle_step L J hash secret vm_url l l' \<and> l' \<noteq> l) ^^ n) l l'"
  shows "n \<le> drain_work l \<and> (lc_exit l' = None \<longrightarrow> (\<exists>l''. lifecycle_step L J hash secret vm_url l' l'' \<and> l'' \<noteq> l'))"
proof -
  have inv: "lifecycle_inv hash l" by (rule lifecycle_inv_boot [OF assms(1-5)])
  have "n + drain_work l' \<le> drain_work l \<and> senders_gone l' \<and> lifecycle_inv hash l' \<and> \<not> lc_cleanup l'"
    using assms(8)
  proof (induction n arbitrary: l')
    case (Suc n)
    then obtain k where run: "((\<lambda>l l'. lifecycle_step L J hash secret vm_url l l' \<and> l' \<noteq> l) ^^ n) l k"
      and step: "lifecycle_step L J hash secret vm_url k l'" "l' \<noteq> k" by auto
    from Suc.IH [OF run] drain_step_decreases [OF _ _ step] lifecycle_inv_step [OF step(1)] show ?case by fastforce
  qed (use assms(6,7) inv in simp)
  with drain_step_exists show ?thesis by (metis add_leD1)
qed

theorem shutdown_terminates_witness:
  "drain_work demo_stopped = 5 \<and> senders_gone demo_stopped \<and>
   (\<exists>l. lifecycle_step demo_lib demo_json_lib (\<lambda>_. 7) [1, 2, 3] None demo_stopped l \<and> l \<noteq> demo_stopped)"
proof -
  obtain cfg where boot: "server_boot demo_boot demo_env = Inr (cfg, demo_lifecycle)" using demo_booted ..
  have "lc_exit demo_stopped = None" by (simp add: lifecycle_start_def)
  moreover have "drain_work demo_stopped = 5"
    using demo_queues [of 0] demo_queues [of 1] demo_queues [of 2] demo_queues [of 3]
    by (simp add: drain_work_def lifecycle_start_def server_start_def ingest_new_def load_nodes_frame app_state_new_def
        channel_new_def sum_list_replicate numeral_eq_Suc)
  ultimately show ?thesis
    using shutdown_terminates [OF boot demo_boot_db demo_stops [of demo_lib demo_json_lib "\<lambda>_. 7" "[1, 2, 3]" None] demo_stopped_gone,
        of 0 demo_stopped] demo_stopped_gone(1) by simp
qed

text \<open>
  C33: a gRPC server that fails goes unnoticed. In every state that a started server reaches with its gRPC
  server running, whatever agents are connected, the failure can happen, and from then on, whatever else
  happens: the error stays where nobody reads it, no agent is let in (the streams that are open can only
  end, and no further node is authenticated), \<open>main\<close> stays in its wait for the HTTP server as long as
  that runs, and it returns \<open>Ok\<close> when it returns.
\<close>

theorem grpc_failure_unreported:
  assumes "server_boot io env = Inr (cfg, l0)" "scan_ok (bo_scan io)" "distinct (bo_ids io)"
    and "\<forall>db. bo_connect io (database_url env) = Inr db \<longrightarrow> set (bo_ids io) = dom (db_nodes db) \<and> db_ok db"
    and "lifecycle_reachable L J hash secret vm_url l0 l" "lc_grpc l = None" "lc_exit l = None"
    and "l1 = l\<lparr>lc_grpc := Some (Inl e)\<rparr>"
  shows "lifecycle_step L J hash secret vm_url l l1 \<and>
    (\<forall>l'. lifecycle_reachable L J hash secret vm_url l1 l' \<longrightarrow>
       lc_grpc l' = Some (Inl e) \<and> stream_ids_of (lc_server l') \<subseteq># stream_ids_of (lc_server l) \<and>
       sv_ids (lc_server l') = sv_ids (lc_server l) \<and> (lc_http l' = None \<longrightarrow> lc_main l' \<and> lc_exit l' = None) \<and>
       lc_exit l' \<in> {None, Some (Inr ())})"
proof (intro conjI allI impI)
  show step: "lifecycle_step L J hash secret vm_url l l1"
    using lifecycle_step.grpc_ends [OF assms(7,6), of "Inl e"] by (simp add: assms(8))
  fix l' assume later: "lifecycle_reachable L J hash secret vm_url l1 l'"
  have l0: "lc_http l0 = None \<longrightarrow> lc_main l0" using assms(1) by (rule server_boot_Inr) (simp add: lifecycle_start_def)
  have reach: "lifecycle_reachable L J hash secret vm_url l0 l'"
    by (rule lifecycle_reachable_trans [OF later lifecycle_reachable.step [OF assms(5) step]])
  from failed_grpc_reachable [OF later] show "lc_grpc l' = Some (Inl e)"
    "stream_ids_of (lc_server l') \<subseteq># stream_ids_of (lc_server l)" "sv_ids (lc_server l') = sv_ids (lc_server l)"
    by (simp_all add: assms(8))
  note inv = lifecycle_invD [OF lifecycle_inv_boot [OF assms(1-4) reach]]
  show "lc_exit l' \<in> {None, Some (Inr ())}" using inv(6) by (cases "lc_exit l'") auto
  assume "lc_http l' = None"
  with main_waits_for_http [OF reach l0] show main: "lc_main l'" by blast
  show "lc_exit l' = None"
  proof (rule ccontr)
    assume "lc_exit l' \<noteq> None"
    then have "\<not> lc_workers l' ! 0" using inv(2,6) by (metis nth_mem zero_less_numeral)
    with inv(4) [of 0] main show False by (simp add: senders_gone_def)
  qed
qed

theorem grpc_failure_unreported_witness:
  "let l = demo_lifecycle\<lparr>lc_cancelled := True\<rparr>; l1 = l\<lparr>lc_grpc := Some (Inl (lit ''gRPC server error''))\<rparr> in
   lifecycle_step demo_lib demo_json_lib (\<lambda>_. 7) [1, 2, 3] None l l1 \<and>
   lc_main l1 \<and> lc_exit l1 \<in> {None, Some (Inr ())}"
proof -
  obtain cfg where boot: "server_boot demo_boot demo_env = Inr (cfg, demo_lifecycle)" using demo_booted ..
  let ?l = "demo_lifecycle\<lparr>lc_cancelled := True\<rparr>"
  have reach: "lifecycle_reachable demo_lib demo_json_lib (\<lambda>_. 7) [1, 2, 3] None demo_lifecycle ?l"
    by (rule lifecycle_reachable.step [OF lifecycle_reachable.start lifecycle_step.ctrl_c]) (simp_all add: lifecycle_start_def)
  let ?l1 = "?l\<lparr>lc_grpc := Some (Inl (lit ''gRPC server error''))\<rparr>"
  have now: "lc_grpc ?l = None" "lc_exit ?l = None" "lc_http ?l1 = None" by (simp_all add: lifecycle_start_def)
  note shown = grpc_failure_unreported [OF boot demo_boot_db reach now(1,2) refl, of "lit ''gRPC server error''"]
  from shown [THEN conjunct2, rule_format, OF lifecycle_reachable.start] now(3) have "lc_main ?l1 \<and> lc_exit ?l1 \<in> {None, Some (Inr ())}"
    by blast
  with shown [THEN conjunct1] show ?thesis unfolding Let_def by blast
qed

end
