(* ===== verification/Pulse_Backoff.thy ===== *)
theory Pulse_Backoff
  imports Pulse_F64
begin

text \<open>
  The exponential backoff of src/pulse-agent/src/main.rs (\<open>ExponentialBackoff\<close>,
  \<open>rand_simple\<close>). A \<open>Duration\<close> is its number of nanoseconds; the random bytes are an
  argument. The delays are computed in double precision, as the source does.
\<close>

subsection \<open>Definitions\<close>

type_synonym duration = nat

definition from_secs :: "nat \<Rightarrow> duration" where
  "from_secs s = s * 1000000000"

definition from_millis :: "u64 \<Rightarrow> duration" where
  "from_millis ms = unat ms * 1000000"

definition as_millis :: "duration \<Rightarrow> nat" where
  "as_millis d = d div 1000000"

record exponential_backoff =
  eb_current :: duration
  eb_base :: duration
  eb_max :: duration

definition backoff_new :: exponential_backoff where
  "backoff_new = \<lparr>eb_current = from_secs 1, eb_base = from_secs 1, eb_max = from_secs 60\<rparr>"

fun u64_from_le_bytes :: "u8 list \<Rightarrow> u64" where
  "u64_from_le_bytes [] = 0"
| "u64_from_le_bytes (b # bs) = ucast b + 256 * u64_from_le_bytes bs"

text \<open>\<open>buf\<close> holds the eight bytes after \<open>getrandom::fill\<close>, zeros where it failed.\<close>

definition rand_simple :: "u8 list \<Rightarrow> f64" where
  "rand_simple buf =
     f64_div (f64_of_nat (unat (u64_from_le_bytes buf))) (f64_of_nat (2 ^ 64 - 1))"

definition next_delay :: "u8 list \<Rightarrow> exponential_backoff \<Rightarrow> duration \<times> exponential_backoff" where
  "next_delay buf b =
     (let delay = eb_current b;
          b' = b\<lparr>eb_current := min (eb_current b * 2) (eb_max b)\<rparr>;
          ms = f64_of_nat (as_millis delay);
          jitter_range = f64_mul ms (f64_of_rat (3 / 10));
          jitter = f64_mul (f64_sub (f64_mul (rand_simple buf) (f64_of_nat 2)) (f64_of_nat 1))
                     jitter_range
      in (from_millis (f64_to_u64 (f64_max (f64_add ms jitter) (f64_of_nat 100))), b'))"

definition backoff_reset :: "exponential_backoff \<Rightarrow> exponential_backoff" where
  "backoff_reset b = b\<lparr>eb_current := eb_base b\<rparr>"

subsection \<open>Lemmas: numbers in a range\<close>

definition f64_within :: "rat \<Rightarrow> rat \<Rightarrow> f64 \<Rightarrow> bool" where
  "f64_within lo hi x \<longleftrightarrow> (\<exists>neg m. x = FNum neg m \<and> 0 \<le> m \<and> lo \<le> signed_val neg m \<and> signed_val neg m \<le> hi)"

lemma f64_withinI: "x = FNum neg m \<Longrightarrow> 0 \<le> m \<Longrightarrow> lo \<le> signed_val neg m \<Longrightarrow> signed_val neg m \<le> hi \<Longrightarrow>
  f64_within lo hi x"
  unfolding f64_within_def by blast

lemma f64_of_rat_within:
  assumes "- a \<le> x" "x \<le> b" "representable a" "representable b" "a < pow2 1024" "b < pow2 1024"
  shows "f64_within (- a) b (f64_of_rat x)"
proof (cases "x < 0")
  case True
  with assms have "f64_of_rat x = FNum True (rnd_mag (- x))" "rnd_mag (- x) \<le> a"
    using f64_round_finite [of a "- x" True] rnd_mag_le [of a "- x"] by (simp_all add: f64_of_rat_def)
  with assms(4) show ?thesis
    by (intro f64_withinI) (auto simp: signed_val_def intro: order_trans [of _ 0] representable_nonneg)
next
  case False
  with assms have "f64_of_rat x = FNum False (rnd_mag x)" "rnd_mag x \<le> b"
    using f64_round_finite [of b x False] rnd_mag_le [of b x] by (simp_all add: f64_of_rat_def)
  moreover have "- a \<le> 0" using assms(3) representable_nonneg by simp
  moreover have "0 \<le> rnd_mag x" by simp
  ultimately show ?thesis
    by (intro f64_withinI [of _ False "rnd_mag x"])
      (simp_all only: signed_val_def if_False order_trans [of "- a" 0])
qed

lemma f64_of_rat_ge:
  assumes "0 \<le> a" "a \<le> x" "x \<le> b" "representable a" "representable b" "b < pow2 1024"
  shows "f64_within a b (f64_of_rat x)"
proof -
  have "f64_of_rat x = FNum False (rnd_mag x)"
    using assms f64_round_finite [of b x False] by (simp add: f64_of_rat_def)
  with rnd_mag_le [OF assms(5,3)] rnd_mag_ge [OF assms(4,2)] show ?thesis
    by (intro f64_withinI) (auto simp: signed_val_def)
qed

lemma nat_lt_pow2_1024: "n < 2 ^ 53 \<Longrightarrow> (of_nat n :: rat) < pow2 1024"
proof -
  assume "n < 2 ^ 53"
  then have "(of_nat n :: rat) < pow2 53" by (simp add: pow2_def)
  also have "\<dots> \<le> pow2 1024" by (rule pow2_mono) simp
  finally show ?thesis .
qed

lemma f64_mul_within:
  assumes "f64_within (- of_nat i) (of_nat i) x" "f64_within 0 (of_nat k) y" "i * k < 2 ^ 53"
  shows "f64_within (- of_nat (i * k)) (of_nat (i * k)) (f64_mul x y)"
proof -
  from assms(1) obtain s a where x: "x = FNum s a" "0 \<le> a" "a \<le> of_nat i"
    by (auto simp: f64_within_def signed_val_def split: if_splits)
  from assms(2) obtain t b where y: "y = FNum t b" "0 \<le> b" "b \<le> of_nat k"
    by (auto simp: f64_within_def signed_val_def split: if_splits)
  let ?n = "of_nat (i * k) :: rat"
  have le: "a * b \<le> ?n" using x y by (simp add: mult_mono)
  note rep = representable_of_nat [OF assms(3)] and fin = nat_lt_pow2_1024 [OF assms(3)]
  have "f64_mul x y = FNum (s \<noteq> t) (rnd_mag (a * b))"
    using x y f64_round_finite [OF rep le fin] by simp
  moreover have "rnd_mag (a * b) \<le> ?n" using rep le by (rule rnd_mag_le)
  moreover have "0 \<le> rnd_mag (a * b)" by simp
  moreover have "- ?n \<le> rnd_mag (a * b)" "- rnd_mag (a * b) \<le> ?n"
    using \<open>0 \<le> rnd_mag (a * b)\<close> \<open>rnd_mag (a * b) \<le> ?n\<close> by linarith+
  ultimately show ?thesis
    by (intro f64_withinI [of _ "s \<noteq> t" "rnd_mag (a * b)"]) (simp_all add: signed_val_def)
qed

lemma f64_within_mono: "f64_within lo hi x \<Longrightarrow> lo' \<le> lo \<Longrightarrow> hi \<le> hi' \<Longrightarrow> f64_within lo' hi' x"
  by (auto simp: f64_within_def)

lemma f64_add_within:
  assumes "f64_within lo1 hi1 x" "f64_within lo2 hi2 y"
    and "- of_nat i \<le> lo1 + lo2" "hi1 + hi2 \<le> of_nat j" "i < 2 ^ 53" "j < 2 ^ 53"
  shows "f64_within (- of_nat i) (of_nat j) (f64_add x y)"
proof -
  from assms(1) obtain s a where x: "x = FNum s a" "lo1 \<le> signed_val s a" "signed_val s a \<le> hi1"
    by (auto simp: f64_within_def)
  from assms(2) obtain t b where y: "y = FNum t b" "lo2 \<le> signed_val t b" "signed_val t b \<le> hi2"
    by (auto simp: f64_within_def)
  let ?v = "signed_val s a + signed_val t b"
  have v: "- of_nat i \<le> ?v" "?v \<le> of_nat j" using x y assms(3,4) by linarith+
  show ?thesis
  proof (cases "?v = 0")
    case True
    then show ?thesis by (simp add: x y f64_within_def signed_val_def)
  next
    case False
    with v assms(5,6) show ?thesis
      by (simp add: x y f64_of_rat_within representable_of_nat nat_lt_pow2_1024)
  qed
qed

lemma f64_add_within_pos:
  assumes "f64_within lo1 hi1 x" "f64_within lo2 hi2 y"
    and "of_nat i \<le> lo1 + lo2" "hi1 + hi2 \<le> of_nat j" "0 < i" "i < 2 ^ 53" "j < 2 ^ 53"
  shows "f64_within (of_nat i) (of_nat j) (f64_add x y)"
proof -
  from assms(1) obtain s a where x: "x = FNum s a" "lo1 \<le> signed_val s a" "signed_val s a \<le> hi1"
    by (auto simp: f64_within_def)
  from assms(2) obtain t b where y: "y = FNum t b" "lo2 \<le> signed_val t b" "signed_val t b \<le> hi2"
    by (auto simp: f64_within_def)
  let ?v = "signed_val s a + signed_val t b"
  have v: "of_nat i \<le> ?v" "?v \<le> of_nat j" using x y assms(3,4) by linarith+
  moreover have "?v \<noteq> 0" using v(1) assms(5) by auto
  ultimately show ?thesis
    using assms(6,7) by (simp add: x y f64_of_rat_ge representable_of_nat nat_lt_pow2_1024)
qed

lemma f64_neg_within: "f64_within lo hi x \<Longrightarrow> f64_within (- hi) (- lo) (f64_neg x)"
  by (force simp: f64_within_def signed_val_def split: if_splits)

lemma f64_of_nat_within: "n < 2 ^ 53 \<Longrightarrow> f64_within (of_nat n) (of_nat n) (f64_of_nat n)"
  by (rule f64_withinI [of _ False "of_nat n"]) (simp_all add: f64_of_nat_exact signed_val_def)

subsection \<open>Lemmas: the random factor and the delay\<close>

lemma representable_pow2_64: "representable (2 ^ 64)" "2 ^ 64 < pow2 1024"
proof -
  show "representable (2 ^ 64)" by (rule representableI [of _ 1 64]) (simp_all add: pow2_def)
  have "(2 ^ 64 :: rat) = pow2 64" by (simp add: pow2_def)
  also have "\<dots> < pow2 1024" by (simp add: pow2_powi power_int_strict_increasing)
  finally show "2 ^ 64 < pow2 1024" .
qed

lemma f64_of_u64_max: "f64_of_nat (2 ^ 64 - 1) = FNum False (2 ^ 64)"
proof -
  have "f64_round False 18446744073709551615 = FNum False 18446744073709551616" by code_simp
  then show ?thesis by (simp add: f64_of_nat_def)
qed

lemma f64_of_u64_within: "f64_within 0 (2 ^ 64) (f64_of_nat (unat (x :: u64)))"
proof -
  have "unat x < 2 ^ LENGTH(64)" by (rule unsigned_less)
  then have "unat x < 2 ^ 64" by simp
  then have "(of_nat (unat x) :: rat) < of_nat (2 ^ 64)" by (simp only: of_nat_less_iff)
  then have le: "(of_nat (unat x) :: rat) \<le> 2 ^ 64" by (simp only: of_nat_power of_nat_numeral less_imp_le)
  have "f64_of_nat (unat x) = FNum False (rnd_mag (of_nat (unat x)))"
    using f64_round_finite [OF representable_pow2_64(1) le representable_pow2_64(2)]
    by (simp add: f64_of_nat_def)
  moreover have "rnd_mag (of_nat (unat x)) \<le> 2 ^ 64"
    using representable_pow2_64(1) le by (rule rnd_mag_le)
  ultimately show ?thesis
    by (intro f64_withinI [of _ False]) (simp_all add: signed_val_def)
qed

lemma rand_simple_within: "f64_within 0 1 (rand_simple buf)"
proof -
  obtain a where a: "f64_of_nat (unat (u64_from_le_bytes buf)) = FNum False a" "0 \<le> a" "a \<le> 2 ^ 64"
    using f64_of_u64_within [of "u64_from_le_bytes buf"]
    by (auto simp: f64_within_def f64_of_nat_def f64_round_def Let_def signed_val_def split: if_splits)
  then have le: "a / 2 ^ 64 \<le> of_nat 1" by simp
  have "representable (of_nat 1)" "(of_nat 1 :: rat) < pow2 1024"
    by (rule representable_of_nat nat_lt_pow2_1024, simp)+
  with le have "f64_round False (a / 2 ^ 64) = FNum False (rnd_mag (a / 2 ^ 64))"
    "rnd_mag (a / 2 ^ 64) \<le> 1"
    using f64_round_finite [of "of_nat 1"] rnd_mag_le [of "of_nat 1"] by simp_all
  then have "rand_simple buf = FNum False (rnd_mag (a / 2 ^ 64))" "rnd_mag (a / 2 ^ 64) \<le> 1"
    unfolding rand_simple_def f64_of_u64_max a(1) by simp_all
  then show ?thesis
    by (intro f64_withinI [of _ False]) (simp_all add: signed_val_def)
qed

lemma three_tenths: "f64_of_rat (3 / 10) = FNum False (5404319552844595 / 18014398509481984)"
  by code_simp

lemma jitter_range_within:
  assumes "k \<le> 60"
  shows "f64_within 0 (of_nat (300 * k)) (f64_mul (f64_of_nat (1000 * k)) (f64_of_rat (3 / 10)))"
proof -
  let ?m = "(of_nat (1000 * k) :: rat) * (5404319552844595 / 18014398509481984)"
  have n: "300 * k < 2 ^ 53" "1000 * k < 2 ^ 53" using assms by simp_all
  have le: "?m \<le> of_nat (300 * k)" by simp
  have "f64_mul (f64_of_nat (1000 * k)) (f64_of_rat (3 / 10)) = FNum False (rnd_mag ?m)"
    using f64_round_finite [OF representable_of_nat [OF n(1)] le nat_lt_pow2_1024 [OF n(1)]] n(2)
    by (simp add: f64_of_nat_exact three_tenths)
  moreover have "rnd_mag ?m \<le> of_nat (300 * k)"
    using representable_of_nat [OF n(1)] le by (rule rnd_mag_le)
  ultimately show ?thesis
    by (intro f64_withinI [of _ False]) (simp_all add: signed_val_def)
qed

lemma jitter_factor_within:
  "f64_within (- of_nat 1) (of_nat 1)
     (f64_sub (f64_mul (rand_simple buf) (f64_of_nat 2)) (f64_of_nat 1))"
proof -
  have two: "f64_within 0 (of_nat 2) (f64_of_nat 2)"
    using f64_of_nat_within [of 2] by (rule f64_within_mono) simp_all
  obtain a where a: "rand_simple buf = FNum False a" "0 \<le> a" "a \<le> 1"
    using rand_simple_within [of buf] unfolding rand_simple_def f64_of_u64_max
    by (auto simp: f64_within_def f64_of_nat_def f64_round_def Let_def signed_val_def split: if_splits)
  have "f64_mul (rand_simple buf) (f64_of_nat 2) = FNum False (rnd_mag (a * 2))"
    using a f64_round_finite [of "of_nat 2" "a * 2" False] representable_of_nat [of 2]
      nat_lt_pow2_1024 [of 2] by (simp add: f64_of_nat_exact)
  moreover have "rnd_mag (a * 2) \<le> 2"
    using a rnd_mag_le [of "of_nat 2" "a * 2"] representable_of_nat [of 2] by simp
  ultimately have "f64_within 0 2 (f64_mul (rand_simple buf) (f64_of_nat 2))"
    by (intro f64_withinI [of _ False]) (simp_all add: signed_val_def)
  moreover have "f64_within (- 1) (- 1) (f64_neg (f64_of_nat 1))"
    using f64_neg_within [OF f64_of_nat_within [of 1]] by simp
  ultimately show ?thesis
    unfolding f64_sub_def by (rule f64_add_within) simp_all
qed

lemma f64_to_u64_within:
  assumes "f64_within (of_nat i) (of_nat j) x" "0 < i" "j < 2 ^ 53"
  shows "i \<le> unat (f64_to_u64 x) \<and> unat (f64_to_u64 x) \<le> j"
proof -
  from assms(1,2) obtain m where m: "x = FNum False m" "of_nat i \<le> m" "m \<le> of_nat j"
    by (auto simp: f64_within_def signed_val_def split: if_splits)
  have lt: "m < 18446744073709551616"
  proof -
    have "(of_nat j :: rat) < of_nat (2 ^ 53)" using assms(3) by (simp only: of_nat_less_iff)
    with m(3) show ?thesis by simp
  qed
  have f: "int i \<le> \<lfloor>m\<rfloor>" "\<lfloor>m\<rfloor> \<le> int j"
    using m(2,3) by (simp_all add: le_floor_iff floor_le_iff)
  then have "uint (word_of_int \<lfloor>m\<rfloor> :: u64) = \<lfloor>m\<rfloor>"
  proof -
    have "int j < 2 ^ 64" using assms(3) by simp
    then have "0 \<le> \<lfloor>m\<rfloor>" "\<lfloor>m\<rfloor> < 2 ^ 64" using f by linarith+
    then have "take_bit 64 \<lfloor>m\<rfloor> = \<lfloor>m\<rfloor>" by (simp only: take_bit_int_eq_self)
    then show ?thesis by (simp add: uint_word_of_int_eq)
  qed
  moreover have "f64_to_u64 x = word_of_int \<lfloor>m\<rfloor>" using m(1) lt by simp
  ultimately show ?thesis
    using f by (simp add: unat_eq_nat_uint le_nat_iff nat_le_iff)
qed

lemma next_delay_fst_within:
  assumes "eb_current b = from_secs k" "1 \<le> k" "k \<le> 60"
  shows "from_millis 1 * (700 * k) \<le> fst (next_delay buf b) \<and>
         fst (next_delay buf b) \<le> from_millis 1 * (1300 * k)"
proof -
  let ?ms = "f64_of_nat (1000 * k)"
  let ?j = "f64_mul (f64_sub (f64_mul (rand_simple buf) (f64_of_nat 2)) (f64_of_nat 1))
              (f64_mul ?ms (f64_of_rat (3 / 10)))"
  have ms: "as_millis (eb_current b) = 1000 * k"
    by (simp add: assms(1) as_millis_def from_secs_def)
  have j: "f64_within (- of_nat (300 * k)) (of_nat (300 * k)) ?j"
    using f64_mul_within [OF jitter_factor_within jitter_range_within [OF assms(3)], of buf] assms(3)
    by simp
  have "f64_within (of_nat (1000 * k)) (of_nat (1000 * k)) ?ms"
    using assms(3) by (intro f64_of_nat_within) simp
  then have s: "f64_within (of_nat (700 * k)) (of_nat (1300 * k)) (f64_add ?ms ?j)"
    using j by (rule f64_add_within_pos) (use assms(2,3) in \<open>simp_all add: algebra_simps\<close>)
  then obtain m where m: "f64_add ?ms ?j = FNum False m" "of_nat (700 * k) \<le> m"
    using assms(2) by (auto simp: f64_within_def signed_val_def split: if_splits)
  have "100 < (of_nat (700 * k) :: rat)" using assms(2) by simp
  with m(2) have "100 < m" by linarith
  with m(1) have "f64_max (f64_add ?ms ?j) (f64_of_nat 100) = f64_add ?ms ?j"
    by (simp add: f64_max_def f64_of_nat_exact less_f64_def signed_val_def)
  then have "fst (next_delay buf b) = from_millis (f64_to_u64 (f64_add ?ms ?j))"
    by (simp only: next_delay_def Let_def ms fst_conv)
  moreover have "0 < 700 * k" "1300 * k < 2 ^ 53" using assms(2,3) by simp_all
  ultimately show ?thesis
    using f64_to_u64_within [OF s] by (simp add: from_millis_def)
qed

text \<open>The state after a number of failures in a row.\<close>

fun backoff_after :: "u8 list list \<Rightarrow> exponential_backoff \<Rightarrow> exponential_backoff" where
  "backoff_after [] b = b"
| "backoff_after (r # rs) b = backoff_after rs (snd (next_delay r b))"

lemma backoff_after_current:
  assumes "eb_current b = min c (eb_max b)" "eb_max b = from_secs 60"
  shows "eb_current (backoff_after rs b) = min (c * 2 ^ length rs) (from_secs 60)"
  using assms
proof (induction rs arbitrary: b c)
  case Nil
  then show ?case by simp
next
  case (Cons r rs)
  let ?b = "snd (next_delay r b)"
  have "eb_current ?b = min (c * 2) (eb_max ?b)" "eb_max ?b = from_secs 60"
    using Cons.prems by (auto simp: next_delay_def Let_def min_def)
  from Cons.IH [OF this] show ?case by (simp add: algebra_simps)
qed

subsection \<open>Properties\<close>

text \<open>
  After any number \<open>n\<close> of failed sessions in a row the next delay is drawn around
  \<open>min (2\<^sup>n) 60\<close> seconds and is within thirty per cent of it, whatever the random bytes are,
  with the arithmetic of the source in double precision.
\<close>

theorem backoff_delay_bounds:
  fixes rs :: "u8 list list"
  defines "k \<equiv> min (2 ^ length rs) 60"
  shows "eb_current (backoff_after rs backoff_new) = from_secs k \<and>
         from_millis 1 * (700 * k) \<le> fst (next_delay buf (backoff_after rs backoff_new)) \<and>
         fst (next_delay buf (backoff_after rs backoff_new)) \<le> from_millis 1 * (1300 * k)"
proof -
  have cur: "eb_current (backoff_after rs backoff_new) = from_secs k"
    using backoff_after_current [of backoff_new "from_secs 1" rs]
    by (simp add: backoff_new_def from_secs_def k_def min_def)
  moreover have "1 \<le> k" "k \<le> 60" by (simp_all add: k_def)
  ultimately show ?thesis using next_delay_fst_within by blast
qed

text \<open>
  A session that ends cleanly starts the backoff afresh: after a reset the next delay is
  again between 700 and 1300 milliseconds.
\<close>

theorem backoff_reset_restarts:
  "from_millis 700 \<le> fst (next_delay buf (backoff_reset (backoff_after rs backoff_new))) \<and>
   fst (next_delay buf (backoff_reset (backoff_after rs backoff_new))) \<le> from_millis 1300"
proof -
  have "eb_base (backoff_after rs b) = eb_base b" for b
    by (induction rs arbitrary: b) (simp_all add: next_delay_def Let_def)
  then have "eb_current (backoff_reset (backoff_after rs backoff_new)) = from_secs 1"
    by (simp add: backoff_reset_def backoff_new_def)
  from next_delay_fst_within [OF this, of buf] show ?thesis
    by (simp add: from_millis_def)
qed

text \<open>
  The random factor reaches 1. The comment on \<open>rand_simple\<close> gives the half-open interval
  from 0 to 1; with all random bytes 255 numerator and denominator both round to \<open>2\<^sup>6\<^sup>4\<close> and
  the result is exactly 1. It is never below 0 or above 1.
\<close>

theorem rand_simple_closed_interval:
  "rand_simple [255, 255, 255, 255, 255, 255, 255, 255] = FNum False 1 \<and> f64_within 0 1 (rand_simple buf)"
proof
  let ?buf = "[255, 255, 255, 255, 255, 255, 255, 255] :: u8 list"
  have "u64_from_le_bytes ?buf = - 1" by simp
  then have "unat (u64_from_le_bytes ?buf) = 2 ^ 64 - 1" by simp
  then have "rand_simple ?buf = f64_div (FNum False (2 ^ 64)) (FNum False (2 ^ 64))"
    unfolding rand_simple_def by (simp only: f64_of_u64_max)
  also have "\<dots> = FNum False 1" by code_simp
  finally show "rand_simple ?buf = FNum False 1" .
qed (rule rand_simple_within)

end
