(* ===== verification/Pulse_Bench.thy ===== *)
theory Pulse_Bench
  imports Pulse_Lifecycle Pulse_Backoff
begin

text \<open>
  src/pulse-server/src/bin/bench.rs: the benchmark of the repository. Twenty tasks insert a thousand
  snapshots each, in any interleaving (the list of turns), then two thousand queries are timed. The
  times are arguments; a panic (\<open>expect\<close>, \<open>assert!\<close>, \<open>unwrap\<close>) is \<open>None\<close>.
\<close>

subsection \<open>Definitions\<close>

definition total_inserts :: nat where
  "total_inserts = 20000"

definition concurrency :: nat where
  "concurrency = 20"

definition inserts_per_task :: nat where
  "inserts_per_task = total_inserts div concurrency"

definition total_queries :: nat where
  "total_queries = 2000"

definition bench_node :: rstr where
  "bench_node = lit ''bench-node-01''"

definition bench_stats :: rstr where
  \<open>bench_stats = lit ''{"cpu_percent": 15.4, "mem_used": 4294967296, "mem_total": 16777216000}''\<close>

text \<open>The arithmetic before the cast is that of \<open>i32\<close>.\<close>

definition bench_timestamp :: "nat \<Rightarrow> nat \<Rightarrow> i64" where
  "bench_timestamp task_id j =
     1721630000000 + scast (word_of_nat task_id * word_of_nat inserts_per_task + word_of_nat j :: i32) * 1000"

text \<open>Connecting, migrating and seeding; an error ends the program with its text.\<close>

definition bench_setup ::
  "(rstr \<Rightarrow> rstr + 'j database) \<Rightarrow> rstr + unit \<Rightarrow> db_outcome \<Rightarrow> i64 \<Rightarrow> env \<Rightarrow> metrics \<Rightarrow> rstr + 'j store" where
  "bench_setup connect run outcome now_ms env m =
     bind_res (with_context (lit ''failed to connect to PostgreSQL database'') (connect (database_url env))) (\<lambda>db.
     bind_res (with_context (lit ''failed to run migrations'') (migrate run)) (\<lambda>_.
     let (r, st) = upsert_node outcome now_ms bench_node (lit ''bench-host'') (lit ''online'') (db, m) in
     bind_res (with_context (lit ''failed to seed node'') r) (\<lambda>_. Inr st)))"

text \<open>One insertion of task \<open>i\<close>; \<open>progress\<close> counts those each task has done.\<close>

definition bench_turn ::
  "'j json_lib \<Rightarrow> nat \<Rightarrow> db_outcome \<Rightarrow> nat list \<times> 'j store \<Rightarrow> (nat list \<times> 'j store) option" where
  "bench_turn J i outcome s =
     (let (progress, st) = s in
      if i < length progress \<and> progress ! i < inserts_per_task
      then (case insert_snapshot J outcome bench_node (bench_timestamp i (progress ! i)) bench_stats st of
              (Inl e, _) \<Rightarrow> None
            | (Inr _, st) \<Rightarrow> Some (progress[i := Suc (progress ! i)], st))
      else Some s)"

fun bench_insertion ::
  "'j json_lib \<Rightarrow> (nat \<times> db_outcome) list \<Rightarrow> nat list \<times> 'j store \<Rightarrow> (nat list \<times> 'j store) option" where
  "bench_insertion J [] s = Some s"
| "bench_insertion J ((i, outcome) # turns) s =
     (case bench_turn J i outcome s of None \<Rightarrow> None | Some s \<Rightarrow> bench_insertion J turns s)"

definition bench_throughput :: "nat \<Rightarrow> duration \<Rightarrow> f64" where
  "bench_throughput n elapsed = f64_div (f64_of_nat n) (as_secs_f64 elapsed)"

definition bench_avg_latency_ms :: "duration \<Rightarrow> f64" where
  "bench_avg_latency_ms elapsed = f64_div (f64_of_nat (as_millis elapsed)) (f64_of_nat total_inserts)"

text \<open>One timed query: the latency in milliseconds, or the panic.\<close>

definition bench_query ::
  "('j snapshot_row list \<Rightarrow> 'j snapshot_row list) \<Rightarrow> db_outcome \<Rightarrow> duration \<Rightarrow> 'j store \<Rightarrow> (f64 \<times> 'j store) option" where
  "bench_query scan outcome elapsed st =
     (case get_snapshots scan outcome bench_node 1721630000000 (1721630000000 + 1000000) 100 st of
        (Inl e, _) \<Rightarrow> None
      | (Inr snapshots, st) \<Rightarrow>
          if snapshots = [] then None else Some (f64_mul (as_secs_f64 elapsed) (f64_of_nat 1000), st))"

fun bench_queries ::
  "('j snapshot_row list \<Rightarrow> 'j snapshot_row list) \<Rightarrow> (db_outcome \<times> duration) list \<Rightarrow> 'j store \<Rightarrow> (f64 list \<times> 'j store) option" where
  "bench_queries scan [] st = Some ([], st)"
| "bench_queries scan ((outcome, elapsed) # qs) st =
     (case bench_query scan outcome elapsed st of
        None \<Rightarrow> None
      | Some (latency, st) \<Rightarrow> map_option (\<lambda>(ls, st). (latency # ls, st)) (bench_queries scan qs st))"

text \<open>\<open>sort_by\<close> with \<open>partial_cmp(..).unwrap()\<close>: a stable sort, which panics when it meets a NaN.\<close>

fun insert_latency :: "f64 \<Rightarrow> f64 list \<Rightarrow> f64 list" where
  "insert_latency x [] = [x]"
| "insert_latency x (y # ys) = (if x \<le> y then x # y # ys else y # insert_latency x ys)"

definition sort_latencies :: "f64 list \<Rightarrow> f64 list option" where
  "sort_latencies xs = (if FNaN \<in> set xs \<and> 1 < length xs then None else Some (foldr insert_latency xs []))"

definition percentile_index :: "f64 \<Rightarrow> nat" where
  "percentile_index q = unat (f64_to_u64 (f64_mul (f64_of_nat total_queries) q))"

text \<open>The three percentiles; an index outside the list panics.\<close>

definition bench_percentiles :: "f64 list \<Rightarrow> (f64 \<times> f64 \<times> f64) option" where
  "bench_percentiles latencies =
     (case sort_latencies latencies of
        None \<Rightarrow> None
      | Some ls \<Rightarrow>
          (let i50 = total_queries div 2; i90 = percentile_index (f64_of_rat (9 / 10)); i99 = percentile_index (f64_of_rat (99 / 100))
           in if i50 < length ls \<and> i90 < length ls \<and> i99 < length ls
              then Some (ls ! i50, ls ! i90, ls ! i99) else None))"

subsection \<open>Lemmas: the insertions\<close>

lemma bench_sizes [simp]:
  "inserts_per_task = 1000" "concurrency = 20" "total_inserts = 20000" "total_queries = 2000"
  by (simp_all add: inserts_per_task_def concurrency_def total_inserts_def total_queries_def)

lemma sint_small_i32: "n < 2 ^ 31 \<Longrightarrow> sint (word_of_nat n :: i32) = int n"
  using sint_sbintrunc' [where 'a = 32, of "int n"] by (simp add: signed_take_bit_int_eq_self)

lemma sint_i64: "sint (word_of_int k :: i64) = signed_take_bit 63 k"
  using sint_sbintrunc' [where 'a = 64, of k] by simp

lemma bench_timestamp_sint:
  assumes "i < 20" "j < 1000"
  shows "sint (bench_timestamp i j) = 1721630000000 + 1000 * (1000 * int i + int j)"
proof -
  have n: "1000 * i + j < 20000" using assms by simp
  have "word_of_nat i * 1000 + word_of_nat j = (word_of_nat (1000 * i + j) :: i32)" by (simp add: mult.commute)
  moreover have "sint (word_of_nat (1000 * i + j) :: i32) = int (1000 * i + j)" by (rule sint_small_i32) (use n in simp)
  ultimately have "scast (word_of_nat i * 1000 + word_of_nat j :: i32) = (word_of_int (int (1000 * i + j)) :: i64)"
    by (simp only: scast_eq)
  then have "bench_timestamp i j = word_of_int (1721630000000 + 1000 * (1000 * int i + int j))"
    by (simp add: bench_timestamp_def algebra_simps)
  moreover have "signed_take_bit 63 (1721630000000 + 1000 * (1000 * int i + int j)) = 1721630000000 + 1000 * (1000 * int i + int j)"
    using assms by (intro signed_take_bit_int_eq_self) simp_all
  ultimately show ?thesis by (simp only: sint_i64)
qed

definition bench_row :: "'j json_lib \<Rightarrow> nat \<Rightarrow> nat \<Rightarrow> 'j snapshot_row" where
  "bench_row J i j = \<lparr>sr_node_id = bench_node, sr_timestamp = bench_timestamp i j,
     sr_stats_json = unwrap_or (jl_from_str J bench_stats) (jl_null J)\<rparr>"

text \<open>The rows that tasks with the given progress have inserted.\<close>

definition bench_rows :: "'j json_lib \<Rightarrow> nat list \<Rightarrow> 'j snapshot_row multiset" where
  "bench_rows J progress = (\<Sum>i < length progress. mset (map (bench_row J i) [0..<progress ! i]))"

lemma bench_rows_start: "bench_rows J (replicate n 0) = {#}"
  by (simp add: bench_rows_def)

lemma bench_rows_turn:
  assumes "i < length progress"
  shows "bench_rows J (progress[i := Suc (progress ! i)]) = add_mset (bench_row J i (progress ! i)) (bench_rows J progress)"
proof -
  let ?f = "\<lambda>p k. mset (map (bench_row J k) [0..<p ! k])" and ?p = "progress[i := Suc (progress ! i)]"
  have "(\<Sum>k < length progress. ?f ?p k) = ?f ?p i + (\<Sum>k \<in> {..<length progress} - {i}. ?f ?p k)"
    using assms by (intro sum.remove) simp_all
  also have "(\<Sum>k \<in> {..<length progress} - {i}. ?f ?p k) = (\<Sum>k \<in> {..<length progress} - {i}. ?f progress k)"
    by (intro sum.cong) auto
  also have "?f ?p i = add_mset (bench_row J i (progress ! i)) (?f progress i)" using assms by simp
  finally show ?thesis
    using assms sum.remove [of "{..<length progress}" i "?f progress"] by (simp add: bench_rows_def)
qed

lemma bench_turn_ok:
  assumes "bench_node \<in> dom (db_nodes db)"
  shows "\<exists>progress' db' m'. bench_turn J i Executed (progress, db, m) = Some (progress', db', m') \<and>
    length progress' = length progress \<and> db_nodes db' = db_nodes db \<and>
    (\<exists>new. db_snapshots db' = db_snapshots db @ new \<and> bench_rows J progress' = bench_rows J progress + mset new)"
proof (cases "i < length progress \<and> progress ! i < 1000")
  case True
  obtain db' m' where ins: "insert_snapshot J Executed bench_node (bench_timestamp i (progress ! i)) bench_stats (db, m) = (Inr (), db', m')"
    using assms insert_snapshot_fst [of J Executed bench_node "bench_timestamp i (progress ! i)" bench_stats db m]
    by (metis old.unit.exhaust prod.exhaust_sel)
  with assms insert_snapshot_db [of J Executed bench_node "bench_timestamp i (progress ! i)" bench_stats db m]
  have "db' = db\<lparr>db_snapshots := db_snapshots db @ [bench_row J i (progress ! i)]\<rparr>" by (simp add: bench_row_def)
  with True ins show ?thesis by (simp add: bench_turn_def bench_rows_turn)
next
  case False
  then show ?thesis by (auto simp: bench_turn_def)
qed

lemma bench_insertion_ok:
  assumes "bench_node \<in> dom (db_nodes db)"
  shows "\<exists>progress' db' m'. bench_insertion J (map (\<lambda>i. (i, Executed)) is) (progress, db, m) = Some (progress', db', m') \<and>
    length progress' = length progress \<and>
    (\<exists>new. db_snapshots db' = db_snapshots db @ new \<and> bench_rows J progress' = bench_rows J progress + mset new)"
  using assms
proof (induction "is" arbitrary: progress db m)
  case (Cons i "is")
  from bench_turn_ok [OF Cons.prems, of J i progress m] obtain p1 db1 m1 new1 where
    t: "bench_turn J i Executed (progress, db, m) = Some (p1, db1, m1)" "length p1 = length progress"
    "db_nodes db1 = db_nodes db" "db_snapshots db1 = db_snapshots db @ new1" "bench_rows J p1 = bench_rows J progress + mset new1"
    by blast
  with Cons.prems have "bench_node \<in> dom (db_nodes db1)" by simp
  from Cons.IH [OF this, of p1 m1] t show ?case by (fastforce simp: union_assoc)
qed simp

lemma size_sum_mset_lessThan: "size (\<Sum>i < (n :: nat). f i :: 'a multiset) = (\<Sum>i < n. size (f i))"
  by (induction n) simp_all

lemma set_bench_rows:
  assumes "length progress = 20" "\<forall>i < 20. progress ! i = 1000"
  shows "(\<lambda>r. sint (sr_timestamp r)) ` set_mset (bench_rows J progress) = (\<lambda>n. 1721630000000 + 1000 * int n) ` {..<20000}"
    and "size (bench_rows J progress) = 20000"
proof -
  have rows: "set_mset (bench_rows J progress) = (\<Union>i \<in> {..<20}. bench_row J i ` {..<1000})"
    using assms by (auto simp: bench_rows_def set_mset_sum)
  have "(\<lambda>r. sint (sr_timestamp r)) ` set_mset (bench_rows J progress) =
      (\<Union>i \<in> {..<20}. (\<lambda>j. 1721630000000 + 1000 * (1000 * int i + int j)) ` {..<1000})"
    unfolding rows by (auto simp: image_UN image_image bench_row_def bench_timestamp_sint)
  also have "\<dots> = (\<lambda>n. 1721630000000 + 1000 * int n) ` (\<Union>i \<in> {..<20}. (\<lambda>j. 1000 * i + j) ` {..<1000})"
    by (simp add: image_UN image_image)
  also have "(\<Union>i \<in> {..<20}. (\<lambda>j. 1000 * i + j) ` {..<1000}) = {..<20000 :: nat}"
  proof (intro equalityI subsetI)
    fix n :: nat
    assume "n \<in> {..<20000}"
    then have "n div 1000 < 20" "n mod 1000 < 1000" "n = 1000 * (n div 1000) + n mod 1000" by simp_all
    then show "n \<in> (\<Union>i \<in> {..<20}. (\<lambda>j. 1000 * i + j) ` {..<1000})" by blast
  qed auto
  finally show "(\<lambda>r. sint (sr_timestamp r)) ` set_mset (bench_rows J progress) = (\<lambda>n. 1721630000000 + 1000 * int n) ` {..<20000}" .
  show "size (bench_rows J progress) = 20000" using assms by (simp add: bench_rows_def size_sum_mset_lessThan)
qed

lemma bench_query_rows:
  assumes "scan_ok scan" "mset new \<supseteq># mset (map (bench_row J 0) [0..<1000])" "db_snapshots db = old @ new"
  shows "\<exists>rs. fst (get_snapshots scan Executed bench_node 1721630000000 (1721630000000 + 1000000) 100 (db, m)) = Inr rs \<and>
    length rs = 100"
proof -
  let ?P = "\<lambda>r :: 'a snapshot_row. sr_node_id r = bench_node \<and> sint (1721630000000 :: i64) \<le> sint (sr_timestamp r) \<and>
     sint (sr_timestamp r) \<le> sint (1721630000000 + 1000000 :: i64)"
  have "?P (bench_row J 0 j)" if "j < 1000" for j
    using that bench_timestamp_sint [of 0 j] by (simp add: bench_row_def)
  then have "filter ?P (map (bench_row J 0) [0..<1000]) = map (bench_row J 0) [0..<1000]" by (intro filter_True) auto
  then have "1000 = size (filter_mset ?P (mset (map (bench_row J 0) [0..<1000])))"
    by (metis length_map length_upt mset_filter size_mset diff_zero)
  also have "\<dots> \<le> size (filter_mset ?P (mset new))" using assms(2) by (intro size_mset_mono multiset_filter_mono)
  finally have "100 \<le> length (filter ?P (db_snapshots db))" using assms(3) by (simp flip: mset_filter)
  moreover have "0 \<le> sint (100 :: i64)" "nat (sint (100 :: i64)) = 100" by simp_all
  ultimately show ?thesis
    using snapshots_query [OF assms(1), of 100 bench_node 1721630000000 "1721630000000 + 1000000" db m] by fastforce
qed

subsection \<open>Lemmas: the percentiles\<close>

lemma f64_le_total: "x \<noteq> FNaN \<Longrightarrow> y \<noteq> FNaN \<Longrightarrow> x \<le> y \<or> y \<le> (x :: f64)"
  by (cases x; cases y) auto

lemma f64_le_trans: "x \<le> y \<Longrightarrow> y \<le> z \<Longrightarrow> x \<le> (z :: f64)"
  by (cases x; cases y; cases z) auto

lemma insert_latency_set: "set (insert_latency x ys) = insert x (set ys)"
  by (induction ys) auto

lemma insert_latency_sorted:
  assumes "sorted_wrt (\<le>) ys" "x \<noteq> FNaN" "FNaN \<notin> set ys"
  shows "sorted_wrt (\<le>) (insert_latency x ys)"
  using assms
proof (induction ys)
  case (Cons y ys)
  then show ?case using f64_le_total [of x y] by (auto simp: insert_latency_set intro: f64_le_trans)
qed simp

lemma length_insert_latency [simp]: "length (insert_latency x ys) = Suc (length ys)"
  by (induction ys) auto

lemma sort_latencies_ok:
  assumes "FNaN \<notin> set xs"
  shows "\<exists>ys. sort_latencies xs = Some ys \<and> sorted_wrt (\<le>) ys \<and> set ys = set xs \<and> length ys = length xs"
proof -
  have "sorted_wrt (\<le>) (foldr insert_latency xs []) \<and> set (foldr insert_latency xs []) = set xs \<and>
      length (foldr insert_latency xs []) = length xs"
    using assms by (induction xs) (auto simp: insert_latency_set intro: insert_latency_sorted)
  with assms show ?thesis by (simp add: sort_latencies_def)
qed

lemma percentile_indices:
  "percentile_index (f64_of_rat (9 / 10)) = 1800" "percentile_index (f64_of_rat (99 / 100)) = 1980"
proof -
  have "f64_mul (FNum False 2000) (f64_of_rat (9 / 10)) = FNum False 1800"
    "f64_mul (FNum False 2000) (f64_of_rat (99 / 100)) = FNum False 1980" by code_simp+
  moreover have "f64_of_nat 2000 = FNum False 2000" by (simp add: f64_of_nat_exact)
  ultimately show "percentile_index (f64_of_rat (9 / 10)) = 1800" "percentile_index (f64_of_rat (99 / 100)) = 1980"
    by (simp_all add: percentile_index_def)
qed

lemma f64_round_cases: "f64_round neg m = FInf neg \<or> (\<exists>r. f64_round neg m = FNum neg r)"
  by (simp add: f64_round_def Let_def)

lemma latency_number: "f64_mul (as_secs_f64 d) (f64_of_nat 1000) \<noteq> FNaN"
proof -
  have "f64_of_nat 1000 = FNum False 1000" "f64_of_nat 1000000000 = FNum False 1000000000"
    by (simp_all add: f64_of_nat_exact)
  moreover have "f64_of_nat (d mod 1000000000) = FNum False (of_nat (d mod 1000000000))"
    by (rule f64_of_nat_exact) (rule less_trans [OF mod_less_divisor], simp_all)
  moreover have number: "f64_round neg m \<noteq> FNaN" for neg m using f64_round_cases [of neg m] by auto
  moreover have add: "f64_add x y \<noteq> FNaN" if "x = FInf False \<or> (\<exists>r. x = FNum False r)" "y = FInf False \<or> (\<exists>r. y = FNum False r)" for x y
    using that number by (auto simp: Let_def f64_of_rat_def split: if_splits)
  have "f64_mul x (FNum False 1000) \<noteq> FNaN" if "x \<noteq> FNaN" for x
    using that number by (cases x) simp_all
  ultimately show ?thesis
    using add [OF f64_round_cases f64_round_cases] by (simp add: as_secs_f64_def f64_of_nat_def [of "d div 1000000000"])
qed

lemma bench_percentiles_ok:
  assumes "length ls = 2000" "FNaN \<notin> set ls"
  shows "\<exists>p50 p90 p99. bench_percentiles ls = Some (p50, p90, p99) \<and> p50 \<le> p90 \<and> p90 \<le> p99 \<and> {p50, p90, p99} \<subseteq> set ls"
proof -
  obtain ys where ys: "sort_latencies ls = Some ys" "sorted_wrt (\<le>) ys" "set ys = set ls" "length ys = length ls"
    using sort_latencies_ok [OF assms(2)] by blast
  then have "ys ! 1000 \<le> ys ! 1800" "ys ! 1800 \<le> ys ! 1980"
    using assms(1) by (simp_all add: sorted_wrt_nth_less)
  moreover have "{ys ! 1000, ys ! 1800, ys ! 1980} \<subseteq> set ls" using ys(3,4) assms(1) nth_mem [of _ ys] by auto
  ultimately show ?thesis
    using ys assms(1) by (simp add: bench_percentiles_def percentile_indices)
qed

lemma bench_queries_ok:
  assumes "\<And>m. \<exists>rs. fst (get_snapshots scan Executed bench_node 1721630000000 (1721630000000 + 1000000) 100 (db, m)) = Inr rs \<and>
    length rs = 100"
  shows "\<exists>m'. bench_queries scan (map (Pair Executed) ds) (db, m) =
    Some (map (\<lambda>d. f64_mul (as_secs_f64 d) (f64_of_nat 1000)) ds, db, m')"
proof (induction ds arbitrary: m)
  case (Cons d ds)
  from assms [of m] obtain rs where rs: "fst (get_snapshots scan Executed bench_node 1721630000000 (1721630000000 + 1000000) 100 (db, m)) = Inr rs"
    "length rs = 100" by blast
  obtain m1 where "get_snapshots scan Executed bench_node 1721630000000 (1721630000000 + 1000000) 100 (db, m) = (Inr rs, db, m1)"
    using rs(1) reading_db(3) [of scan Executed bench_node 1721630000000 "1721630000000 + 1000000" 100 db m]
    by (metis prod.collapse)
  moreover have "rs \<noteq> []" using rs(2) by auto
  ultimately have "bench_query scan Executed d (db, m) = Some (f64_mul (as_secs_f64 d) (f64_of_nat 1000), db, m1)"
    by (simp add: bench_query_def)
  with Cons.IH [of m1] show ?case by auto
qed simp

lemma bench_setup_seeds: "bench_setup connect run oc now env m = Inr (db, m') \<Longrightarrow> bench_node \<in> dom (db_nodes db)"
  by (cases oc)
    (auto simp: bench_setup_def bind_res_Inr_iff upsert_node_def query_defs observe_db_latency_def split: prod.splits)

text \<open>Turns in any order bring a task as far as it has turns.\<close>

lemma bench_progress:
  "bench_insertion J (map (\<lambda>i. (i, Executed)) turns) (progress, st) = Some (progress', st') \<Longrightarrow>
   i < length progress \<Longrightarrow> progress ! i \<le> 1000 \<Longrightarrow> progress' ! i = min 1000 (progress ! i + count_list turns i)"
proof (induction turns arbitrary: progress st)
  case (Cons k turns)
  then obtain p1 st1 where t: "bench_turn J k Executed (progress, st) = Some (p1, st1)"
    "bench_insertion J (map (\<lambda>i. (i, Executed)) turns) (p1, st1) = Some (progress', st')" by (auto split: option.splits)
  from t(1) Cons.prems have "length p1 = length progress" "p1 ! i \<le> 1000"
    "min 1000 (p1 ! i + count_list turns i) = min 1000 (progress ! i + count_list (k # turns) i)"
    by (auto simp: bench_turn_def nth_list_update split: if_splits prod.splits sum.splits)
  with Cons.IH [OF t(2)] Cons.prems(2) show ?case by simp
qed simp

lemma all_turns: "i < n \<Longrightarrow> count_list (concat (map (replicate k) [0..<n])) i = k"
proof (induction n)
  case (Suc n)
  have "count_list (replicate k n) i = (if i = n then k else 0)" by (induction k) (auto split: if_splits)
  moreover have "n \<le> i \<Longrightarrow> count_list (concat (map (replicate k) [0..<n])) i = 0" by (auto simp: count_list_0_iff)
  ultimately show ?case using Suc by (cases "i = n") simp_all
qed simp

subsection \<open>Properties\<close>

text \<open>
  C34: the benchmark runs to its end. After a successful start, in whatever order the twenty tasks
  take their turns, no insertion panics as long as the statements are executed; once every task has
  finished, the table has grown by 20000 snapshots with different timestamps, one per second from
  the start of the range; every timed query finds 100 rows, so that its assertion holds; and of two
  thousand measured latencies the three percentiles exist and are in order.
\<close>

theorem bench_completes:
  assumes "bench_setup connect run outcome now env m = Inr (db, m1)" "scan_ok scan"
    and "bench_insertion J (map (\<lambda>i. (i, Executed)) turns) (replicate concurrency 0, db, m1) = result"
  shows "\<exists>progress db' m'. result = Some (progress, db', m') \<and>
    ((\<forall>i < concurrency. progress ! i = inserts_per_task) \<longrightarrow>
      (\<exists>new. db_snapshots db' = db_snapshots db @ new \<and> length new = total_inserts \<and> distinct (map sr_timestamp new) \<and>
         (\<lambda>r. sint (sr_timestamp r)) ` set new = (\<lambda>n. 1721630000000 + 1000 * int n) ` {..<total_inserts}) \<and>
      (length ds = total_queries \<longrightarrow> (\<exists>ls st p50 p90 p99. bench_queries scan (map (Pair Executed) ds) (db', m') = Some (ls, st) \<and>
         bench_percentiles ls = Some (p50, p90, p99) \<and> p50 \<le> p90 \<and> p90 \<le> p99)))"
proof -
  from bench_insertion_ok [OF bench_setup_seeds [OF assms(1)], of J turns "replicate 20 0" m1] assms(3)
  obtain progress db' m' new where r: "result = Some (progress, db', m')" "length progress = 20"
    "db_snapshots db' = db_snapshots db @ new" "bench_rows J progress = mset new"
    by (auto simp: bench_rows_start)
  {
    assume fin: "\<forall>i < 20. progress ! i = 1000"
    have ts: "(\<lambda>r. sint (sr_timestamp r)) ` set new = (\<lambda>n. 1721630000000 + 1000 * int n) ` {..<20000}" and len: "length new = 20000"
      using set_bench_rows [OF r(2) fin, of J] by (simp_all add: r(4))
    have "card ((\<lambda>n. 1721630000000 + 1000 * int n) ` {..<20000 :: nat}) = 20000"
      by (subst card_image) (auto simp: inj_on_def)
    with ts len have "distinct (map (\<lambda>r. sint (sr_timestamp r)) new)" by (intro card_distinct) simp
    then have "distinct (map sr_timestamp new)" by (auto simp: distinct_map inj_on_def)
    moreover have "mset (map (bench_row J 0) [0..<1000]) \<subseteq># mset new"
      using r(2,4) fin sum.remove [of "{..<20}" 0 "\<lambda>i. mset (map (bench_row J i) [0..<progress ! i])"]
      by (simp add: bench_rows_def flip: r(4))
    moreover note bench_query_rows [OF assms(2) this r(3)]
    ultimately have "distinct (map sr_timestamp new) \<and> (\<exists>m''. bench_queries scan (map (Pair Executed) ds) (db', m') =
        Some (map (\<lambda>d. f64_mul (as_secs_f64 d) (f64_of_nat 1000)) ds, db', m''))"
      using bench_queries_ok by blast
    note ts len this
  }
  note finished = this
  have "FNaN \<notin> set (map (\<lambda>d. f64_mul (as_secs_f64 d) (f64_of_nat 1000)) ds)" using latency_number by (metis (no_types, lifting) imageE list.set_map)
  with finished bench_percentiles_ok [of "map (\<lambda>d. f64_mul (as_secs_f64 d) (f64_of_nat 1000)) ds"] r show ?thesis by fastforce
qed

theorem bench_completes_witness:
  "\<exists>progress db' m' new. bench_insertion demo_json_lib (map (\<lambda>i. (i, Executed)) (concat (map (replicate 1000) [0..<20])))
       (replicate 20 0, snd (upsert_node Executed 7 bench_node (lit ''bench-host'') (lit ''online'') (database_new, metrics_new))) =
     Some (progress, db', m') \<and> progress ! 19 = 1000 \<and> db_snapshots db' = new \<and> length new = 20000"
proof -
  define turns :: "nat list" where "turns = concat (map (replicate 1000) [0..<20])"
  obtain db m where up: "upsert_node Executed 7 bench_node (lit ''bench-host'') (lit ''online'')
      (database_new :: demo_json database, metrics_new) = (Inr (), db, m)" and empty: "db_snapshots db = []"
    by (simp add: upsert_node_def query_defs database_new_def)
  have boot: "bench_setup (\<lambda>_. Inr database_new) (Inr ()) Executed 7 Map.empty metrics_new = Inr (db, m)"
    by (simp add: bench_setup_def with_context_def migrate_def up)
  have "scan_ok (id :: demo_json snapshot_row list \<Rightarrow> _)" by (simp add: scan_ok_def)
  from bench_completes [OF boot this refl, of demo_json_lib turns "[]"] obtain progress db' m' where
    r: "bench_insertion demo_json_lib (map (\<lambda>i. (i, Executed)) turns) (replicate concurrency 0, db, m) = Some (progress, db', m')"
    and new: "(\<forall>i < concurrency. progress ! i = inserts_per_task) \<longrightarrow>
      (\<exists>new. db_snapshots db' = db_snapshots db @ new \<and> length new = total_inserts)"
    by blast
  have fin: "\<forall>i < 20. progress ! i = 1000"
    using bench_progress [OF r] all_turns [of _ 20 1000] by (simp flip: turns_def)
  with new empty have "length (db_snapshots db') = 20000" by auto
  moreover have "progress ! 19 = 1000" using fin by simp
  ultimately show ?thesis using r unfolding turns_def by (simp add: up)
qed

end
