(* ===== verification/Pulse_Buffer.thy ===== *)
theory Pulse_Buffer
  imports Pulse_Proto
begin

text \<open>
  src/pulse-agent/src/buffer.rs: the holdback buffer of the agent, a \<open>VecDeque\<close> with a
  capacity. The interface the agent uses is the locale \<open>holdback\<close>: the contents after a push
  are the last messages that fit, and a drain hands over everything in order. Its lemmas say
  what a sequence of pushes leaves, and the interpretation \<open>tb\<close> proves the laws for the model.
\<close>

subsection \<open>Definitions\<close>

record telemetry_buffer =
  tb_inner :: "telemetry_message list"
  tb_capacity :: nat

definition telemetry_buffer_new :: "nat \<Rightarrow> telemetry_buffer" where
  "telemetry_buffer_new capacity = \<lparr>tb_inner = [], tb_capacity = capacity\<rparr>"

text \<open>\<open>pop_front\<close> on an empty deque does nothing.\<close>

definition buffer_push :: "telemetry_message \<Rightarrow> telemetry_buffer \<Rightarrow> telemetry_buffer" where
  "buffer_push msg b =
     (let b' = (if tb_capacity b \<le> length (tb_inner b) then b\<lparr>tb_inner := tl (tb_inner b)\<rparr> else b)
      in b'\<lparr>tb_inner := tb_inner b' @ [msg]\<rparr>)"

definition buffer_drain :: "telemetry_buffer \<Rightarrow> telemetry_message list \<times> telemetry_buffer" where
  "buffer_drain b = (tb_inner b, b\<lparr>tb_inner := []\<rparr>)"

definition buffer_len :: "telemetry_buffer \<Rightarrow> nat" where
  "buffer_len b = length (tb_inner b)"

definition buffer_is_empty :: "telemetry_buffer \<Rightarrow> bool" where
  "buffer_is_empty b \<longleftrightarrow> tb_inner b = []"

text \<open>The last \<open>n\<close> elements of a list: what a bounded buffer may keep.\<close>

definition last_n :: "nat \<Rightarrow> 'a list \<Rightarrow> 'a list" where
  "last_n n xs = drop (length xs - n) xs"

definition buffer_ok :: "telemetry_buffer \<Rightarrow> bool" where
  "buffer_ok b \<longleftrightarrow> 0 < tb_capacity b \<and> length (tb_inner b) \<le> tb_capacity b"

subsection \<open>Lemmas: the last elements of a list\<close>

lemma length_last_n [simp]: "length (last_n n xs) = min n (length xs)"
  by (simp add: last_n_def)

lemma last_n_all: "length xs \<le> n \<Longrightarrow> last_n n xs = xs"
  by (simp add: last_n_def)

lemma last_n_snoc: "0 < n \<Longrightarrow> last_n n (last_n n xs @ ys) = last_n n (xs @ ys)"
  by (cases "length xs \<le> n") (simp_all add: last_n_def min_def add.commute)

lemma last_n_push:
  "0 < n \<Longrightarrow> length xs \<le> n \<Longrightarrow>
   last_n n (xs @ [x]) = (if n \<le> length xs then tl xs @ [x] else xs @ [x])"
  by (cases xs) (auto simp: last_n_def)

lemma last_n_suffix: "suffix (last_n n xs) xs"
  unfolding last_n_def by (rule suffix_drop)

subsection \<open>The interface\<close>

locale holdback =
  fixes push :: "'m \<Rightarrow> 'b \<Rightarrow> 'b"
    and drain :: "'b \<Rightarrow> 'm list \<times> 'b"
    and contents :: "'b \<Rightarrow> 'm list"
    and cap :: "'b \<Rightarrow> nat"
    and invar :: "'b \<Rightarrow> bool"
  assumes cap_pos: "invar b \<Longrightarrow> 0 < cap b"
    and contents_bound: "invar b \<Longrightarrow> length (contents b) \<le> cap b"
    and contents_push: "invar b \<Longrightarrow> contents (push m b) = last_n (cap b) (contents b @ [m])"
    and cap_push: "invar b \<Longrightarrow> cap (push m b) = cap b"
    and invar_push: "invar b \<Longrightarrow> invar (push m b)"
    and drain_all: "invar b \<Longrightarrow> fst (drain b) = contents b"
    and drain_empties: "invar b \<Longrightarrow> contents (snd (drain b)) = []"
    and cap_drain: "invar b \<Longrightarrow> cap (snd (drain b)) = cap b"
    and invar_drain: "invar b \<Longrightarrow> invar (snd (drain b))"
begin

lemma invar_pushes: "invar b \<Longrightarrow> invar (fold push ms b)"
  by (induction ms arbitrary: b) (simp_all add: invar_push)

lemma cap_pushes: "invar b \<Longrightarrow> cap (fold push ms b) = cap b"
  by (induction ms arbitrary: b) (simp_all add: invar_push cap_push)

lemma contents_pushes: "invar b \<Longrightarrow> contents (fold push ms b) = last_n (cap b) (contents b @ ms)"
proof (induction ms arbitrary: b)
  case Nil
  then show ?case by (simp add: last_n_all contents_bound)
next
  case (Cons m ms)
  then have "contents (fold push (m # ms) b) = last_n (cap b) (last_n (cap b) (contents b @ [m]) @ ms)"
    by (simp add: invar_push cap_push contents_push)
  with Cons.prems show ?case by (simp add: last_n_snoc cap_pos)
qed

end

interpretation tb: holdback buffer_push buffer_drain tb_inner tb_capacity buffer_ok
  by unfold_locales
    (auto simp: buffer_ok_def buffer_push_def buffer_drain_def Let_def last_n_push)

subsection \<open>Properties\<close>

text \<open>
  Pushing any sequence of messages into a buffer with a positive capacity keeps it within
  the capacity and leaves exactly the newest messages that fit, in the order they were pushed;
  a drain then hands over those messages and empties the buffer.
\<close>

theorem buffer_keeps_newest:
  assumes "0 < capacity"
  shows "tb_inner (fold buffer_push ms (telemetry_buffer_new capacity)) = last_n capacity ms \<and>
         buffer_len (fold buffer_push ms (telemetry_buffer_new capacity)) \<le> capacity \<and>
         fst (buffer_drain (fold buffer_push ms (telemetry_buffer_new capacity))) = last_n capacity ms \<and>
         buffer_is_empty (snd (buffer_drain (fold buffer_push ms (telemetry_buffer_new capacity))))"
proof -
  have ok: "buffer_ok (telemetry_buffer_new capacity)"
    using assms by (simp add: buffer_ok_def telemetry_buffer_new_def)
  have "tb_inner (fold buffer_push ms (telemetry_buffer_new capacity)) = last_n capacity ms"
    using tb.contents_pushes [OF ok, of ms] by (simp add: telemetry_buffer_new_def)
  with tb.drain_all tb.drain_empties tb.invar_pushes [OF ok, of ms] show ?thesis
    by (simp add: buffer_len_def buffer_is_empty_def)
qed

theorem buffer_keeps_newest_witness:
  "tb_inner (fold buffer_push [None, Some (PHeartbeat \<lparr>hb_node_id = [], hb_timestamp_ms = 2\<rparr>), None]
     (telemetry_buffer_new 2)) = [Some (PHeartbeat \<lparr>hb_node_id = [], hb_timestamp_ms = 2\<rparr>), None]"
  using buffer_keeps_newest [of 2 "[None, Some (PHeartbeat \<lparr>hb_node_id = [], hb_timestamp_ms = 2\<rparr>), None]"]
  by (simp add: last_n_def)

end
