(* ===== verification/Pulse_Collector.thy ===== *)
theory Pulse_Collector
  imports Pulse_Proto Pulse_Backoff
begin

text \<open>
  src/pulse-agent/src/collector.rs: the metric collector of the agent. The state of the collector
  is the record \<open>system_collector\<close>; an operation maps it to a result and the new state, since a
  method that fails half way keeps what it has stored so far. \<open>buf\<close>, which every \<open>read_file\<close>
  clears before it fills it, is passed along as the text of the file.

  The files the collector reads are an argument: \<open>fs_read\<close> opens and reads a file as text,
  \<open>fs_read_dir\<close> lists a directory; an entry has the text of its name and reads the files under its
  path. The clock readings of \<open>collect\<close> are arguments too: \<open>now\<close> is an \<open>Instant\<close> in nanoseconds.
\<close>

subsection \<open>State\<close>

record cpu_jiffies =
  cj_user :: u64
  cj_nice :: u64
  cj_system :: u64
  cj_idle :: u64
  cj_iowait :: u64
  cj_irq :: u64
  cj_softirq :: u64
  cj_steal :: u64

definition jiffies_total :: "cpu_jiffies \<Rightarrow> u64" where
  "jiffies_total j = cj_user j + cj_nice j + cj_system j + cj_idle j + cj_iowait j + cj_irq j + cj_softirq j + cj_steal j"

definition jiffies_active :: "cpu_jiffies \<Rightarrow> u64" where
  "jiffies_active j = jiffies_total j - cj_idle j - cj_iowait j"

record net_counters =
  nc_rx_bytes :: u64
  nc_tx_bytes :: u64

record disk_counters =
  dc_read_sectors :: u64
  dc_write_sectors :: u64

record system_collector =
  co_prev_cpu :: "cpu_jiffies option"
  co_prev_cpu_per_core :: "u32 \<rightharpoonup> cpu_jiffies"
  co_prev_net :: "rstr \<rightharpoonup> net_counters"
  co_prev_disk :: "disk_counters option"
  co_prev_time :: "nat option"

definition collector_new :: system_collector where
  "collector_new =
     \<lparr>co_prev_cpu = None, co_prev_cpu_per_core = Map.empty, co_prev_net = Map.empty, co_prev_disk = None,
      co_prev_time = None\<rparr>"

record dir_entry =
  de_name :: rstr
  de_read :: "rstr \<Rightarrow> io_error + rstr"

record file_system =
  fs_read :: "rstr \<Rightarrow> io_error + rstr"
  fs_read_dir :: "rstr \<Rightarrow> io_error + (io_error + dir_entry) list"

type_synonym 'a collecting = "system_collector \<Rightarrow> (collector_error + 'a) \<times> system_collector"

definition return_co :: "'a \<Rightarrow> 'a collecting" where
  "return_co a c = (Inr a, c)"

definition fail_co :: "collector_error \<Rightarrow> 'a collecting" where
  "fail_co e c = (Inl e, c)"

text \<open>The operator \<open>?\<close>.\<close>

definition bind_co :: "'a collecting \<Rightarrow> ('a \<Rightarrow> 'b collecting) \<Rightarrow> 'b collecting" where
  "bind_co f g c = (case f c of (Inl e, c) \<Rightarrow> (Inl e, c) | (Inr a, c) \<Rightarrow> g a c)"

definition lift_co :: "collector_error + 'a \<Rightarrow> 'a collecting" where
  "lift_co r c = (r, c)"

definition first :: "'a list \<Rightarrow> 'a option" where
  "first xs = (case xs of [] \<Rightarrow> None | x # _ \<Rightarrow> Some x)"

definition nth_opt :: "'a list \<Rightarrow> nat \<Rightarrow> 'a option" where
  "nth_opt xs i = (if i < length xs then Some (xs ! i) else None)"

definition read_file :: "file_system \<Rightarrow> rstr \<Rightarrow> rstr collecting" where
  "read_file fs path c =
     (case fs_read fs path of Inl e \<Rightarrow> (Inl (ProcRead path e), c) | Inr buf \<Rightarrow> (Inr buf, c))"

subsection \<open>/proc/stat\<close>

definition parse_cpu_field :: "rstr option \<Rightarrow> rstr \<Rightarrow> collector_error + u64" where
  "parse_cpu_field p field =
     bind_res (ok_or p (Parse (lit ''/proc/stat'') field (lit ''missing field''))) (\<lambda>s.
       ok_or (parse_u64 s) (Parse (lit ''/proc/stat'') field (lit ''not a valid u64'')))"

definition res_or :: "'e + 'a \<Rightarrow> 'a \<Rightarrow> 'a" where
  "res_or r d = (case r of Inl _ \<Rightarrow> d | Inr a \<Rightarrow> a)"

definition parse_cpu_line :: "rstr \<Rightarrow> collector_error + cpu_jiffies" where
  "parse_cpu_line line =
     (let parts = drop 1 (split_whitespace line) in
      bind_res (parse_cpu_field (nth_opt parts 0) (lit ''user'')) (\<lambda>user.
      bind_res (parse_cpu_field (nth_opt parts 1) (lit ''nice'')) (\<lambda>nice.
      bind_res (parse_cpu_field (nth_opt parts 2) (lit ''system'')) (\<lambda>system.
      bind_res (parse_cpu_field (nth_opt parts 3) (lit ''idle'')) (\<lambda>idle.
        Inr \<lparr>cj_user = user, cj_nice = nice, cj_system = system, cj_idle = idle,
             cj_iowait = res_or (parse_cpu_field (nth_opt parts 4) (lit ''iowait'')) 0,
             cj_irq = res_or (parse_cpu_field (nth_opt parts 5) (lit ''irq'')) 0,
             cj_softirq = res_or (parse_cpu_field (nth_opt parts 6) (lit ''softirq'')) 0,
             cj_steal = res_or (parse_cpu_field (nth_opt parts 7) (lit ''steal'')) 0\<rparr>)))))"

definition compute_cpu_percent :: "cpu_jiffies \<Rightarrow> cpu_jiffies \<Rightarrow> f64" where
  "compute_cpu_percent prev current =
     (let total_delta = saturating_sub (jiffies_total current) (jiffies_total prev) in
      if total_delta = 0 then FNum False 0
      else (let active_delta = saturating_sub (jiffies_active current) (jiffies_active prev)
            in f64_mul (f64_div (f64_of_nat (unat active_delta)) (f64_of_nat (unat total_delta))) (f64_of_nat 100)))"

fun read_cpu_lines :: "rstr list \<Rightarrow> f64 \<Rightarrow> f64 list \<Rightarrow> (f64 \<times> f64 list) collecting" where
  "read_cpu_lines [] overall_percent per_core c = (Inr (overall_percent, per_core), c)"
| "read_cpu_lines (line # rest) overall_percent per_core c =
     (if starts_with (lit ''cpu '') line
      then (case parse_cpu_line line of
              Inl e \<Rightarrow> (Inl e, c)
            | Inr jiffies \<Rightarrow>
                read_cpu_lines rest
                  (case co_prev_cpu c of Some prev \<Rightarrow> compute_cpu_percent prev jiffies | None \<Rightarrow> overall_percent)
                  per_core (c\<lparr>co_prev_cpu := Some jiffies\<rparr>))
      else (case strip_prefix (lit ''cpu'') line of
              Some stripped \<Rightarrow>
                (let core_num = unwrap_or (Option.bind (first (split_whitespace stripped)) parse_u32)
                                  (word_of_nat (length per_core))
                 in case parse_cpu_line line of
                      Inl e \<Rightarrow> (Inl e, c)
                    | Inr jiffies \<Rightarrow>
                        (let percent = unwrap_or
                               (map_option (\<lambda>prev. compute_cpu_percent prev jiffies) (co_prev_cpu_per_core c core_num))
                               (FNum False 0)
                         in read_cpu_lines rest overall_percent (per_core @ [percent])
                              (c\<lparr>co_prev_cpu_per_core := (co_prev_cpu_per_core c)(core_num \<mapsto> jiffies)\<rparr>)))
            | None \<Rightarrow>
                if \<not> starts_with (lit ''cpu'') line then (Inr (overall_percent, per_core), c)
                else read_cpu_lines rest overall_percent per_core c))"

definition read_cpu :: "file_system \<Rightarrow> (f64 \<times> f64 list) collecting" where
  "read_cpu fs = bind_co (read_file fs (lit ''/proc/stat'')) (\<lambda>buf. read_cpu_lines (lines buf) (FNum False 0) [])"

subsection \<open>/proc/meminfo\<close>

definition parse_meminfo_line :: "rstr \<Rightarrow> (rstr \<times> u64) option" where
  "parse_meminfo_line line =
     (let parts = split_char 58 line in
      Option.bind (nth_opt parts 0) (\<lambda>k.
      Option.bind (nth_opt parts 1) (\<lambda>v.
      Option.bind (first (split_whitespace (trim v))) (\<lambda>num_str.
      Option.bind (parse_u64 num_str) (\<lambda>val.
        Some (trim k, val))))))"

record meminfo =
  mi_total :: u64
  mi_free :: u64
  mi_available :: u64
  mi_buffers :: u64
  mi_cached :: u64
  mi_swap_total :: u64
  mi_swap_free :: u64

definition meminfo_line :: "rstr \<Rightarrow> meminfo \<Rightarrow> meminfo" where
  "meminfo_line line m =
     (case parse_meminfo_line line of
        None \<Rightarrow> m
      | Some (key, val_kb) \<Rightarrow>
          (let val_bytes = val_kb * 1024 in
           if key = lit ''MemTotal'' then m\<lparr>mi_total := val_bytes\<rparr>
           else if key = lit ''MemFree'' then m\<lparr>mi_free := val_bytes\<rparr>
           else if key = lit ''MemAvailable'' then m\<lparr>mi_available := val_bytes\<rparr>
           else if key = lit ''Buffers'' then m\<lparr>mi_buffers := val_bytes\<rparr>
           else if key = lit ''Cached'' then m\<lparr>mi_cached := val_bytes\<rparr>
           else if key = lit ''SwapTotal'' then m\<lparr>mi_swap_total := val_bytes\<rparr>
           else if key = lit ''SwapFree'' then m\<lparr>mi_swap_free := val_bytes\<rparr>
           else m))"

text \<open>The eight numbers of the result: total, used, free, available, buffers, cached, swap total, swap used.\<close>

definition read_meminfo ::
  "file_system \<Rightarrow> (u64 \<times> u64 \<times> u64 \<times> u64 \<times> u64 \<times> u64 \<times> u64 \<times> u64) collecting" where
  "read_meminfo fs = bind_co (read_file fs (lit ''/proc/meminfo'')) (\<lambda>buf.
     let m = fold meminfo_line (lines buf)
               \<lparr>mi_total = 0, mi_free = 0, mi_available = 0, mi_buffers = 0, mi_cached = 0, mi_swap_total = 0, mi_swap_free = 0\<rparr>;
         mem_used = saturating_sub (mi_total m) (mi_free m + mi_buffers m + mi_cached m);
         swap_used = saturating_sub (mi_swap_total m) (mi_swap_free m)
     in return_co (mi_total m, mem_used, mi_free m, mi_available m, mi_buffers m, mi_cached m, mi_swap_total m, swap_used))"

subsection \<open>/proc/loadavg\<close>

definition parse_load :: "rstr option \<Rightarrow> rstr \<Rightarrow> collector_error + f64" where
  "parse_load p field =
     bind_res (ok_or p (Parse (lit ''/proc/loadavg'') field (lit ''missing field''))) (\<lambda>s.
       ok_or (parse_f64 s) (Parse (lit ''/proc/loadavg'') field (lit ''not a valid f64'')))"

definition read_loadavg :: "file_system \<Rightarrow> (f64 \<times> f64 \<times> f64) collecting" where
  "read_loadavg fs = bind_co (read_file fs (lit ''/proc/loadavg'')) (\<lambda>buf.
     let parts = split_whitespace buf in
     bind_co (lift_co (parse_load (nth_opt parts 0) (lit ''load1''))) (\<lambda>l1.
     bind_co (lift_co (parse_load (nth_opt parts 1) (lit ''load5''))) (\<lambda>l5.
     bind_co (lift_co (parse_load (nth_opt parts 2) (lit ''load15''))) (\<lambda>l15.
       return_co (l1, l5, l15)))))"

subsection \<open>/proc/net/dev\<close>

text \<open>A byte or sector count per second, as a whole number.\<close>

definition per_second :: "u64 \<Rightarrow> f64 \<Rightarrow> u64" where
  "per_second delta elapsed_secs = f64_to_u64 (f64_div (f64_of_nat (unat delta)) elapsed_secs)"

definition net_dev_line ::
  "f64 \<Rightarrow> rstr \<Rightarrow> network_interface list \<times> system_collector \<Rightarrow> network_interface list \<times> system_collector" where
  "net_dev_line elapsed_secs raw s =
     (let (interfaces, c) = s; line = trim raw in
      if line = [] then s
      else (case split_once 58 line of
              None \<Rightarrow> s
            | Some (name, rest) \<Rightarrow>
                (let iface_name = trim name; fields = List.map_filter parse_u64 (split_whitespace rest) in
                 if iface_name = lit ''lo'' then s
                 else if length fields < 10 then s
                 else (let rx_bytes_total = fields ! 0; tx_bytes_total = fields ! 8;
                           (rx_bytes_sec, tx_bytes_sec) =
                             (case co_prev_net c iface_name of
                                Some prev \<Rightarrow>
                                  (per_second (saturating_sub rx_bytes_total (nc_rx_bytes prev)) elapsed_secs,
                                   per_second (saturating_sub tx_bytes_total (nc_tx_bytes prev)) elapsed_secs)
                              | None \<Rightarrow> (0, 0))
                       in (interfaces @ [\<lparr>ni_name = iface_name, ni_rx_bytes_sec = rx_bytes_sec, ni_tx_bytes_sec = tx_bytes_sec,
                                          ni_rx_bytes_total = rx_bytes_total, ni_tx_bytes_total = tx_bytes_total\<rparr>],
                           c\<lparr>co_prev_net := (co_prev_net c)(iface_name \<mapsto>
                               \<lparr>nc_rx_bytes = rx_bytes_total, nc_tx_bytes = tx_bytes_total\<rparr>)\<rparr>)))))"

definition read_net_dev :: "file_system \<Rightarrow> f64 \<Rightarrow> network_interface list collecting" where
  "read_net_dev fs elapsed_secs = bind_co (read_file fs (lit ''/proc/net/dev'')) (\<lambda>buf c.
     let (interfaces, c) = fold (net_dev_line elapsed_secs) (drop 2 (lines buf)) ([], c) in (Inr interfaces, c))"

subsection \<open>/proc/diskstats\<close>

definition disk_line :: "rstr \<Rightarrow> u64 \<times> u64 \<Rightarrow> u64 \<times> u64" where
  "disk_line line totals =
     (let (total_read_sectors, total_write_sectors) = totals; fields = split_whitespace line in
      if length fields < 14 then totals
      else if starts_with (lit ''loop'') (fields ! 2) \<or> starts_with (lit ''ram'') (fields ! 2) then totals
      else (total_read_sectors + unwrap_or (parse_u64 (fields ! 5)) 0,
            total_write_sectors + unwrap_or (parse_u64 (fields ! 9)) 0))"

definition read_diskstats :: "file_system \<Rightarrow> f64 \<Rightarrow> (u64 \<times> u64) collecting" where
  "read_diskstats fs elapsed_secs = bind_co (read_file fs (lit ''/proc/diskstats'')) (\<lambda>buf c.
     let (total_read_sectors, total_write_sectors) = fold disk_line (lines buf) (0, 0);
         rates =
           (case co_prev_disk c of
              Some prev \<Rightarrow>
                (per_second (saturating_sub total_read_sectors (dc_read_sectors prev) * 512) elapsed_secs,
                 per_second (saturating_sub total_write_sectors (dc_write_sectors prev) * 512) elapsed_secs)
            | None \<Rightarrow> (0, 0))
     in (Inr rates, c\<lparr>co_prev_disk := Some \<lparr>dc_read_sectors = total_read_sectors, dc_write_sectors = total_write_sectors\<rparr>\<rparr>))"

subsection \<open>Connections, uptime and temperatures\<close>

definition count_connections :: "file_system \<Rightarrow> rstr \<Rightarrow> u32 collecting" where
  "count_connections fs path = bind_co (read_file fs path) (\<lambda>buf.
     return_co (word_of_nat (length (filter (\<lambda>l. trim l \<noteq> []) (drop 1 (lines buf))))))"

text \<open>\<open>unwrap_or(0)\<close> on the result of a method.\<close>

definition or_zero :: "u32 collecting \<Rightarrow> u32 collecting" where
  "or_zero f c = (let (r, c) = f c in (Inr (res_or r 0), c))"

definition read_connections :: "file_system \<Rightarrow> (u32 \<times> u32) collecting" where
  "read_connections fs =
     bind_co (count_connections fs (lit ''/proc/net/tcp'')) (\<lambda>tcp4.
     bind_co (or_zero (count_connections fs (lit ''/proc/net/tcp6''))) (\<lambda>tcp6.
     bind_co (count_connections fs (lit ''/proc/net/udp'')) (\<lambda>udp4.
     bind_co (or_zero (count_connections fs (lit ''/proc/net/udp6''))) (\<lambda>udp6.
       return_co (tcp4 + tcp6, udp4 + udp6)))))"

definition read_uptime :: "file_system \<Rightarrow> u64 collecting" where
  "read_uptime fs = bind_co (read_file fs (lit ''/proc/uptime'')) (\<lambda>buf.
     bind_co (lift_co (ok_or (first (split_whitespace buf))
                (Parse (lit ''/proc/uptime'') (lit ''uptime'') (lit ''empty file'')))) (\<lambda>uptime_str.
     bind_co (lift_co (ok_or (parse_f64 uptime_str)
                (Parse (lit ''/proc/uptime'') (lit ''uptime'') (lit ''not a valid f64'')))) (\<lambda>uptime.
       return_co (f64_to_u64 uptime))))"

definition sensor_of_entry :: "io_error + dir_entry \<Rightarrow> temperature_sensor option" where
  "sensor_of_entry r =
     (case r of
        Inl _ \<Rightarrow> None
      | Inr entry \<Rightarrow>
          if \<not> starts_with (lit ''thermal_zone'') (de_name entry) then None
          else (let label = trim (res_or (de_read entry (lit ''type'')) (de_name entry)) in
                case de_read entry (lit ''temp'') of
                  Inl _ \<Rightarrow> None
                | Inr temp_str \<Rightarrow>
                    (case parse_i32 (trim temp_str) of
                       None \<Rightarrow> None
                     | Some temp \<Rightarrow> Some \<lparr>ts_label = label, ts_temp_millicelsius = temp\<rparr>)))"

definition read_temperatures :: "file_system \<Rightarrow> temperature_sensor list collecting" where
  "read_temperatures fs =
     (case fs_read_dir fs (lit ''/sys/class/thermal'') of
        Inl _ \<Rightarrow> return_co []
      | Inr entries \<Rightarrow> return_co (List.map_filter sensor_of_entry entries))"

subsection \<open>A snapshot\<close>

definition elapsed_since :: "nat \<Rightarrow> nat option \<Rightarrow> f64" where
  "elapsed_since now prev_time =
     f64_max (unwrap_or (map_option (\<lambda>prev. as_secs_f64 (now - prev)) prev_time) (f64_of_nat 1)) (f64_of_rat (1 / 1000))"

definition store_time :: "nat \<Rightarrow> unit collecting" where
  "store_time now c = (Inr (), c\<lparr>co_prev_time := Some now\<rparr>)"

definition collect :: "file_system \<Rightarrow> nat \<Rightarrow> i64 \<Rightarrow> rstr \<Rightarrow> node_stats collecting" where
  "collect fs now timestamp_ms node_id c0 =
     (let elapsed_secs = elapsed_since now (co_prev_time c0) in
      bind_co (read_cpu fs) (\<lambda>(cpu_percent, cpu_per_core).
      bind_co (read_meminfo fs) (\<lambda>(mem_total, mem_used, mem_free, mem_available, mem_buffers, mem_cached, swap_total, swap_used).
      bind_co (read_loadavg fs) (\<lambda>(load_1, load_5, load_15).
      bind_co (read_net_dev fs elapsed_secs) (\<lambda>net_interfaces.
      bind_co (read_diskstats fs elapsed_secs) (\<lambda>(disk_read_bytes_sec, disk_write_bytes_sec).
      bind_co (read_connections fs) (\<lambda>(tcp_connections, udp_connections).
      bind_co (read_uptime fs) (\<lambda>uptime_seconds.
      bind_co (read_temperatures fs) (\<lambda>temperatures.
      bind_co (store_time now) (\<lambda>_.
        return_co
          \<lparr>ns_node_id = node_id, ns_timestamp_ms = timestamp_ms, ns_cpu_percent = cpu_percent,
           ns_cpu_per_core = cpu_per_core, ns_load_avg_1 = load_1, ns_load_avg_5 = load_5, ns_load_avg_15 = load_15,
           ns_mem_total = mem_total, ns_mem_used = mem_used, ns_mem_free = mem_free, ns_mem_available = mem_available,
           ns_mem_buffers = mem_buffers, ns_mem_cached = mem_cached, ns_swap_total = swap_total, ns_swap_used = swap_used,
           ns_disk_read_bytes_sec = disk_read_bytes_sec, ns_disk_write_bytes_sec = disk_write_bytes_sec,
           ns_net_interfaces = net_interfaces, ns_tcp_connections = tcp_connections, ns_udp_connections = udp_connections,
           ns_uptime_seconds = uptime_seconds, ns_temperatures = temperatures\<rparr>))))))))) c0)"

subsection \<open>Lemmas: rounding is monotone\<close>

lemma rne_mono: "x \<le> y \<Longrightarrow> rne x \<le> rne y"
proof (cases "\<lfloor>x\<rfloor> = \<lfloor>y\<rfloor>")
  case True
  moreover assume "x \<le> y"
  ultimately show ?thesis by (auto simp: rne_def Let_def)
next
  case False
  moreover assume "x \<le> y"
  ultimately have "\<lfloor>x\<rfloor> + 1 \<le> \<lfloor>y\<rfloor>" using floor_mono [of x y] by simp
  moreover have "rne x \<le> \<lfloor>x\<rfloor> + 1" by (simp add: rne_def Let_def)
  ultimately show ?thesis using rne_bounds(1) [of y] by linarith
qed

lemma rnd_mag_mono:
  assumes "m \<le> n"
  shows "rnd_mag m \<le> rnd_mag n"
proof (cases "0 < m")
  case False
  then have "rnd_mag m = 0" by (simp add: rnd_mag_def)
  then show ?thesis by simp
next
  case True
  with assms have n: "0 < n" by simp
  have "pow2 (exponent m) \<le> n" using exponent_bounds(1) [OF True] assms by simp
  then have e: "exponent m \<le> exponent n" using n by (simp add: exponent_ge_iff)
  show ?thesis
  proof (cases "ulp_exp m = ulp_exp n")
    case same: True
    have "m / pow2 (ulp_exp n) \<le> n / pow2 (ulp_exp n)" using assms by (simp add: divide_right_mono less_imp_le)
    then show ?thesis using True n same by (simp add: rnd_mag_def Let_def rne_mono mult_right_mono less_imp_le)
  next
    case False
    with e have lt: "exponent m + 1 \<le> exponent n" and big: "-1074 \<le> exponent n" by (auto simp: ulp_exp_def)
    have rep: "representable (pow2 (exponent n))" using big by (intro representableI [of _ 1 "exponent n"]) simp_all
    have "m \<le> pow2 (exponent n)" using exponent_bounds(2) [OF True] pow2_mono [OF lt] by linarith
    then have "rnd_mag m \<le> pow2 (exponent n)" by (rule rnd_mag_le [OF rep])
    also have "\<dots> \<le> rnd_mag n" using exponent_bounds(1) [OF n] by (rule rnd_mag_ge [OF rep])
    finally show ?thesis .
  qed
qed

lemma f64_of_nat_u64:
  assumes "n < 2 ^ 64"
  shows "f64_of_nat n = FNum False (rnd_mag (of_nat n))"
proof -
  have "unat (word_of_nat n :: u64) = n" using assms by (simp add: unsigned_of_nat take_bit_nat_eq_self)
  with f64_of_u64_within [of "word_of_nat n"] show ?thesis
    by (auto simp: f64_within_def f64_of_nat_def f64_round_def Let_def split: if_splits)
qed

lemma unat_u64_less: "unat (x :: u64) < 2 ^ 64"
  using unsigned_less [of x] by simp

lemma representable_1: "representable 1" "(1 :: rat) < pow2 1024" and representable_100: "representable 100" "(100 :: rat) < pow2 1024"
  using representable_of_nat [of 1] representable_of_nat [of 100] nat_lt_pow2_1024 [of 1] nat_lt_pow2_1024 [of 100]
  by simp_all

lemma percent_within:
  assumes "a \<le> t" "0 < t" "t < 2 ^ 64"
  shows "f64_within 0 100 (f64_mul (f64_div (f64_of_nat a) (f64_of_nat t)) (f64_of_nat 100))"
proof -
  let ?a = "rnd_mag (of_nat a)" and ?t = "rnd_mag (of_nat t)"
  have "?a \<le> ?t" using assms(1) by (intro rnd_mag_mono) simp
  moreover have t: "1 \<le> ?t" using assms(2) by (intro rnd_mag_ge representable_1) simp
  ultimately have q: "?a / ?t \<le> 1" by simp
  have "f64_div (f64_of_nat a) (f64_of_nat t) = FNum False (rnd_mag (?a / ?t))"
    using t assms f64_round_finite [OF representable_1(1) q representable_1(2)] by (simp add: f64_of_nat_u64)
  moreover have "rnd_mag (?a / ?t) * 100 \<le> 100" using rnd_mag_le [OF representable_1(1) q] by simp
  ultimately have "f64_mul (f64_div (f64_of_nat a) (f64_of_nat t)) (f64_of_nat 100) =
      FNum False (rnd_mag (rnd_mag (?a / ?t) * 100))" "rnd_mag (rnd_mag (?a / ?t) * 100) \<le> 100"
    using f64_round_finite [OF representable_100(1) _ representable_100(2)] rnd_mag_le [OF representable_100(1)]
    by (simp_all add: f64_of_nat_exact)
  then show ?thesis by (intro f64_withinI [of _ False]) (simp_all add: signed_val_def)
qed

subsection \<open>Specification: processor time\<close>

text \<open>The counters as natural numbers, and that their sum fits the width.\<close>

definition busy_jiffies :: "cpu_jiffies \<Rightarrow> nat" where
  "busy_jiffies j = unat (cj_user j) + unat (cj_nice j) + unat (cj_system j) + unat (cj_irq j) + unat (cj_softirq j) + unat (cj_steal j)"

definition idle_jiffies :: "cpu_jiffies \<Rightarrow> nat" where
  "idle_jiffies j = unat (cj_idle j) + unat (cj_iowait j)"

definition jiffies_fit :: "cpu_jiffies \<Rightarrow> bool" where
  "jiffies_fit j \<longleftrightarrow> busy_jiffies j + idle_jiffies j < 2 ^ 64"

lemma jiffies_total_eq: "jiffies_total j = word_of_nat (busy_jiffies j + idle_jiffies j)"
  by (simp add: jiffies_total_def busy_jiffies_def idle_jiffies_def)

lemma jiffies_active_eq: "jiffies_active j = word_of_nat (busy_jiffies j)"
  by (simp add: jiffies_active_def jiffies_total_def busy_jiffies_def)

lemma unat_jiffies:
  assumes "jiffies_fit j"
  shows "unat (jiffies_total j) = busy_jiffies j + idle_jiffies j" "unat (jiffies_active j) = busy_jiffies j"
proof -
  have "unat (word_of_nat n :: u64) = n" if "n < 2 ^ 64" for n
    using that by (simp add: unsigned_of_nat take_bit_nat_eq_self)
  from this [of "busy_jiffies j + idle_jiffies j"] this [of "busy_jiffies j"] assms
  show "unat (jiffies_total j) = busy_jiffies j + idle_jiffies j" "unat (jiffies_active j) = busy_jiffies j"
    unfolding jiffies_total_eq jiffies_active_eq jiffies_fit_def by linarith+
qed

lemma cpu_percent_bounded:
  assumes "jiffies_fit prev" "jiffies_fit current" "idle_jiffies prev \<le> idle_jiffies current"
  shows "f64_within 0 100 (compute_cpu_percent prev current)"
proof -
  let ?t = "saturating_sub (jiffies_total current) (jiffies_total prev)"
    and ?a = "saturating_sub (jiffies_active current) (jiffies_active prev)"
  have "unat ?a \<le> unat ?t" using assms by (simp add: unat_jiffies)
  show ?thesis
  proof (cases "?t = 0")
    case True
    then show ?thesis by (intro f64_withinI [of _ False 0]) (simp_all add: compute_cpu_percent_def signed_val_def)
  next
    case False
    then have "0 < unat ?t" using unat_gt_0 by blast
    from percent_within [OF \<open>unat ?a \<le> unat ?t\<close> this unat_u64_less] False show ?thesis
      unfolding compute_cpu_percent_def Let_def by simp
  qed
qed

lemma rep_above_1: "representable (1 + 1 / 2 ^ 52)" and rep_above_100: "representable (100 + 1 / 2 ^ 46)"
proof -
  show "representable (1 + 1 / 2 ^ 52)"
    by (rule representableI [of _ "2 ^ 52 + 1" "- 52"]) (simp_all add: pow2_def)
  show "representable (100 + 1 / 2 ^ 46)"
    by (rule representableI [of _ "100 * 2 ^ 46 + 1" "- 46"]) (simp_all add: pow2_def)
qed

lemma percent_above:
  assumes "t < a" "0 < t" "a \<le> 2 ^ 52"
  shows "FNum False 100 < f64_mul (f64_div (f64_of_nat a) (f64_of_nat t)) (f64_of_nat 100)"
proof -
  let ?a = "of_nat a :: rat" and ?t = "of_nat t :: rat"
  have t: "1 \<le> ?t" "?t + 1 \<le> ?a" using assms by (simp_all flip: of_nat_Suc)
  have "?a \<le> of_nat (2 ^ 52)" using assms(3) by (simp only: of_nat_le_iff)
  then have "?t \<le> 2 ^ 52" using t(2) by simp
  then have "1 + 1 / 2 ^ 52 \<le> 1 + 1 / ?t" using t by (simp add: frac_le)
  also have "\<dots> = (?t + 1) / ?t" using t(1) by (simp add: add_divide_distrib)
  also have "\<dots> \<le> ?a / ?t" using t by (intro divide_right_mono) simp_all
  finally have r: "1 + 1 / 2 ^ 52 \<le> rnd_mag (?a / ?t)" by (rule rnd_mag_ge [OF rep_above_1])
  have "(100 :: rat) + 1 / 2 ^ 46 \<le> (1 + 1 / 2 ^ 52) * 100" by (simp add: field_simps)
  also have "\<dots> \<le> rnd_mag (?a / ?t) * 100" using r by (rule mult_right_mono) simp
  finally have "100 + 1 / 2 ^ 46 \<le> rnd_mag (rnd_mag (?a / ?t) * 100)" by (rule rnd_mag_ge [OF rep_above_100])
  moreover have "(0 :: rat) < 1 / 2 ^ 46" by simp
  ultimately have "100 < rnd_mag (rnd_mag (?a / ?t) * 100)" by linarith
  moreover have "f64_of_nat a = FNum False ?a" "f64_of_nat t = FNum False ?t"
    using assms by (simp_all add: f64_of_nat_exact)
  ultimately show ?thesis
    using t by (auto simp: f64_of_nat_exact f64_round_def Let_def less_f64_def signed_val_def)
qed

subsection \<open>Lemmas: operations in sequence\<close>

lemma bind_co_Inr_iff [result_iff]:
  "bind_co f g c = (Inr b, c') \<longleftrightarrow> (\<exists>a c1. f c = (Inr a, c1) \<and> g a c1 = (Inr b, c'))"
  by (auto simp: bind_co_def split: prod.splits sum.splits)

lemma bind_co_Inl_iff [result_iff]:
  "bind_co f g c = (Inl e, c') \<longleftrightarrow> f c = (Inl e, c') \<or> (\<exists>a c1. f c = (Inr a, c1) \<and> g a c1 = (Inl e, c'))"
  by (auto simp: bind_co_def split: prod.splits sum.splits)

lemma return_co_iff [result_iff]: "return_co a c = (r, c') \<longleftrightarrow> r = Inr a \<and> c' = c"
  by (auto simp: return_co_def)

lemma lift_co_iff [result_iff]: "lift_co x c = (r, c') \<longleftrightarrow> x = r \<and> c' = c"
  by (auto simp: lift_co_def)

lemma read_file_iff [result_iff]:
  "read_file fs p c = (Inr b, c') \<longleftrightarrow> fs_read fs p = Inr b \<and> c' = c"
  "read_file fs p c = (Inl e, c') \<longleftrightarrow> (\<exists>x. fs_read fs p = Inl x \<and> e = ProcRead p x) \<and> c' = c"
  by (auto simp: read_file_def split: sum.splits)

text \<open>What an operation keeps of the state, whatever its result.\<close>

definition keeps :: "(system_collector \<Rightarrow> 'x) \<Rightarrow> 'a collecting \<Rightarrow> bool" where
  "keeps p f \<longleftrightarrow> (\<forall>c. p (snd (f c)) = p c)"

named_theorems keeping "operations that keep a part of the state"

lemma keeps_bind [keeping]: "keeps p f \<Longrightarrow> (\<And>a. keeps p (g a)) \<Longrightarrow> keeps p (bind_co f g)"
  unfolding keeps_def bind_co_def by (auto split: prod.split sum.split) (metis snd_conv)+

lemma keeps_basic [keeping]: "keeps p (return_co a)" "keeps p (lift_co r)" "keeps p (read_file fs path)"
  by (simp_all add: keeps_def return_co_def lift_co_def read_file_def split: sum.split)

lemma keeps_or_zero [keeping]: "keeps p f \<Longrightarrow> keeps p (or_zero f)"
  by (simp add: keeps_def or_zero_def split: prod.split) (metis snd_conv)

lemma keeps_cpu_lines [keeping]:
  "keeps co_prev_time (read_cpu_lines ls x y)" "keeps co_prev_net (read_cpu_lines ls x y)"
  "keeps co_prev_disk (read_cpu_lines ls x y)"
proof -
  have "co_prev_time (snd (read_cpu_lines ls x y c)) = co_prev_time c \<and> co_prev_net (snd (read_cpu_lines ls x y c)) = co_prev_net c \<and>
      co_prev_disk (snd (read_cpu_lines ls x y c)) = co_prev_disk c" for c
    by (induction ls x y c rule: read_cpu_lines.induct) (auto simp: Let_def split: sum.splits option.splits)
  then show "keeps co_prev_time (read_cpu_lines ls x y)" "keeps co_prev_net (read_cpu_lines ls x y)"
    "keeps co_prev_disk (read_cpu_lines ls x y)"
    by (simp_all add: keeps_def)
qed

lemma keeps_reads [keeping]:
  "keeps p (read_meminfo fs)" "keeps p (read_loadavg fs)" "keeps p (count_connections fs path)"
  "keeps p (read_connections fs)" "keeps p (read_uptime fs)" "keeps p (read_temperatures fs)"
  unfolding read_meminfo_def read_loadavg_def count_connections_def read_connections_def read_uptime_def
    read_temperatures_def Let_def
  by (auto intro!: keeping split: sum.split)

lemma keeps_cpu [keeping]:
  "keeps co_prev_time (read_cpu fs)" "keeps co_prev_net (read_cpu fs)" "keeps co_prev_disk (read_cpu fs)"
  unfolding read_cpu_def by (intro keeping)+

lemma net_dev_line_time: "co_prev_time (snd (net_dev_line e l s)) = co_prev_time (snd s)"
  by (simp add: net_dev_line_def Let_def split: prod.split option.split)

lemma net_dev_fold_time: "co_prev_time (snd (fold (net_dev_line e) ls s)) = co_prev_time (snd s)"
  by (induction ls arbitrary: s) (simp_all add: net_dev_line_time)

lemma keeps_rates [keeping]: "keeps co_prev_time (read_net_dev fs e)" "keeps co_prev_time (read_diskstats fs e)"
proof -
  show "keeps co_prev_time (read_net_dev fs e)"
    unfolding read_net_dev_def
    by (intro keeping) (simp add: keeps_def net_dev_fold_time split_def Let_def)
  show "keeps co_prev_time (read_diskstats fs e)"
    unfolding read_diskstats_def by (intro keeping) (simp add: keeps_def split_def Let_def)
qed

text \<open>
  What \<open>/proc/net/dev\<close> and \<open>/proc/diskstats\<close> say: the interfaces with their totals, in the order of the
  lines, and a column of sectors summed over the devices that are counted; and the report of an interface
  whose totals were \<open>prev\<close> at the sample before.
\<close>

definition net_entry :: "rstr \<Rightarrow> (rstr \<times> net_counters) option" where
  "net_entry l =
     (case split_once 58 (trim l) of
        None \<Rightarrow> None
      | Some (name, rest) \<Rightarrow>
          (let fields = List.map_filter parse_u64 (split_whitespace rest) in
           if trim name \<noteq> lit ''lo'' \<and> 10 \<le> length fields
           then Some (trim name, \<lparr>nc_rx_bytes = fields ! 0, nc_tx_bytes = fields ! 8\<rparr>) else None))"

definition net_entries :: "rstr \<Rightarrow> (rstr \<times> net_counters) list" where
  "net_entries text = List.map_filter net_entry (drop 2 (lines text))"

definition interface_report :: "f64 \<Rightarrow> (rstr \<rightharpoonup> net_counters) \<Rightarrow> rstr \<times> net_counters \<Rightarrow> network_interface" where
  "interface_report secs prev entry =
     (let (name, t) = entry;
          rate = (\<lambda>f. case prev name of None \<Rightarrow> 0 | Some p \<Rightarrow> per_second (saturating_sub (f t) (f p)) secs)
      in \<lparr>ni_name = name, ni_rx_bytes_sec = rate nc_rx_bytes, ni_tx_bytes_sec = rate nc_tx_bytes,
          ni_rx_bytes_total = nc_rx_bytes t, ni_tx_bytes_total = nc_tx_bytes t\<rparr>)"

definition counted_device :: "rstr \<Rightarrow> bool" where
  "counted_device l \<longleftrightarrow> (let fields = split_whitespace l in
     14 \<le> length fields \<and> \<not> starts_with (lit ''loop'') (fields ! 2) \<and> \<not> starts_with (lit ''ram'') (fields ! 2))"

definition disk_sectors :: "nat \<Rightarrow> rstr \<Rightarrow> u64" where
  "disk_sectors column text =
     sum_list (map (\<lambda>l. unwrap_or (parse_u64 (split_whitespace l ! column)) 0) (filter counted_device (lines text)))"

lemma net_dev_line_entry:
  "net_dev_line secs l (xs, c) =
     (case net_entry l of
        None \<Rightarrow> (xs, c)
      | Some x \<Rightarrow> (xs @ [interface_report secs (co_prev_net c) x], c\<lparr>co_prev_net := (co_prev_net c)(fst x \<mapsto> snd x)\<rparr>))"
proof -
  have "split_once 58 [] = None" by (simp add: split_once_def)
  then show ?thesis
    by (auto simp: net_dev_line_def net_entry_def interface_report_def Let_def not_less split: option.splits)
qed

lemma net_fold:
  assumes "distinct (map fst (List.map_filter net_entry ls))"
  shows "fold (net_dev_line secs) ls (xs, c) =
    (xs @ map (interface_report secs (co_prev_net c)) (List.map_filter net_entry ls),
     c\<lparr>co_prev_net := co_prev_net c ++ map_of (List.map_filter net_entry ls)\<rparr>)"
  using assms
proof (induction ls arbitrary: xs c)
  case (Cons l ls)
  show ?case
  proof (cases "net_entry l")
    case (Some x)
    let ?es = "List.map_filter net_entry ls"
    from Cons.prems Some have x: "fst x \<notin> fst ` set ?es" and d: "distinct (map fst ?es)" by (simp_all add: map_filter_simps)
    have "map (interface_report secs ((co_prev_net c)(fst x \<mapsto> snd x))) ?es = map (interface_report secs (co_prev_net c)) ?es"
      using x by (intro map_cong) (auto simp: interface_report_def Let_def image_iff split: prod.split)
    moreover have "(co_prev_net c)(fst x \<mapsto> snd x) ++ map_of ?es = co_prev_net c ++ map_of (x # ?es)"
      using x by (cases x) (simp add: map_add_upd_left dom_map_of_conv_image_fst)
    moreover have "fold (net_dev_line secs) (l # ls) (xs, c) =
        fold (net_dev_line secs) ls (xs @ [interface_report secs (co_prev_net c) x], c\<lparr>co_prev_net := (co_prev_net c)(fst x \<mapsto> snd x)\<rparr>)"
      by (simp only: fold_Cons o_apply net_dev_line_entry Some option.case)
    moreover have "List.map_filter net_entry (l # ls) = x # ?es" by (simp add: map_filter_simps Some)
    moreover have "co_prev_net (c\<lparr>co_prev_net := f\<rparr>) = f" "c\<lparr>co_prev_net := f, co_prev_net := g\<rparr> = c\<lparr>co_prev_net := g\<rparr>" for f g
      by simp_all
    ultimately show ?thesis by (simp only: Cons.IH [OF d] append_assoc append_Cons append_Nil list.map)
  qed (use Cons in \<open>simp add: net_dev_line_entry map_filter_simps\<close>)
qed (simp add: map_filter_simps)

lemma disk_fold:
  "fold disk_line ls (a, b) =
     (a + sum_list (map (\<lambda>l. unwrap_or (parse_u64 (split_whitespace l ! 5)) 0) (filter counted_device ls)),
      b + sum_list (map (\<lambda>l. unwrap_or (parse_u64 (split_whitespace l ! 9)) 0) (filter counted_device ls)))"
  by (induction ls arbitrary: a b) (auto simp: disk_line_def counted_device_def Let_def not_less)

lemma read_net_dev_Inr:
  assumes "read_net_dev fs secs c = (Inr xs, c')"
  obtains buf where "fs_read fs (lit ''/proc/net/dev'') = Inr buf" "co_prev_disk c' = co_prev_disk c"
    and "distinct (map fst (net_entries buf)) \<longrightarrow>
      xs = map (interface_report secs (co_prev_net c)) (net_entries buf) \<and> co_prev_net c' = co_prev_net c ++ map_of (net_entries buf)"
proof -
  from assms obtain buf where t: "fs_read fs (lit ''/proc/net/dev'') = Inr buf"
    and f: "fold (net_dev_line secs) (drop 2 (lines buf)) ([], c) = (xs, c')"
    by (auto simp: read_net_dev_def result_iff Let_def split_def)
  have "co_prev_disk (snd (fold (net_dev_line secs) ls s)) = co_prev_disk (snd s)" for ls s
    by (induction ls arbitrary: s) (simp_all add: net_dev_line_def Let_def split: prod.split option.split)
  from this [of "drop 2 (lines buf)" "([], c)"] f have "co_prev_disk c' = co_prev_disk c" by simp
  moreover have "xs = map (interface_report secs (co_prev_net c)) (net_entries buf) \<and> co_prev_net c' = co_prev_net c ++ map_of (net_entries buf)"
    if "distinct (map fst (net_entries buf))"
    using net_fold [of "drop 2 (lines buf)" secs "[]" c] that f by (auto simp: net_entries_def)
  ultimately show thesis using that t by blast
qed

lemma read_diskstats_Inr:
  assumes "read_diskstats fs secs c = (Inr d, c')"
  obtains buf where "fs_read fs (lit ''/proc/diskstats'') = Inr buf" "co_prev_net c' = co_prev_net c"
    and "co_prev_disk c' = Some \<lparr>dc_read_sectors = disk_sectors 5 buf, dc_write_sectors = disk_sectors 9 buf\<rparr>"
    and "d = (case co_prev_disk c of
        None \<Rightarrow> (0, 0)
      | Some p \<Rightarrow> (per_second (saturating_sub (disk_sectors 5 buf) (dc_read_sectors p) * 512) secs,
                   per_second (saturating_sub (disk_sectors 9 buf) (dc_write_sectors p) * 512) secs))"
  using assms that by (auto simp: read_diskstats_def result_iff Let_def disk_fold disk_sectors_def split: option.splits)

lemma read_meminfo_le:
  "read_meminfo fs c = (Inr (t, u, f, a, b, ca, st, su), c') \<Longrightarrow> u \<le> t \<and> su \<le> st"
  by (auto simp: read_meminfo_def result_iff Let_def saturating_sub_le)

lemma collect_Inr:
  assumes "collect fs now ts n c = (Inr r, c')"
  obtains net disk where "ns_node_id r = n" "ns_timestamp_ms r = ts" "co_prev_time c' = Some now"
    and "ns_mem_used r \<le> ns_mem_total r" "ns_swap_used r \<le> ns_swap_total r"
    and "fs_read fs (lit ''/proc/net/dev'') = Inr net"
    and "distinct (map fst (net_entries net)) \<longrightarrow>
      ns_net_interfaces r = map (interface_report (elapsed_since now (co_prev_time c)) (co_prev_net c)) (net_entries net) \<and>
      co_prev_net c' = co_prev_net c ++ map_of (net_entries net)"
    and "fs_read fs (lit ''/proc/diskstats'') = Inr disk"
    and "co_prev_disk c' = Some \<lparr>dc_read_sectors = disk_sectors 5 disk, dc_write_sectors = disk_sectors 9 disk\<rparr>"
    and "(ns_disk_read_bytes_sec r, ns_disk_write_bytes_sec r) = (case co_prev_disk c of
        None \<Rightarrow> (0, 0)
      | Some p \<Rightarrow> (per_second (saturating_sub (disk_sectors 5 disk) (dc_read_sectors p) * 512) (elapsed_since now (co_prev_time c)),
                   per_second (saturating_sub (disk_sectors 9 disk) (dc_write_sectors p) * 512) (elapsed_since now (co_prev_time c))))"
proof -
  from assms obtain cpu c1 mem c2 load c3 nets c4 d c5 conns c6 up c7 temps c8 where
    cpu: "read_cpu fs c = (Inr cpu, c1)" and
    mem: "read_meminfo fs c1 = (Inr mem, c2)" and load: "read_loadavg fs c2 = (Inr load, c3)" and
    net: "read_net_dev fs (elapsed_since now (co_prev_time c)) c3 = (Inr nets, c4)" and
    disk: "read_diskstats fs (elapsed_since now (co_prev_time c)) c4 = (Inr d, c5)" and
    conns: "read_connections fs c5 = (Inr conns, c6)" and up: "read_uptime fs c6 = (Inr up, c7)" and
    temps: "read_temperatures fs c7 = (Inr temps, c8)" and c': "c' = c8\<lparr>co_prev_time := Some now\<rparr>" and
    r: "ns_node_id r = n" "ns_timestamp_ms r = ts" "ns_net_interfaces r = nets"
      "ns_mem_total r = fst mem" "ns_mem_used r = fst (snd mem)"
      "ns_swap_total r = fst (snd (snd (snd (snd (snd (snd mem))))))"
      "ns_swap_used r = snd (snd (snd (snd (snd (snd (snd mem))))))"
      "(ns_disk_read_bytes_sec r, ns_disk_write_bytes_sec r) = d"
    by (auto simp: collect_def Let_def result_iff store_time_def split: prod.splits)
  have same: "c8 = c5" "c3 = c1"
    using conns up temps mem load keeps_reads [of "\<lambda>c. c"] by (simp_all add: keeps_def) (metis snd_conv)+
  have c1: "co_prev_net c1 = co_prev_net c" "co_prev_disk c1 = co_prev_disk c"
    using cpu keeps_cpu [of fs] by (simp_all add: keeps_def) (metis snd_conv)+
  have mem_le: "ns_mem_used r \<le> ns_mem_total r" "ns_swap_used r \<le> ns_swap_total r"
    using read_meminfo_le mem unfolding r by (metis prod.collapse)+
  from read_net_dev_Inr [OF net] obtain netx where netx: "fs_read fs (lit ''/proc/net/dev'') = Inr netx" "co_prev_disk c4 = co_prev_disk c3"
    "distinct (map fst (net_entries netx)) \<longrightarrow>
      nets = map (interface_report (elapsed_since now (co_prev_time c)) (co_prev_net c3)) (net_entries netx) \<and>
      co_prev_net c4 = co_prev_net c3 ++ map_of (net_entries netx)" .
  from read_diskstats_Inr [OF disk] obtain dx where dx: "fs_read fs (lit ''/proc/diskstats'') = Inr dx" "co_prev_net c5 = co_prev_net c4"
    "co_prev_disk c5 = Some \<lparr>dc_read_sectors = disk_sectors 5 dx, dc_write_sectors = disk_sectors 9 dx\<rparr>"
    "d = (case co_prev_disk c4 of
        None \<Rightarrow> (0, 0)
      | Some p \<Rightarrow> (per_second (saturating_sub (disk_sectors 5 dx) (dc_read_sectors p) * 512) (elapsed_since now (co_prev_time c)),
                   per_second (saturating_sub (disk_sectors 9 dx) (dc_write_sectors p) * 512) (elapsed_since now (co_prev_time c))))" .
  show thesis
    by (rule that [of netx dx]) (use r mem_le netx dx c' same c1 in simp_all)
qed

lemma net_entries_no_loopback: "lit ''lo'' \<notin> fst ` set (net_entries text)"
proof -
  have "\<exists>l. net_entry l = Some x" if "x \<in> set (List.map_filter net_entry ls)" for x ls
    using that by (induction ls) (auto simp: map_filter_simps split: option.splits)
  moreover have "fst x \<noteq> lit ''lo''" if "net_entry l = Some x" for l x
    using that by (auto simp: net_entry_def Let_def split: option.splits if_splits)
  ultimately have "fst x \<noteq> lit ''lo''" if "x \<in> set (net_entries text)" for x using that unfolding net_entries_def by blast
  then show ?thesis by (metis imageE)
qed

subsection \<open>Lemmas: lines and tokens\<close>

lemma split_inclusive_line: "d \<notin> set l \<Longrightarrow> split_inclusive d (l @ d # rest) = (l @ [d]) # split_inclusive d rest"
  by (induction l) simp_all

lemma chomp_line: "l = [] \<or> last l \<noteq> 13 \<Longrightarrow> chomp (l @ [10]) = l"
  by (auto simp: chomp_def Let_def)

lemma lines_unlines:
  "\<forall>l \<in> set ls. 10 \<notin> set l \<and> (l = [] \<or> last l \<noteq> 13) \<Longrightarrow> lines (concat (map (\<lambda>l. l @ [10]) ls)) = ls"
  by (induction ls) (simp_all add: lines_def split_inclusive_line chomp_line)

lemma split_char_none: "d \<notin> set s \<Longrightarrow> split_char d s = [s]"
  by (induction s) simp_all

lemma split_char_once: "d \<notin> set a \<Longrightarrow> split_char d (a @ d # b) = a # split_char d b"
  by (induction a) simp_all

lemma dropWhile_pad: "\<forall>c \<in> set pad. P c \<Longrightarrow> s \<noteq> [] \<Longrightarrow> \<not> P (hd s) \<Longrightarrow> dropWhile P (pad @ s) = s"
  by (induction pad) (cases s; simp)+

lemma trim_padded:
  assumes "\<forall>c \<in> set pad. is_ws c" "s \<noteq> []" "\<not> is_ws (hd s)" "\<not> is_ws (last s)"
  shows "trim (pad @ s) = s"
proof -
  have "dropWhile is_ws (rev s) = rev s"
    using assms(2,4) dropWhile_pad [of "[]" is_ws "rev s"] by (simp add: hd_rev)
  with dropWhile_pad [OF assms(1-3)] show ?thesis by (simp add: trim_def trim_start_def trim_end_def)
qed

lemma first_token:
  assumes "t \<noteq> []" "\<forall>c \<in> set t. \<not> is_ws c" "is_ws w"
  shows "first (split_whitespace (t @ w # rest)) = Some t"
proof -
  obtain c u where t: "t = c # u" using assms(1) by (cases t) simp_all
  with assms(2,3) show ?thesis
    by (simp add: split_whitespace.simps [of "c # u @ w # rest"] first_def)
qed

subsection \<open>Specification: the text of /proc/meminfo\<close>

text \<open>A line of the kernel: a key without blanks, a colon, blanks, a number and the unit.\<close>

definition mem_entry_text :: "rstr \<times> rstr \<times> nat \<Rightarrow> rstr" where
  "mem_entry_text e = (case e of (key, pad, kb) \<Rightarrow> key @ 58 # pad @ show_nat kb @ lit '' kB'')"

definition mem_entry_ok :: "rstr \<times> rstr \<times> nat \<Rightarrow> bool" where
  "mem_entry_ok e = (case e of (key, pad, kb) \<Rightarrow>
     key \<noteq> [] \<and> (\<forall>c \<in> set key. \<not> is_ws c \<and> c \<noteq> 58) \<and> (\<forall>c \<in> set pad. c = 32) \<and> kb < 2 ^ 64)"

definition meminfo_text :: "(rstr \<times> rstr \<times> nat) list \<Rightarrow> rstr" where
  "meminfo_text es = concat (map (\<lambda>e. mem_entry_text e @ [10]) es)"

text \<open>The bytes a key has in a list of entries, 0 where it is missing; a later entry overrides.\<close>

definition mem_bytes :: "rstr \<Rightarrow> (rstr \<times> rstr \<times> nat) list \<Rightarrow> u64" where
  "mem_bytes key es = fold (\<lambda>(k, pad, kb) v. if k = key then word_of_nat kb * 1024 else v) es 0"

lemma digits_not_ws: "c \<in> set (show_nat n) \<Longrightarrow> \<not> is_ws c \<and> c \<noteq> 58 \<and> c \<noteq> 10"
  by (auto simp: is_ws_def dest: show_nat_digits)

lemma parse_mem_entry:
  assumes "mem_entry_ok (key, pad, kb)"
  shows "parse_meminfo_line (mem_entry_text (key, pad, kb)) = Some (key, word_of_nat kb)"
proof -
  let ?v = "show_nat kb @ lit '' kB''"
  from assms have ok: "key \<noteq> []" "\<forall>c \<in> set key. \<not> is_ws c \<and> c \<noteq> 58" "\<forall>c \<in> set pad. c = 32" "kb < 2 ^ 64"
    by (simp_all add: mem_entry_ok_def)
  have "58 \<notin> set key" "58 \<notin> set (pad @ ?v)"
    using ok digits_not_ws [of 58 kb] by (auto simp: lit_def)
  then have parts: "split_char 58 (mem_entry_text (key, pad, kb)) = [key, pad @ ?v]"
    by (simp add: mem_entry_text_def split_char_once split_char_none)
  have "trim key = key"
    using trim_padded [of "[]" key] ok(1,2) by simp
  moreover have "trim (pad @ ?v) = ?v"
    using ok(3) digits_not_ws [of "hd (show_nat kb)" kb]
    by (intro trim_padded) (auto simp: is_ws_def lit_def)
  moreover have "first (split_whitespace ?v) = Some (show_nat kb)"
    using first_token [of "show_nat kb" 32 "lit ''kB''"] digits_not_ws [of _ kb] by (simp add: is_ws_def lit_def)
  moreover have "parse_u64 (show_nat kb) = Some (word_of_nat kb)"
    using ok(4) by (simp add: parse_u64_def parse_unsigned_show_nat)
  ultimately show ?thesis by (simp add: parse_meminfo_line_def parts nth_opt_def)
qed

lemma meminfo_text_lines:
  assumes "\<forall>e \<in> set es. mem_entry_ok e"
  shows "lines (meminfo_text es) = map mem_entry_text es"
proof -
  have "10 \<notin> set (mem_entry_text e) \<and> last (mem_entry_text e) \<noteq> 13" if "mem_entry_ok e" for e
    using that digits_not_ws [of 10] by (cases e) (auto simp: mem_entry_ok_def mem_entry_text_def lit_def is_ws_def)
  with assms lines_unlines [of "map mem_entry_text es"] show ?thesis
    by (simp add: meminfo_text_def comp_def)
qed

lemma meminfo_line_fields:
  assumes "parse_meminfo_line l = Some (k, v)"
  shows "mi_total (meminfo_line l m) = (if k = lit ''MemTotal'' then v * 1024 else mi_total m)"
    "mi_free (meminfo_line l m) = (if k = lit ''MemFree'' then v * 1024 else mi_free m)"
    "mi_available (meminfo_line l m) = (if k = lit ''MemAvailable'' then v * 1024 else mi_available m)"
    "mi_buffers (meminfo_line l m) = (if k = lit ''Buffers'' then v * 1024 else mi_buffers m)"
    "mi_cached (meminfo_line l m) = (if k = lit ''Cached'' then v * 1024 else mi_cached m)"
    "mi_swap_total (meminfo_line l m) = (if k = lit ''SwapTotal'' then v * 1024 else mi_swap_total m)"
    "mi_swap_free (meminfo_line l m) = (if k = lit ''SwapFree'' then v * 1024 else mi_swap_free m)"
  by (simp_all add: meminfo_line_def assms Let_def lit_def)

text \<open>One counter of the fold over the lines follows the entries of its key.\<close>

lemma meminfo_fold_field:
  assumes "\<forall>e \<in> set es. mem_entry_ok e"
    and "\<And>l k v m. parse_meminfo_line l = Some (k, v) \<Longrightarrow> sel (meminfo_line l m) = (if k = key then v * 1024 else sel m)"
  shows "sel (fold meminfo_line (map mem_entry_text es) m) =
    fold (\<lambda>(k, pad, kb) v. if k = key then word_of_nat kb * 1024 else v) es (sel m)"
  using assms(1)
proof (induction es arbitrary: m)
  case (Cons e es)
  obtain k pad kb where e: "e = (k, pad, kb)" by (cases e)
  with Cons.prems have "parse_meminfo_line (mem_entry_text e) = Some (k, word_of_nat kb)"
    using parse_mem_entry by simp
  with Cons e show ?case by (simp add: assms(2))
qed simp

subsection \<open>Example files\<close>

text \<open>The files of a machine without disks and sensors, with one interface.\<close>

definition demo_fs :: "rstr \<Rightarrow> file_system" where
  "demo_fs uptime =
     \<lparr>fs_read = (\<lambda>p. Inr (if p = lit ''/proc/loadavg'' then lit ''1 2 3''
                          else if p = lit ''/proc/uptime'' then uptime
                          else if p = lit ''/proc/net/dev'' then [10, 10] @ lit ''eth0: 7 0 0 0 0 0 0 0 9 0''
                          else [])),
      fs_read_dir = (\<lambda>_. Inr [])\<rparr>"

definition demo_net :: "rstr \<rightharpoonup> net_counters" where
  "demo_net = [lit ''eth0'' \<mapsto> \<lparr>nc_rx_bytes = 7, nc_tx_bytes = 9\<rparr>]"

lemma demo_parse: "parse_f64 (lit ''1'') = Some (FNum False 1)" "parse_f64 (lit ''2'') = Some (FNum False 2)"
  "parse_f64 (lit ''3'') = Some (FNum False 3)"
  by code_simp+

lemma demo_tokens: "split_whitespace (lit ''1 2 3'') = [lit ''1'', lit ''2'', lit ''3'']" "split_whitespace (lit ''1'') = [lit ''1'']"
  "split_whitespace (lit '' 7 0 0 0 0 0 0 0 9 0'') =
     [lit ''7'', lit ''0'', lit ''0'', lit ''0'', lit ''0'', lit ''0'', lit ''0'', lit ''0'', lit ''9'', lit ''0'']"
  "split_whitespace [] = []"
  by (simp_all add: lit_def is_ws_def split_whitespace.simps)

lemma demo_net_text:
  "drop 2 (lines ([10, 10] @ lit ''eth0: 7 0 0 0 0 0 0 0 9 0'')) = [lit ''eth0: 7 0 0 0 0 0 0 0 9 0'']"
  "trim (lit ''eth0: 7 0 0 0 0 0 0 0 9 0'') = lit ''eth0: 7 0 0 0 0 0 0 0 9 0''"
  "split_once 58 (lit ''eth0: 7 0 0 0 0 0 0 0 9 0'') = Some (lit ''eth0'', lit '' 7 0 0 0 0 0 0 0 9 0'')"
  "trim (lit ''eth0'') = lit ''eth0''"
  by (simp_all add: lit_def lines_def chomp_def trim_def trim_start_def trim_end_def is_ws_def split_once_def)

lemma demo_digits: "parse_u64 (lit ''7'') = Some 7" "parse_u64 (lit ''0'') = Some 0" "parse_u64 (lit ''9'') = Some 9"
  by (simp_all add: parse_u64_def parse_unsigned_def lit_def strip_plus_def parse_nat_def digit_def)

lemma demo_net_lines:
  "fold (net_dev_line e) (drop 2 (lines ([10, 10] @ lit ''eth0: 7 0 0 0 0 0 0 0 9 0''))) ([], collector_new) =
   ([\<lparr>ni_name = lit ''eth0'', ni_rx_bytes_sec = 0, ni_tx_bytes_sec = 0, ni_rx_bytes_total = 7, ni_tx_bytes_total = 9\<rparr>],
    collector_new\<lparr>co_prev_net := demo_net\<rparr>)"
proof -
  have "lit ''eth0'' \<noteq> lit ''lo''" "lit ''eth0: 7 0 0 0 0 0 0 0 9 0'' \<noteq> []" by (simp_all add: lit_def)
  then show ?thesis
    unfolding demo_net_text(1)
    by (simp add: net_dev_line_def demo_net_text demo_tokens demo_digits map_filter_simps collector_new_def demo_net_def Let_def)
qed

lemma demo_fs_reads:
  "fs_read (demo_fs u) (lit ''/proc/stat'') = Inr []" "fs_read (demo_fs u) (lit ''/proc/meminfo'') = Inr []"
  "fs_read (demo_fs u) (lit ''/proc/loadavg'') = Inr (lit ''1 2 3'')" "fs_read (demo_fs u) (lit ''/proc/diskstats'') = Inr []"
  "fs_read (demo_fs u) (lit ''/proc/net/dev'') = Inr ([10, 10] @ lit ''eth0: 7 0 0 0 0 0 0 0 9 0'')"
  "fs_read (demo_fs u) (lit ''/proc/net/tcp'') = Inr []" "fs_read (demo_fs u) (lit ''/proc/net/tcp6'') = Inr []"
  "fs_read (demo_fs u) (lit ''/proc/net/udp'') = Inr []" "fs_read (demo_fs u) (lit ''/proc/net/udp6'') = Inr []"
  "fs_read (demo_fs u) (lit ''/proc/uptime'') = Inr u" "fs_read_dir (demo_fs u) p = Inr []"
  by (simp_all add: demo_fs_def lit_def)

lemma demo_reads:
  "read_cpu (demo_fs u) c = (Inr (FNum False 0, []), c)"
  "read_meminfo (demo_fs u) c = (Inr (0, 0, 0, 0, 0, 0, 0, 0), c)"
  "read_loadavg (demo_fs u) c = (Inr (FNum False 1, FNum False 2, FNum False 3), c)"
  "read_connections (demo_fs u) c = (Inr (0, 0), c)"
  "read_temperatures (demo_fs u) c = (Inr [], c)"
  by (simp_all add: read_cpu_def read_meminfo_def read_loadavg_def read_net_dev_def read_connections_def
      count_connections_def read_temperatures_def bind_co_def read_file_def demo_fs_reads lines_def return_co_def lift_co_def
      parse_load_def nth_opt_def demo_tokens demo_parse
      or_zero_def res_or_def saturating_sub_def map_filter_simps)

lemma demo_net_read:
  "read_net_dev (demo_fs u) e collector_new =
     (Inr [\<lparr>ni_name = lit ''eth0'', ni_rx_bytes_sec = 0, ni_tx_bytes_sec = 0, ni_rx_bytes_total = 7, ni_tx_bytes_total = 9\<rparr>],
      collector_new\<lparr>co_prev_net := demo_net\<rparr>)"
  unfolding read_net_dev_def bind_co_def read_file_def demo_fs_reads sum.case prod.case demo_net_lines by simp

lemma demo_disk: "read_diskstats (demo_fs u) e (collector_new\<lparr>co_prev_net := m\<rparr>) =
  (Inr (0, 0), collector_new\<lparr>co_prev_net := m, co_prev_disk := Some \<lparr>dc_read_sectors = 0, dc_write_sectors = 0\<rparr>\<rparr>)"
  by (simp add: read_diskstats_def bind_co_def read_file_def demo_fs_reads lines_def collector_new_def)

lemma demo_uptime: "read_uptime (demo_fs (lit ''1'')) c = (Inr 1, c)"
  "read_uptime (demo_fs []) c = (Inl (Parse (lit ''/proc/uptime'') (lit ''uptime'') (lit ''empty file'')), c)"
  by (simp_all add: read_uptime_def bind_co_def read_file_def demo_fs_reads lift_co_def return_co_def demo_tokens demo_parse first_def)

lemma demo_collect: "\<exists>r. collect (demo_fs (lit ''1'')) now ts n collector_new =
    (Inr r, collector_new\<lparr>co_prev_net := demo_net, co_prev_disk := Some \<lparr>dc_read_sectors = 0, dc_write_sectors = 0\<rparr>,
       co_prev_time := Some now\<rparr>)"
  "collect (demo_fs []) now ts n collector_new =
    (Inl (Parse (lit ''/proc/uptime'') (lit ''uptime'') (lit ''empty file'')),
     collector_new\<lparr>co_prev_net := demo_net, co_prev_disk := Some \<lparr>dc_read_sectors = 0, dc_write_sectors = 0\<rparr>\<rparr>)"
  by (simp_all add: collect_def bind_co_def [of "read_cpu _"] bind_co_def [of "read_meminfo _"] bind_co_def [of "read_loadavg _"]
      bind_co_def [of "read_net_dev _ _"] bind_co_def [of "read_diskstats _ _"] bind_co_def [of "read_connections _"]
      bind_co_def [of "read_uptime _"] bind_co_def [of "read_temperatures _"] bind_co_def [of "store_time _"]
      demo_reads demo_net_read demo_disk demo_uptime store_time_def return_co_def)

lemma demo_collects: "\<exists>r c'. collect (demo_fs (lit ''1'')) now ts n c = (Inr r, c')"
proof -
  let ?e = "elapsed_since now (co_prev_time c)"
  obtain xs c1 where "read_net_dev (demo_fs (lit ''1'')) ?e c = (Inr xs, c1)"
    by (simp add: read_net_dev_def bind_co_def read_file_def demo_fs_reads Let_def split_def)
  moreover obtain a b c2 where "read_diskstats (demo_fs (lit ''1'')) ?e c1 = (Inr (a, b), c2)"
    by (cases "co_prev_disk c1") (simp_all add: read_diskstats_def bind_co_def read_file_def demo_fs_reads Let_def split_def)
  ultimately show ?thesis
    by (simp add: collect_def bind_co_def [of "read_cpu _"] bind_co_def [of "read_meminfo _"] bind_co_def [of "read_loadavg _"]
      bind_co_def [of "read_net_dev _ _"] bind_co_def [of "read_diskstats _ _"] bind_co_def [of "read_connections _"]
      bind_co_def [of "read_uptime _"] bind_co_def [of "read_temperatures _"]
      bind_co_def [of "store_time _"] demo_reads demo_uptime store_time_def return_co_def)
qed

lemma demo_net_entries: "net_entries ([10, 10] @ lit ''eth0: 7 0 0 0 0 0 0 0 9 0'') = [(lit ''eth0'', \<lparr>nc_rx_bytes = 7, nc_tx_bytes = 9\<rparr>)]"
proof -
  have "lit ''eth0'' \<noteq> lit ''lo''" by (simp add: lit_def)
  then show ?thesis
    unfolding net_entries_def demo_net_text(1)
    by (simp add: net_entry_def demo_net_text demo_tokens demo_digits map_filter_simps Let_def)
qed

subsection \<open>Lemmas: errors\<close>

primrec error_path :: "collector_error \<Rightarrow> rstr" where
  "error_path (ProcRead p e) = p"
| "error_path (Parse p f d) = p"

lemma read_cpu_lines_path: "read_cpu_lines ls x y c = (Inl e, c') \<Longrightarrow> error_path e = lit ''/proc/stat''"
proof (induction ls x y c rule: read_cpu_lines.induct)
  case (2 line rest x y c)
  have "parse_cpu_line line = Inl e \<Longrightarrow> error_path e = lit ''/proc/stat''"
    by (auto simp: parse_cpu_line_def Let_def parse_cpu_field_def result_iff)
  with 2 show ?case by (auto simp: Let_def split: if_splits sum.splits option.splits)
qed simp

lemma read_error_path:
  "read_cpu fs c = (Inl e, c') \<Longrightarrow> error_path e = lit ''/proc/stat''"
  "read_meminfo fs c = (Inl e, c') \<Longrightarrow> error_path e = lit ''/proc/meminfo''"
  "read_loadavg fs c = (Inl e, c') \<Longrightarrow> error_path e = lit ''/proc/loadavg''"
  "read_net_dev fs el c = (Inl e, c') \<Longrightarrow> error_path e = lit ''/proc/net/dev''"
  "read_diskstats fs el c = (Inl e, c') \<Longrightarrow> error_path e = lit ''/proc/diskstats''"
  "read_connections fs c = (Inl e, c') \<Longrightarrow> error_path e \<in> {lit ''/proc/net/tcp'', lit ''/proc/net/udp''}"
  "read_temperatures fs c \<noteq> (Inl e, c')"
  by (auto simp: read_cpu_def read_meminfo_def read_loadavg_def read_net_dev_def read_diskstats_def read_connections_def
      count_connections_def read_temperatures_def parse_load_def or_zero_def result_iff Let_def split_def
      split: sum.splits dest: read_cpu_lines_path)

text \<open>What an operation keeps when it fails.\<close>

definition keeps_failing :: "(system_collector \<Rightarrow> 'x) \<Rightarrow> 'a collecting \<Rightarrow> bool" where
  "keeps_failing p f \<longleftrightarrow> (\<forall>c e c'. f c = (Inl e, c') \<longrightarrow> p c' = p c)"

lemma keeps_failing_bind: "keeps p f \<Longrightarrow> (\<And>a. keeps_failing p (g a)) \<Longrightarrow> keeps_failing p (bind_co f g)"
  unfolding keeps_def keeps_failing_def by (auto simp: bind_co_Inl_iff) (metis snd_conv)+

lemma keeps_failing_store: "keeps_failing p (bind_co (store_time now) (\<lambda>_. return_co r))"
  by (simp add: keeps_failing_def bind_co_def store_time_def return_co_def)

lemma keeps_failingD: "bind_co f g c = (Inl e, c') \<Longrightarrow> keeps_failing p (bind_co f g) \<Longrightarrow> p c' = p c"
  by (simp add: keeps_failing_def)

lemma collect_fails_time:
  assumes "collect fs now ts n c = (Inl e, c')"
  shows "co_prev_time c' = co_prev_time c"
  by (rule keeps_failingD [where p = co_prev_time, OF assms [unfolded collect_def Let_def split_def]])
    (intro keeps_failing_bind keeping keeps_failing_store)

lemma collect_fails_late:
  assumes "collect fs now ts n c = (Inl e, c')" "error_path e = lit ''/proc/uptime''"
  shows "\<exists>text. fs_read fs (lit ''/proc/diskstats'') = Inr text \<and>
       co_prev_disk c' = Some \<lparr>dc_read_sectors = fst (fold disk_line (lines text) (0, 0)),
                               dc_write_sectors = snd (fold disk_line (lines text) (0, 0))\<rparr>"
proof -
  have ne: "lit ''/proc/uptime'' \<notin> {lit ''/proc/stat'', lit ''/proc/meminfo'', lit ''/proc/loadavg'', lit ''/proc/net/dev'',
      lit ''/proc/diskstats'', lit ''/proc/net/tcp'', lit ''/proc/net/udp''}"
    by (simp add: lit_def)
  have no: "read_cpu fs c1 \<noteq> (Inl e, c2)" "read_meminfo fs c1 \<noteq> (Inl e, c2)" "read_loadavg fs c1 \<noteq> (Inl e, c2)"
    "read_net_dev fs el c1 \<noteq> (Inl e, c2)" "read_diskstats fs el c1 \<noteq> (Inl e, c2)" "read_connections fs c1 \<noteq> (Inl e, c2)"
    for c1 c2 el
    using read_error_path [where fs = fs and e = e and c = c1 and c' = c2] assms(2) ne by auto
  from assms(1) obtain el c4 disk c5 conns c6 where
    disk: "read_diskstats fs el c4 = (Inr disk, c5)" and
    "read_connections fs c5 = (Inr conns, c6)" "read_uptime fs c6 = (Inl e, c')"
    by (auto simp: collect_def Let_def result_iff split_def store_time_def no read_error_path(7))
  then have "c' = c5" using keeps_reads(4,5) [of "\<lambda>c. c" fs] unfolding keeps_def by (metis snd_conv)
  with disk show ?thesis by (auto simp: read_diskstats_def result_iff Let_def split_def)
qed

subsection \<open>Properties\<close>

text \<open>
  C24: a processor percentage lies between 0 and 100 whenever the counters fit their width and the
  idle time (idle and waiting for I/O) has not gone backwards, whatever the rounding of the
  division and the multiplication does.
\<close>

theorem cpu_percent_bounds:
  assumes "jiffies_fit prev" "jiffies_fit current" "idle_jiffies prev \<le> idle_jiffies current"
  shows "f64_within 0 100 (compute_cpu_percent prev current)"
  by (rule cpu_percent_bounded [OF assms])

theorem cpu_percent_bounds_witness:
  "f64_within 0 100 (compute_cpu_percent
    \<lparr>cj_user = 0, cj_nice = 0, cj_system = 0, cj_idle = 10, cj_iowait = 0, cj_irq = 0, cj_softirq = 0, cj_steal = 0\<rparr>
    \<lparr>cj_user = 1, cj_nice = 0, cj_system = 0, cj_idle = 13, cj_iowait = 0, cj_irq = 0, cj_softirq = 0, cj_steal = 0\<rparr>)"
  by (rule cpu_percent_bounds) (simp_all add: jiffies_fit_def busy_jiffies_def idle_jiffies_def)

text \<open>
  C36: the percentage exceeds 100 when the time waiting for I/O goes backwards, which the kernel
  documents: whenever the idle counters have dropped while the sum of all counters has grown (by
  an amount that a double represents), the reported value is above 100.
\<close>

theorem iowait_drop_exceeds_hundred:
  assumes "jiffies_fit prev" "jiffies_fit current" "idle_jiffies current < idle_jiffies prev"
    and "busy_jiffies prev + idle_jiffies prev < busy_jiffies current + idle_jiffies current"
    and "busy_jiffies current \<le> busy_jiffies prev + 2 ^ 52"
  shows "FNum False 100 < compute_cpu_percent prev current"
proof -
  let ?t = "saturating_sub (jiffies_total current) (jiffies_total prev)"
    and ?a = "saturating_sub (jiffies_active current) (jiffies_active prev)"
  have u: "unat ?t = busy_jiffies current + idle_jiffies current - (busy_jiffies prev + idle_jiffies prev)"
    "unat ?a = busy_jiffies current - busy_jiffies prev"
    using assms(1,2) by (simp_all add: unat_jiffies)
  have t: "unat ?t < unat ?a" "0 < unat ?t" "unat ?a \<le> 2 ^ 52"
    unfolding u using assms(3-5) by linarith+
  from t(2) have "?t \<noteq> 0" using unat_gt_0 by blast
  with percent_above [OF t] show ?thesis unfolding compute_cpu_percent_def Let_def by simp
qed

theorem iowait_drop_exceeds_hundred_witness:
  "FNum False 100 < compute_cpu_percent
    \<lparr>cj_user = 0, cj_nice = 0, cj_system = 0, cj_idle = 10, cj_iowait = 5, cj_irq = 0, cj_softirq = 0, cj_steal = 0\<rparr>
    \<lparr>cj_user = 8, cj_nice = 0, cj_system = 0, cj_idle = 10, cj_iowait = 1, cj_irq = 0, cj_softirq = 0, cj_steal = 0\<rparr>"
  by (rule iowait_drop_exceeds_hundred) (simp_all add: jiffies_fit_def busy_jiffies_def idle_jiffies_def)

text \<open>
  C25: the memory figures are those of the file. For a file of well-formed lines, read without an
  error, the numbers reported are the kilobytes of the file times 1024, the used memory is the
  total less the free, buffered and cached memory (0 where that is negative), and the state of the
  collector does not change.
\<close>

theorem meminfo_roundtrip:
  assumes "fs_read fs (lit ''/proc/meminfo'') = Inr (meminfo_text es)" "\<forall>e \<in> set es. mem_entry_ok e"
  shows "read_meminfo fs c =
    (Inr (mem_bytes (lit ''MemTotal'') es,
       saturating_sub (mem_bytes (lit ''MemTotal'') es)
         (mem_bytes (lit ''MemFree'') es + mem_bytes (lit ''Buffers'') es + mem_bytes (lit ''Cached'') es),
       mem_bytes (lit ''MemFree'') es, mem_bytes (lit ''MemAvailable'') es, mem_bytes (lit ''Buffers'') es,
       mem_bytes (lit ''Cached'') es, mem_bytes (lit ''SwapTotal'') es,
       saturating_sub (mem_bytes (lit ''SwapTotal'') es) (mem_bytes (lit ''SwapFree'') es)), c)"
proof -
  note fields = meminfo_fold_field [OF assms(2), where sel = mi_total, OF meminfo_line_fields(1)]
    meminfo_fold_field [OF assms(2), where sel = mi_free, OF meminfo_line_fields(2)]
    meminfo_fold_field [OF assms(2), where sel = mi_available, OF meminfo_line_fields(3)]
    meminfo_fold_field [OF assms(2), where sel = mi_buffers, OF meminfo_line_fields(4)]
    meminfo_fold_field [OF assms(2), where sel = mi_cached, OF meminfo_line_fields(5)]
    meminfo_fold_field [OF assms(2), where sel = mi_swap_total, OF meminfo_line_fields(6)]
    meminfo_fold_field [OF assms(2), where sel = mi_swap_free, OF meminfo_line_fields(7)]
  show ?thesis
    using assms(1)
    by (simp add: read_meminfo_def bind_co_def read_file_def meminfo_text_lines [OF assms(2)] return_co_def Let_def
        fields mem_bytes_def)
qed

theorem meminfo_roundtrip_witness:
  "\<exists>avail c. read_meminfo \<lparr>fs_read = (\<lambda>_. Inr (meminfo_text [(lit ''MemTotal'', [32, 32], 1000), (lit ''MemFree'', [32], 400)])),
      fs_read_dir = (\<lambda>_. Inr [])\<rparr> collector_new = (Inr (1024000, 614400, 409600, avail, 0, 0, 0, 0), c)"
  using meminfo_roundtrip [of "\<lparr>fs_read = (\<lambda>_. Inr (meminfo_text [(lit ''MemTotal'', [32, 32], 1000), (lit ''MemFree'', [32], 400)])),
      fs_read_dir = (\<lambda>_. Inr [])\<rparr>" "[(lit ''MemTotal'', [32, 32], 1000), (lit ''MemFree'', [32], 400)]" collector_new]
  by (simp add: mem_entry_ok_def is_ws_def lit_def mem_bytes_def saturating_sub_def)

text \<open>
  C23: the rates of a report are those between two samples. After two collections in a row without an error,
  the second report carries the node id and the time it was asked for; memory and swap in use are at most
  what there is; its interfaces are those the file lists, in that order and without the loopback (each
  listed once), with the totals of the file and, per second, what the totals have grown since the first
  collection, or since an earlier one when the first did not list the interface, and 0 for one never seen;
  the disk rates are the growth of the sectors summed over the counted devices, times 512, per second; and
  the seconds are the time between the two collections, at least a thousandth.
\<close>

theorem snapshot_consistent:
  assumes "collect fs1 t1 ts1 n1 c = (Inr r1, c1)" "collect fs2 t2 ts2 n2 c1 = (Inr r2, c2)"
    and "fs_read fs1 (lit ''/proc/net/dev'') = Inr net1" "fs_read fs2 (lit ''/proc/net/dev'') = Inr net2"
    and "fs_read fs1 (lit ''/proc/diskstats'') = Inr disk1" "fs_read fs2 (lit ''/proc/diskstats'') = Inr disk2"
    and "distinct (map fst (net_entries net1))" "distinct (map fst (net_entries net2))"
    and "secs = f64_max (as_secs_f64 (t2 - t1)) (f64_of_rat (1 / 1000))"
  shows "ns_node_id r2 = n2 \<and> ns_timestamp_ms r2 = ts2 \<and> ns_mem_used r2 \<le> ns_mem_total r2 \<and> ns_swap_used r2 \<le> ns_swap_total r2 \<and>
    ns_net_interfaces r2 = map (interface_report secs (co_prev_net c ++ map_of (net_entries net1))) (net_entries net2) \<and>
    lit ''lo'' \<notin> ni_name ` set (ns_net_interfaces r2) \<and>
    ns_disk_read_bytes_sec r2 = per_second (saturating_sub (disk_sectors 5 disk2) (disk_sectors 5 disk1) * 512) secs \<and>
    ns_disk_write_bytes_sec r2 = per_second (saturating_sub (disk_sectors 9 disk2) (disk_sectors 9 disk1) * 512) secs"
proof -
  have names: "ni_name (interface_report e prev x) = fst x" for e prev x by (cases x) (simp add: interface_report_def Let_def)
  from assms(1) have one: "co_prev_time c1 = Some t1" "co_prev_net c1 = co_prev_net c ++ map_of (net_entries net1)"
    "co_prev_disk c1 = Some \<lparr>dc_read_sectors = disk_sectors 5 disk1, dc_write_sectors = disk_sectors 9 disk1\<rparr>"
    using assms(3,5,7) by (auto elim!: collect_Inr)
  then have secs: "elapsed_since t2 (co_prev_time c1) = secs" by (simp add: elapsed_since_def assms(9))
  have "lit ''lo'' \<notin> ni_name ` set (map (interface_report e prev) (net_entries net2))" for e prev
    using net_entries_no_loopback [of net2] by (simp add: names image_image)
  with assms(2) one secs show ?thesis
    using assms(4,6,8) by (elim collect_Inr) simp
qed

theorem snapshot_consistent_witness:
  "\<exists>r1 c1 r2 c2. collect (demo_fs (lit ''1'')) 5 7 (lit ''n'') collector_new = (Inr r1, c1) \<and>
     collect (demo_fs (lit ''1'')) 9 8 (lit ''n'') c1 = (Inr r2, c2) \<and>
     ns_net_interfaces r2 = [interface_report (f64_max (as_secs_f64 4) (f64_of_rat (1 / 1000))) demo_net
       (lit ''eth0'', \<lparr>nc_rx_bytes = 7, nc_tx_bytes = 9\<rparr>)]"
proof -
  obtain r1 c1 where one: "collect (demo_fs (lit ''1'')) 5 7 (lit ''n'') collector_new = (Inr r1, c1)" using demo_collects by blast
  obtain r2 c2 where two: "collect (demo_fs (lit ''1'')) 9 8 (lit ''n'') c1 = (Inr r2, c2)" using demo_collects by blast
  have "co_prev_net collector_new ++ map_of [(lit ''eth0'', \<lparr>nc_rx_bytes = 7, nc_tx_bytes = 9\<rparr>)] = demo_net"
    by (simp add: collector_new_def demo_net_def)
  with snapshot_consistent [OF one two demo_fs_reads(5) demo_fs_reads(5) demo_fs_reads(4) demo_fs_reads(4) _ _ refl] one two
  show ?thesis by (simp add: demo_net_entries [unfolded append_Cons append_Nil])
qed

text \<open>
  A collection that fails late leaves the counters and the clock of the collector apart. When
  the uptime cannot be read, the sector counters already are those of the failed sample, while the
  time is still that of the sample before: the next rates are the traffic since the failed sample
  divided by the time since the one before it.
\<close>

theorem failed_collection_skews_rates:
  assumes "collect fs now ts n c = (Inl e, c')" "error_path e = lit ''/proc/uptime''"
  shows "co_prev_time c' = co_prev_time c \<and> elapsed_since later (co_prev_time c') = elapsed_since later (co_prev_time c) \<and>
    (\<exists>text. fs_read fs (lit ''/proc/diskstats'') = Inr text \<and>
       co_prev_disk c' = Some \<lparr>dc_read_sectors = fst (fold disk_line (lines text) (0, 0)),
                               dc_write_sectors = snd (fold disk_line (lines text) (0, 0))\<rparr>)"
proof -
  have "co_prev_time c' = co_prev_time c" using collect_fails_time [OF assms(1)] .
  with collect_fails_late [OF assms] show ?thesis by simp
qed

theorem failed_collection_skews_rates_witness:
  "\<exists>e c'. collect (demo_fs []) 5 7 (lit ''n'') collector_new = (Inl e, c') \<and> co_prev_time c' = None \<and> co_prev_disk c' \<noteq> None"
  using failed_collection_skews_rates [OF demo_collect(2) [of 5 7 "lit ''n''"]] demo_collect(2) [of 5 7 "lit ''n''"]
  by (simp add: collector_new_def)

text \<open>
  Partitions are counted besides their disk. The lines of a disk and of its first partition
  both enter the totals, so that what is written to the partition counts twice; the comment in the
  source says that partitions are skipped.
\<close>

theorem partitions_counted_twice:
  assumes "14 \<le> length (split_whitespace l1)" "14 \<le> length (split_whitespace l2)"
    and "split_whitespace l1 ! 2 = lit ''sd'' @ [d]" "split_whitespace l2 ! 2 = lit ''sd'' @ [d, 49]"
    and "parse_u64 (split_whitespace l1 ! 5) = Some r" "parse_u64 (split_whitespace l2 ! 5) = Some r"
    and "parse_u64 (split_whitespace l1 ! 9) = Some w" "parse_u64 (split_whitespace l2 ! 9) = Some w"
  shows "fold disk_line [l1, l2] (0, 0) = (2 * r, 2 * w)"
  using assms by (simp add: disk_line_def starts_with_def lit_def)

theorem partitions_counted_twice_witness:
  "fold disk_line [lit ''8 0 sda 1 1 7 1 1 1 9 1 1 1 1'', lit ''8 1 sda1 1 1 7 1 1 1 9 1 1 1 1''] (0, 0) = (14, 18)"
proof -
  have t: "split_whitespace (lit ''8 0 sda 1 1 7 1 1 1 9 1 1 1 1'') =
      map lit [''8'', ''0'', ''sda'', ''1'', ''1'', ''7'', ''1'', ''1'', ''1'', ''9'', ''1'', ''1'', ''1'', ''1'']"
    "split_whitespace (lit ''8 1 sda1 1 1 7 1 1 1 9 1 1 1 1'') =
      map lit [''8'', ''1'', ''sda1'', ''1'', ''1'', ''7'', ''1'', ''1'', ''1'', ''9'', ''1'', ''1'', ''1'', ''1'']"
    by (simp_all add: lit_def is_ws_def split_whitespace.simps)
  have "parse_u64 (lit ''7'') = Some 7" "parse_u64 (lit ''9'') = Some 9" by (rule demo_digits)+
  with partitions_counted_twice [of "lit ''8 0 sda 1 1 7 1 1 1 9 1 1 1 1''" "lit ''8 1 sda1 1 1 7 1 1 1 9 1 1 1 1''" 97 7 9] t
  show ?thesis by (simp add: lit_def)
qed

end
