(* ===== verification/Pulse_Prober.thy ===== *)
theory Pulse_Prober
  imports Pulse_Collector
begin

text \<open>
  src/pulse-agent/src/prober.rs: the TCP prober of the agent. The network is an argument: \<open>resolve\<close>
  is \<open>to_socket_addrs\<close>, \<open>connect\<close> says what a connection attempt to an address with a timeout
  does and, when it succeeds, how long it took in nanoseconds. A task of \<open>probe_tcp_targets\<close> may
  end in a panic, given by the text of its \<open>JoinError\<close>.
\<close>

subsection \<open>Definitions\<close>

datatype connect_outcome = Elapsed | Failed io_error | Connected nat

definition as_micros :: "duration \<Rightarrow> nat" where
  "as_micros d = d div 1000"

definition tcp_probe_inner ::
  "(rstr \<Rightarrow> io_error + 'a list) \<Rightarrow> (duration \<Rightarrow> 'a \<Rightarrow> connect_outcome) \<Rightarrow> rstr \<Rightarrow> duration \<Rightarrow> probe_error + u64" where
  "tcp_probe_inner resolve connect target timeout =
     bind_res (case resolve target of Inl e \<Rightarrow> Inl (DnsFailure target (io_text e)) | Inr addrs \<Rightarrow> Inr addrs) (\<lambda>addrs.
     bind_res (ok_or (first addrs) (DnsFailure target (lit ''no addresses resolved''))) (\<lambda>addr.
       case connect timeout addr of
         Elapsed \<Rightarrow> Inl (Timeout target (word_of_nat (as_millis timeout)))
       | Failed e \<Rightarrow> if io_refused e then Inl (ConnectionRefused target) else Inl (Io e)
       | Connected elapsed \<Rightarrow> Inr (word_of_nat (as_micros elapsed))))"

definition probe_target :: "rstr \<Rightarrow> u16 \<Rightarrow> rstr" where
  "probe_target host port = host @ lit '':'' @ show_nat (unat port)"

definition tcp_probe ::
  "(rstr \<Rightarrow> io_error + 'a list) \<Rightarrow> (duration \<Rightarrow> 'a \<Rightarrow> connect_outcome) \<Rightarrow> rstr \<Rightarrow> u16 \<Rightarrow> u32 \<Rightarrow> probe_result" where
  "tcp_probe resolve connect host port timeout_ms =
     (let target = probe_target host port; timeout = from_millis (ucast timeout_ms) in
      case tcp_probe_inner resolve connect target timeout of
        Inr latency_us \<Rightarrow> \<lparr>pr_target = target, pr_success = True, pr_latency_us = latency_us, pr_error_message = []\<rparr>
      | Inl e \<Rightarrow> \<lparr>pr_target = target, pr_success = False, pr_latency_us = 0, pr_error_message = display_probe_error e\<rparr>)"

definition join_probe :: "rstr option \<Rightarrow> probe_result \<Rightarrow> probe_result" where
  "join_probe panic result =
     (case panic of
        None \<Rightarrow> result
      | Some e \<Rightarrow> \<lparr>pr_target = lit ''unknown'', pr_success = False, pr_latency_us = 0,
                   pr_error_message = lit ''task panicked: '' @ e\<rparr>)"

text \<open>\<open>panics\<close> gives for each target what the join of its task reports.\<close>

definition probe_tcp_targets ::
  "(rstr \<Rightarrow> io_error + 'a list) \<Rightarrow> (duration \<Rightarrow> 'a \<Rightarrow> connect_outcome) \<Rightarrow> rstr option list \<Rightarrow>
   (rstr \<times> u16 \<times> u32) list \<Rightarrow> probe_result list" where
  "probe_tcp_targets resolve connect panics targets =
     map2 (\<lambda>panic (host, port, timeout_ms). join_probe panic (tcp_probe resolve connect host port timeout_ms)) panics targets"

subsection \<open>Lemmas\<close>

lemma timeout_millis: "word_of_nat (as_millis (from_millis (ucast (t :: u32)))) = t"
proof -
  have "unat t < 2 ^ 32" using unsigned_less [of t] by simp
  then have "take_bit 64 (unat t) = unat t" by (intro take_bit_nat_eq_self) simp
  then show ?thesis by (simp add: as_millis_def from_millis_def unsigned_ucast_eq)
qed

lemma display_probe_error_not_Nil: "display_probe_error e \<noteq> []"
  by (cases e) (simp_all add: lit_def)

subsection \<open>Properties\<close>

text \<open>
  A probe that was not cut short reports what happened. It names the target; it is a success
  exactly when the first resolved address accepts the connection in time, with the elapsed
  microseconds and no error text; otherwise the latency is 0, the text says which step failed, and a
  timeout is reported with exactly the milliseconds that were asked for.
\<close>

theorem probe_reports_outcome:
  fixes connect :: "duration \<Rightarrow> 'a \<Rightarrow> connect_outcome" and timeout_ms :: u32
  assumes "resolve (probe_target host port) = Inr (addr # addrs)"
  defines "r \<equiv> tcp_probe resolve connect host port timeout_ms"
    and "c \<equiv> connect (from_millis (ucast timeout_ms)) addr"
  shows "pr_target r = probe_target host port \<and>
    (pr_success r \<longleftrightarrow> (\<exists>ns. c = Connected ns)) \<and> (pr_success r \<longleftrightarrow> pr_error_message r = []) \<and>
    pr_latency_us r = (case c of Connected ns \<Rightarrow> word_of_nat (as_micros ns) | _ \<Rightarrow> 0) \<and>
    (c = Elapsed \<longrightarrow> pr_error_message r = display_probe_error (Timeout (probe_target host port) timeout_ms))"
  using assms(1) timeout_millis [of timeout_ms] display_probe_error_not_Nil
  unfolding r_def c_def
  by (auto simp: tcp_probe_def tcp_probe_inner_def Let_def first_def lit_def split: connect_outcome.split)

theorem probe_reports_outcome_witness:
  "pr_success (tcp_probe (\<lambda>t. if t = lit ''db:5432'' then Inr [0 :: nat] else Inr []) (\<lambda>d a. Connected (d div 4)) (lit ''db'') 5432 200)"
proof -
  have "probe_target (lit ''db'') 5432 = lit ''db:5432''" by (simp add: probe_target_def lit_def show_nat.simps)
  with probe_reports_outcome [of "\<lambda>t. if t = lit ''db:5432'' then Inr [0 :: nat] else Inr []" "lit ''db''" 5432 0 "[]"
      "\<lambda>d a. Connected (d div 4)" 200]
  show ?thesis by simp
qed

end
