(* ===== verification/Pulse_Agent.thy ===== *)
theory Pulse_Agent
  imports Pulse_Auth Pulse_Buffer Pulse_Prober Pulse_Grpc
begin

text \<open>
  src/pulse-agent/src/main.rs: the agent. Its tasks share the holdback buffer, the permit of a
  \<open>Notify\<close> (at most one is stored) and the collection interval; the record \<open>agent\<close> is that shared
  state with the collector. A session has a channel of 64 places to the gRPC stream and a forwarder
  task that moves buffered messages into it: \<open>uplink\<close> is the channel and the place where the
  forwarder waits. Each definition below is one turn of a task, between two points where it waits;
  a run of the agent is a sequence of turns in any order. A session that fails leaves its forwarder and its
  heartbeat task running, with a channel of its own and the same buffer and permit, so that a session is
  modelled together with the forwarders of those before it.

  The connection, the stream and the commands that arrive are arguments of \<open>run_session\<close>; the
  random bytes of the backoff and the clock are arguments as well.
\<close>

subsection \<open>Configuration and health check\<close>

record agent_config =
  ac_server_addr :: rstr
  ac_auth_secret :: "u8 list"
  ac_node_id :: rstr
  ac_interval :: duration

definition agent_config_from_env :: "(rstr \<rightharpoonup> rstr) \<Rightarrow> rstr + agent_config" where
  "agent_config_from_env env =
     (let server_addr = unwrap_or (env (lit ''PULSE_SERVER_ADDR'')) (lit ''http://127.0.0.1:50051'') in
      bind_res (ok_or (env (lit ''PULSE_AUTH_SECRET'')) (lit ''PULSE_AUTH_SECRET must be set'')) (\<lambda>auth_secret.
      let node_id = unwrap_or (env (lit ''PULSE_NODE_ID'')) (lit ''unknown'') in
      bind_res (ok_or (parse_u64 (unwrap_or (env (lit ''PULSE_INTERVAL_MS'')) (lit ''1000'')))
                  (lit ''PULSE_INTERVAL_MS must be a valid u64'')) (\<lambda>interval_ms.
        Inr \<lparr>ac_server_addr = server_addr, ac_auth_secret = utf8 auth_secret, ac_node_id = node_id,
             ac_interval = from_millis interval_ms\<rparr>)))"

text \<open>The exit code of \<open>--health-check\<close>; \<open>is_file\<close> is the metadata of a path, \<open>None\<close> an error.\<close>

definition agent_health_check :: "(rstr \<rightharpoonup> rstr) \<Rightarrow> (rstr \<Rightarrow> bool option) \<Rightarrow> nat" where
  "agent_health_check env is_file =
     (let stat = unwrap_or (env (lit ''PROC_PATH'')) (lit ''/proc'') @ lit ''/stat''
      in if is_file stat = Some True then 0 else 1)"

subsection \<open>Collecting\<close>

record agent =
  ag_holdback :: telemetry_buffer
  ag_permit :: bool
  ag_interval_ms :: u64
  ag_collector :: system_collector

definition agent_start :: "agent_config \<Rightarrow> agent" where
  "agent_start config =
     \<lparr>ag_holdback = telemetry_buffer_new 100, ag_permit = False,
      ag_interval_ms = word_of_nat (as_millis (ac_interval config)), ag_collector = collector_new\<rparr>"

definition collection_delay :: "agent \<Rightarrow> duration" where
  "collection_delay a = from_millis (ag_interval_ms a)"

text \<open>One turn of \<open>collection_loop\<close>, after the sleep.\<close>

definition collection_turn :: "file_system \<Rightarrow> nat \<Rightarrow> i64 \<Rightarrow> rstr \<Rightarrow> agent \<Rightarrow> agent" where
  "collection_turn fs now timestamp_ms node_id a =
     (case collect fs now timestamp_ms node_id (ag_collector a) of
        (Inr stats, c) \<Rightarrow>
          a\<lparr>ag_collector := c, ag_holdback := buffer_push (Some (PStats stats)) (ag_holdback a), ag_permit := True\<rparr>
      | (Inl e, c) \<Rightarrow> a\<lparr>ag_collector := c\<rparr>)"

subsection \<open>The tasks of a session\<close>

text \<open>Where the forwarder is: about to drain, sending what it drained, waiting, or ended.\<close>

datatype forwarder = FwDrain | FwSend "telemetry_message list" | FwWait | FwDone

record uplink =
  up_forwarder :: forwarder
  up_queue :: "telemetry_message list"
  up_receiver :: bool

definition uplink_new :: uplink where
  "uplink_new = \<lparr>up_forwarder = FwDrain, up_queue = [], up_receiver = True\<rparr>"

text \<open>\<open>tx.send(msg).await\<close>: \<open>None\<close> while the channel is full, otherwise whether it was taken.\<close>

definition uplink_send :: "telemetry_message \<Rightarrow> uplink \<Rightarrow> (bool \<times> uplink) option" where
  "uplink_send msg u =
     (if \<not> up_receiver u then Some (False, u)
      else if length (up_queue u) < 64 then Some (True, u\<lparr>up_queue := up_queue u @ [msg]\<rparr>)
      else None)"

definition forwarder_turn :: "uplink \<times> agent \<Rightarrow> uplink \<times> agent" where
  "forwarder_turn s =
     (let (u, a) = s in
      case up_forwarder u of
        FwDrain \<Rightarrow>
          (let (messages, buf) = buffer_drain (ag_holdback a)
           in (u\<lparr>up_forwarder := FwSend messages\<rparr>, a\<lparr>ag_holdback := buf\<rparr>))
      | FwSend [] \<Rightarrow> (u\<lparr>up_forwarder := FwWait\<rparr>, a)
      | FwSend (msg # messages) \<Rightarrow>
          (case uplink_send msg u of
             None \<Rightarrow> (u, a)
           | Some (True, u) \<Rightarrow> (u\<lparr>up_forwarder := FwSend messages\<rparr>, a)
           | Some (False, u) \<Rightarrow> (u\<lparr>up_forwarder := FwDone\<rparr>, a))
      | FwWait \<Rightarrow> if ag_permit a then (u\<lparr>up_forwarder := FwDrain\<rparr>, a\<lparr>ag_permit := False\<rparr>) else (u, a)
      | FwDone \<Rightarrow> (u, a))"

text \<open>One tick of \<open>heartbeat_loop\<close>; a full channel makes it wait and gives \<open>None\<close>.\<close>

definition heartbeat_message :: "rstr \<Rightarrow> i64 \<Rightarrow> telemetry_message" where
  "heartbeat_message node_id now = Some (PHeartbeat \<lparr>hb_node_id = node_id, hb_timestamp_ms = now\<rparr>)"

definition heartbeat_turn :: "rstr \<Rightarrow> i64 \<Rightarrow> uplink \<Rightarrow> (flow \<times> uplink) option" where
  "heartbeat_turn node_id now u =
     map_option (\<lambda>(taken, u). (if taken then Continue else Break, u)) (uplink_send (heartbeat_message node_id now) u)"

text \<open>The probe task of a command, once the results are there.\<close>

definition probe_message :: "probe_result list \<Rightarrow> telemetry_message option" where
  "probe_message results = map_option (\<lambda>r. Some (PProbeResult r)) (first results)"

subsection \<open>Commands\<close>

text \<open>What a command does: the interval it stores, the probe it starts.\<close>

definition handle_command :: "server_command \<Rightarrow> agent \<Rightarrow> (rstr \<times> u16 \<times> u32) option \<times> agent" where
  "handle_command cmd a =
     (case cmd of
        None \<Rightarrow> (None, a)
      | Some (HeartbeatAck t) \<Rightarrow> (None, a)
      | Some (ConfigUpdate interval_ms) \<Rightarrow> (None, a\<lparr>ag_interval_ms := ucast interval_ms\<rparr>)
      | Some (AddTcpProbe probe) \<Rightarrow> (Some (tp_host probe, ucast (tp_port probe), tp_timeout_ms probe), a)
      | Some (AddPingTarget p) \<Rightarrow> (None, a))"

datatype inbound_event = InCommand server_command | InClosed | InError rstr | InCancelled

text \<open>
  The command loop: the result is \<open>None\<close> while it waits for the next event; \<open>probes\<close> collects the
  probes started.
\<close>

fun command_loop ::
  "inbound_event list \<Rightarrow> (rstr \<times> u16 \<times> u32) list \<Rightarrow> agent \<Rightarrow> (rstr + unit) option \<times> (rstr \<times> u16 \<times> u32) list \<times> agent" where
  "command_loop [] probes a = (None, probes, a)"
| "command_loop (InCommand cmd # es) probes a =
     (let (probe, a) = handle_command cmd a
      in command_loop es (case probe of None \<Rightarrow> probes | Some p \<Rightarrow> probes @ [p]) a)"
| "command_loop (InClosed # es) probes a = (Some (Inr ()), probes, a)"
| "command_loop (InError e # es) probes a = (Some (Inl (lit ''error reading server command: '' @ e)), probes, a)"
| "command_loop (InCancelled # es) probes a = (Some (Inr ()), probes, a)"

text \<open>
  \<open>run_session\<close>: \<open>dialled\<close> and \<open>opened\<close> are the results of connecting and of opening the stream.
  \<open>so_tasks\<close> says whether the forwarder and the heartbeat task it has spawned go on after the
  function has returned.
\<close>

record session_outcome =
  so_result :: "(rstr + unit) option"
  so_probes :: "(rstr \<times> u16 \<times> u32) list"
  so_tasks :: bool

definition run_session ::
  "rstr + unit \<Rightarrow> rstr + unit \<Rightarrow> inbound_event list \<Rightarrow> agent \<Rightarrow> session_outcome \<times> agent" where
  "run_session dialled opened events a =
     (case dialled of
        Inl e \<Rightarrow> (\<lparr>so_result = Some (Inl e), so_probes = [], so_tasks = False\<rparr>, a)
      | Inr _ \<Rightarrow>
          (case opened of
             Inl e \<Rightarrow> (\<lparr>so_result = Some (Inl e), so_probes = [], so_tasks = True\<rparr>, a)
           | Inr _ \<Rightarrow>
               (let (result, probes, a) = command_loop events [] a
                in (\<lparr>so_result = result, so_probes = probes, so_tasks = (result \<noteq> Some (Inr ()))\<rparr>, a))))"

text \<open>One turn of \<open>run_agent_loop\<close> after a session: the delay before the next one.\<close>

definition after_session :: "u8 list \<Rightarrow> rstr + unit \<Rightarrow> exponential_backoff \<Rightarrow> duration \<times> exponential_backoff" where
  "after_session random result backoff =
     (case result of Inr _ \<Rightarrow> (0, backoff_reset backoff) | Inl e \<Rightarrow> next_delay random backoff)"

fun session_delays :: "(u8 list \<times> (rstr + unit)) list \<Rightarrow> exponential_backoff \<Rightarrow> duration list" where
  "session_delays [] b = []"
| "session_delays ((random, result) # rs) b =
     (let (delay, b) = after_session random result b in delay # session_delays rs b)"

subsection \<open>A session in progress\<close>

text \<open>
  A session while the stream is open: the turns of the tasks, and the stream taking the next message
  of the channel. The forwarders that failed sessions have left behind (\<open>ar_stale\<close>, each with the channel
  of its session, whose receiver goes at some time) share the buffer and the permit and take turns as
  well; their heartbeat tasks send to the old channels only. The last four fields record what the stream
  has taken, what was collected, how many collections found the buffer full, and what the forwarders left
  behind have drained.
\<close>

datatype agent_event =
    EvCollect file_system nat i64
  | EvForward
  | EvStale nat
  | EvStaleClosed nat
  | EvBeat i64
  | EvProbe "probe_result list"
  | EvCommand server_command
  | EvTake

record agent_run =
  ar_agent :: agent
  ar_uplink :: uplink
  ar_stale :: "uplink list"
  ar_taken :: "telemetry_message list"
  ar_collected :: "telemetry_message list"
  ar_overflows :: nat
  ar_stolen :: "telemetry_message list"

definition session_start :: "agent \<Rightarrow> uplink list \<Rightarrow> agent_run" where
  "session_start a stale =
     \<lparr>ar_agent = a, ar_uplink = uplink_new, ar_stale = stale, ar_taken = [], ar_collected = tb_inner (ag_holdback a),
      ar_overflows = 0, ar_stolen = []\<rparr>"

definition stale_turn :: "nat \<Rightarrow> agent_run \<Rightarrow> agent_run" where
  "stale_turn i r =
     (if i < length (ar_stale r)
      then (let (u, a) = forwarder_turn (ar_stale r ! i, ar_agent r)
            in r\<lparr>ar_stale := (ar_stale r)[i := u], ar_agent := a,
                 ar_stolen := ar_stolen r @
                   (if up_forwarder (ar_stale r ! i) = FwDrain then tb_inner (ag_holdback (ar_agent r)) else [])\<rparr>)
      else r)"

definition agent_turn :: "rstr \<Rightarrow> agent_event \<Rightarrow> agent_run \<Rightarrow> agent_run" where
  "agent_turn node_id e r =
     (case e of
        EvCollect fs now ts \<Rightarrow>
          (case fst (collect fs now ts node_id (ag_collector (ar_agent r))) of
             Inl _ \<Rightarrow> r\<lparr>ar_agent := collection_turn fs now ts node_id (ar_agent r)\<rparr>
           | Inr stats \<Rightarrow>
               r\<lparr>ar_agent := collection_turn fs now ts node_id (ar_agent r),
                 ar_collected := ar_collected r @ [Some (PStats stats)],
                 ar_overflows := ar_overflows r + (if buffer_len (ag_holdback (ar_agent r)) < 100 then 0 else 1)\<rparr>)
      | EvForward \<Rightarrow>
          (let (u, a) = forwarder_turn (ar_uplink r, ar_agent r) in r\<lparr>ar_uplink := u, ar_agent := a\<rparr>)
      | EvStale i \<Rightarrow> stale_turn i r
      | EvStaleClosed i \<Rightarrow> r\<lparr>ar_stale := (ar_stale r)[i := (ar_stale r ! i)\<lparr>up_receiver := False\<rparr>]\<rparr>
      | EvBeat now \<Rightarrow>
          (case heartbeat_turn node_id now (ar_uplink r) of None \<Rightarrow> r | Some (_, u) \<Rightarrow> r\<lparr>ar_uplink := u\<rparr>)
      | EvProbe results \<Rightarrow>
          (case Option.bind (probe_message results) (\<lambda>m. uplink_send m (ar_uplink r)) of
             None \<Rightarrow> r | Some (_, u) \<Rightarrow> r\<lparr>ar_uplink := u\<rparr>)
      | EvCommand cmd \<Rightarrow> r\<lparr>ar_agent := snd (handle_command cmd (ar_agent r))\<rparr>
      | EvTake \<Rightarrow>
          (case up_queue (ar_uplink r) of
             [] \<Rightarrow> r
           | m # ms \<Rightarrow> r\<lparr>ar_uplink := (ar_uplink r)\<lparr>up_queue := ms\<rparr>, ar_taken := ar_taken r @ [m]\<rparr>))"

fun is_stats :: "telemetry_message \<Rightarrow> bool" where
  "is_stats (Some (PStats _)) = True"
| "is_stats _ = False"

definition fw_pending :: "forwarder \<Rightarrow> telemetry_message list" where
  "fw_pending f = (case f of FwSend ms \<Rightarrow> ms | _ \<Rightarrow> [])"

text \<open>Every statistics message that is somewhere on its way, oldest first.\<close>

definition stats_flow :: "agent_run \<Rightarrow> telemetry_message list" where
  "stats_flow r = filter is_stats (ar_taken r) @ filter is_stats (up_queue (ar_uplink r)) @
     fw_pending (up_forwarder (ar_uplink r)) @ tb_inner (ag_holdback (ar_agent r))"

definition holdback_ok :: "agent \<Rightarrow> bool" where
  "holdback_ok a \<longleftrightarrow> buffer_ok (ag_holdback a) \<and> tb_capacity (ag_holdback a) = 100 \<and> list_all is_stats (tb_inner (ag_holdback a))"

definition run_ok :: "agent_run \<Rightarrow> bool" where
  "run_ok r \<longleftrightarrow>
     holdback_ok (ar_agent r) \<and> list_all is_stats (fw_pending (up_forwarder (ar_uplink r))) \<and>
     up_receiver (ar_uplink r) \<and> up_forwarder (ar_uplink r) \<noteq> FwDone \<and> length (up_queue (ar_uplink r)) \<le> 64 \<and>
     subseq (stats_flow r) (ar_collected r) \<and>
     length (stats_flow r) + ar_overflows r + length (ar_stolen r) = length (ar_collected r) \<and>
     (tb_inner (ag_holdback (ar_agent r)) \<noteq> [] \<longrightarrow>
        ag_permit (ar_agent r) \<or> (\<exists>u \<in> insert (ar_uplink r) (set (ar_stale r)). up_forwarder u = FwDrain))"

text \<open>A forwarder without a receiver that has drained something sends no more and drains no more.\<close>

definition spent :: "uplink \<Rightarrow> bool" where
  "spent u \<longleftrightarrow> up_forwarder u = FwDone \<or> fw_pending (up_forwarder u) \<noteq> []"

definition stale_ok :: "agent_run \<Rightarrow> bool" where
  "stale_ok r \<longleftrightarrow> (\<forall>u \<in> set (ar_stale r). \<not> up_receiver u) \<and> length (ar_stolen r) \<le> 100 * length (filter spent (ar_stale r))"

subsection \<open>Lemmas: a turn\<close>

lemma filter_all: "list_all P xs \<Longrightarrow> filter P xs = xs"
  by (induction xs) simp_all

lemma run_okI:
  assumes "run_ok r" "holdback_ok (ar_agent r')" "list_all is_stats (fw_pending (up_forwarder (ar_uplink r')))"
    and "up_receiver (ar_uplink r')" "up_forwarder (ar_uplink r') \<noteq> FwDone" "length (up_queue (ar_uplink r')) \<le> 64"
    and "stats_flow r' = stats_flow r" "ar_collected r' = ar_collected r" "ar_overflows r' = ar_overflows r" "ar_stolen r' = ar_stolen r"
    and "tb_inner (ag_holdback (ar_agent r')) \<noteq> [] \<Longrightarrow>
      ag_permit (ar_agent r') \<or> (\<exists>u \<in> insert (ar_uplink r') (set (ar_stale r')). up_forwarder u = FwDrain)"
  shows "run_ok r'"
  using assms unfolding run_ok_def by simp

lemma send_run_ok:
  assumes "run_ok r" "uplink_send m (ar_uplink r) = Some (taken, u)" "\<not> is_stats m"
  shows "run_ok (r\<lparr>ar_uplink := u\<rparr>)"
  using assms
  by (intro run_okI [OF assms(1)]) (auto simp: run_ok_def uplink_send_def stats_flow_def split: if_splits)

lemma forward_run_ok:
  assumes "run_ok r"
  shows "run_ok (agent_turn node EvForward r)"
proof -
  let ?u = "ar_uplink r" and ?a = "ar_agent r"
  have ok: "holdback_ok ?a" "list_all is_stats (fw_pending (up_forwarder ?u))" "up_receiver ?u" "up_forwarder ?u \<noteq> FwDone"
    "length (up_queue ?u) \<le> 64"
    "tb_inner (ag_holdback ?a) \<noteq> [] \<Longrightarrow> ag_permit ?a \<or> (\<exists>u \<in> insert ?u (set (ar_stale r)). up_forwarder u = FwDrain)"
    using assms by (auto simp: run_ok_def)
  show ?thesis
  proof (cases "up_forwarder ?u")
    case FwDrain
    with ok show ?thesis
      by (intro run_okI [OF assms])
        (simp_all add: agent_turn_def forwarder_turn_def buffer_drain_def holdback_ok_def buffer_ok_def fw_pending_def stats_flow_def)
  next
    case (FwSend ms)
    with ok show ?thesis
      by (intro run_okI [OF assms]; cases ms)
        (auto simp: agent_turn_def forwarder_turn_def uplink_send_def fw_pending_def stats_flow_def)
  next
    case FwWait
    with ok show ?thesis
      by (intro run_okI [OF assms]; cases "ag_permit ?a")
        (auto simp: agent_turn_def forwarder_turn_def holdback_ok_def fw_pending_def stats_flow_def)
  next
    case FwDone
    with ok(4) show ?thesis by simp
  qed
qed

lemma update_member: "u \<in> set xs \<Longrightarrow> u \<noteq> xs ! i \<Longrightarrow> u \<in> set (xs[i := v])"
  by (metis in_set_conv_nth length_list_update nth_list_update_neq)

lemma stale_run_ok:
  assumes "run_ok r"
  shows "run_ok (stale_turn i r)"
proof (cases "i < length (ar_stale r)")
  case i: True
  let ?u = "ar_stale r ! i" and ?a = "ar_agent r"
  have wake: "tb_inner (ag_holdback ?a) \<noteq> [] \<Longrightarrow> ag_permit ?a \<or> (\<exists>u \<in> insert (ar_uplink r) (set (ar_stale r)). up_forwarder u = FwDrain)"
    using assms by (auto simp: run_ok_def)
  have others: "\<exists>u' \<in> insert (ar_uplink r) (set ((ar_stale r)[i := v])). up_forwarder u' = FwDrain"
    if "\<exists>u \<in> insert (ar_uplink r) (set (ar_stale r)). up_forwarder u = FwDrain" "up_forwarder ?u \<noteq> FwDrain" for v
  proof -
    from that obtain u where u: "u \<in> insert (ar_uplink r) (set (ar_stale r))" "up_forwarder u = FwDrain" by blast
    with that(2) have "u \<noteq> ?u" by auto
    with u update_member [of u "ar_stale r" i v] show ?thesis by auto
  qed
  have awake: "ag_permit ?a \<or> (\<exists>u' \<in> insert (ar_uplink r) (set ((ar_stale r)[i := v])). up_forwarder u' = FwDrain)"
    if "tb_inner (ag_holdback ?a) \<noteq> []" "up_forwarder ?u \<noteq> FwDrain" for v
    using wake [OF that(1)] others [OF _ that(2)] by blast
  have here: "v \<in> set ((ar_stale r)[i := v])" for v using i by (rule set_update_memI)
  show ?thesis
  proof (cases "up_forwarder ?u")
    case FwDrain
    let ?pre = "filter is_stats (ar_taken r) @ filter is_stats (up_queue (ar_uplink r)) @ fw_pending (up_forwarder (ar_uplink r))"
    have "subseq (?pre @ []) (?pre @ tb_inner (ag_holdback ?a))" by (intro list_emb_append_mono) simp_all
    with assms have "subseq ?pre (ar_collected r)" by (auto simp: run_ok_def stats_flow_def intro: subseq_order.order_trans)
    with assms FwDrain i show ?thesis
      by (simp add: stale_turn_def forwarder_turn_def buffer_drain_def run_ok_def stats_flow_def holdback_ok_def buffer_ok_def)
  next
    case (FwSend ms)
    then have "snd (forwarder_turn (?u, ?a)) = ?a"
      by (cases ms) (auto simp: forwarder_turn_def uplink_send_def)
    then obtain v where v: "forwarder_turn (?u, ?a) = (v, ?a)" by (metis surjective_pairing)
    show ?thesis
      by (rule run_okI [OF assms])
        (use awake [of v] FwSend assms i v in \<open>simp_all add: stale_turn_def run_ok_def stats_flow_def\<close>)
  next
    case FwWait
    show ?thesis
    proof (cases "ag_permit ?a")
      case True
      have "\<exists>u' \<in> set ((ar_stale r)[i := ?u\<lparr>up_forwarder := FwDrain\<rparr>]). up_forwarder u' = FwDrain"
        by (rule bexI [OF _ here]) simp
      with FwWait True assms i show ?thesis
        by (intro run_okI [OF assms]) (simp_all add: stale_turn_def forwarder_turn_def run_ok_def holdback_ok_def stats_flow_def)
    next
      case False
      with FwWait i assms show ?thesis by (simp add: stale_turn_def forwarder_turn_def)
    qed
  next
    case FwDone
    with assms i show ?thesis by (simp add: stale_turn_def forwarder_turn_def)
  qed
qed (use assms in \<open>simp add: stale_turn_def\<close>)

lemma closed_run_ok:
  assumes "run_ok r"
  shows "run_ok (agent_turn node (EvStaleClosed i) r)"
proof (rule run_okI [OF assms])
  have "\<exists>u' \<in> set ((ar_stale r)[i := (ar_stale r ! i)\<lparr>up_receiver := False\<rparr>]). up_forwarder u' = FwDrain"
    if "u \<in> set (ar_stale r)" "up_forwarder u = FwDrain" for u
  proof (cases "u = ar_stale r ! i \<and> i < length (ar_stale r)")
    case True
    show ?thesis
    proof (rule bexI)
      show "(ar_stale r ! i)\<lparr>up_receiver := False\<rparr> \<in> set ((ar_stale r)[i := (ar_stale r ! i)\<lparr>up_receiver := False\<rparr>])"
        using True by (simp add: set_update_memI)
      show "up_forwarder ((ar_stale r ! i)\<lparr>up_receiver := False\<rparr>) = FwDrain" using True that(2) by simp
    qed
  next
    case False
    then show ?thesis using that update_member [of u "ar_stale r" i] by (cases "i < length (ar_stale r)") (auto simp: list_update_beyond)
  qed
  then show "ag_permit (ar_agent (agent_turn node (EvStaleClosed i) r)) \<or>
      (\<exists>u \<in> insert (ar_uplink (agent_turn node (EvStaleClosed i) r)) (set (ar_stale (agent_turn node (EvStaleClosed i) r))). up_forwarder u = FwDrain)"
    if "tb_inner (ag_holdback (ar_agent (agent_turn node (EvStaleClosed i) r))) \<noteq> []"
    using that assms by (auto simp: run_ok_def agent_turn_def)
qed (use assms in \<open>simp_all add: run_ok_def agent_turn_def stats_flow_def\<close>)

lemma collect_run_ok:
  assumes "run_ok r"
  shows "run_ok (agent_turn node (EvCollect fs now ts) r)"
proof -
  let ?a = "ar_agent r"
  obtain res c where col: "collect fs now ts node (ag_collector ?a) = (res, c)" by fastforce
  show ?thesis
  proof (cases res)
    case (Inl e)
    with assms col show ?thesis
      by (intro run_okI [OF assms])
        (auto simp: agent_turn_def collection_turn_def run_ok_def holdback_ok_def stats_flow_def)
  next
    case (Inr stats)
    let ?b = "ag_holdback ?a" and ?m = "Some (PStats stats)" and ?r = "agent_turn node (EvCollect fs now ts) r"
    let ?pre = "filter is_stats (ar_taken r) @ filter is_stats (up_queue (ar_uplink r)) @ fw_pending (up_forwarder (ar_uplink r))"
    have ok: "buffer_ok ?b" "tb_capacity ?b = 100" "list_all is_stats (tb_inner ?b)"
      using assms by (simp_all add: run_ok_def holdback_ok_def)
    have eq: "ar_agent ?r = ?a\<lparr>ag_collector := c, ag_holdback := buffer_push ?m ?b, ag_permit := True\<rparr>"
      "ar_uplink ?r = ar_uplink r" "ar_taken ?r = ar_taken r" "ar_collected ?r = ar_collected r @ [?m]"
      "ar_overflows ?r = ar_overflows r + (if length (tb_inner ?b) < 100 then 0 else 1)" "ar_stolen ?r = ar_stolen r"
      using col Inr by (simp_all add: agent_turn_def collection_turn_def buffer_len_def)
    have inner: "tb_inner (buffer_push ?m ?b) = (if length (tb_inner ?b) < 100 then tb_inner ?b else tl (tb_inner ?b)) @ [?m]"
      using ok(2) by (auto simp: buffer_push_def Let_def)
    then have flow: "stats_flow ?r = ?pre @ (if length (tb_inner ?b) < 100 then tb_inner ?b else tl (tb_inner ?b)) @ [?m]"
      by (simp add: stats_flow_def eq)
    have old: "subseq (?pre @ tb_inner ?b) (ar_collected r)" "length (?pre @ tb_inner ?b) + ar_overflows r + length (ar_stolen r) = length (ar_collected r)"
      using assms by (simp_all add: run_ok_def stats_flow_def)
    have "subseq (?pre @ (if length (tb_inner ?b) < 100 then tb_inner ?b else tl (tb_inner ?b))) (?pre @ tb_inner ?b)"
      by (cases "tb_inner ?b") (auto simp: subseq_append')
    from subseq_order.order_trans [OF this old(1)]
    have "subseq ((?pre @ (if length (tb_inner ?b) < 100 then tb_inner ?b else tl (tb_inner ?b))) @ [?m]) (ar_collected r @ [?m])"
      by (rule list_emb_append_mono) simp
    then have "subseq (stats_flow ?r) (ar_collected ?r)" unfolding flow eq append_assoc .
    moreover have "length (stats_flow ?r) + ar_overflows ?r + length (ar_stolen ?r) = length (ar_collected ?r)"
      using old(2) ok(1,2) by (auto simp: flow eq buffer_ok_def)
    moreover have "holdback_ok (ar_agent ?r)"
      using tb.invar_push [OF ok(1)] tb.cap_push [OF ok(1)] ok by (cases "tb_inner ?b") (auto simp: eq holdback_ok_def inner)
    ultimately show ?thesis using assms by (simp add: run_ok_def eq)
  qed
qed

lemma turn_run_ok: "run_ok r \<Longrightarrow> run_ok (agent_turn node e r)"
proof (cases e)
  case (EvBeat now)
  moreover assume "run_ok r"
  ultimately show ?thesis
    by (auto simp: agent_turn_def heartbeat_turn_def heartbeat_message_def intro: send_run_ok split: option.splits)
next
  case (EvProbe results)
  moreover assume "run_ok r"
  ultimately show ?thesis
    by (auto simp: agent_turn_def probe_message_def first_def intro: send_run_ok split: option.splits list.splits)
next
  case (EvCommand cmd)
  moreover assume ok: "run_ok r"
  ultimately show ?thesis
    by (intro run_okI [OF ok])
      (auto simp: agent_turn_def handle_command_def run_ok_def holdback_ok_def stats_flow_def split: option.splits server_payload.splits)
next
  case EvTake
  moreover assume ok: "run_ok r"
  ultimately show ?thesis
    by (intro run_okI [OF ok]; cases "up_queue (ar_uplink r)") (auto simp: agent_turn_def run_ok_def stats_flow_def)
next
  case (EvStale i)
  moreover assume "run_ok r"
  ultimately show ?thesis by (simp add: agent_turn_def stale_run_ok)
qed (simp_all add: forward_run_ok collect_run_ok closed_run_ok)

lemma run_ok_start: "holdback_ok a \<Longrightarrow> run_ok (session_start a stale)"
  by (simp add: run_ok_def session_start_def uplink_new_def fw_pending_def stats_flow_def)

lemma run_ok_fold: "run_ok r \<Longrightarrow> run_ok (fold (agent_turn node) es r)"
  by (induction es arbitrary: r) (simp_all add: turn_run_ok)

text \<open>What forwarders without a receiver can drain: once something, which they lose, and then nothing.\<close>

lemma filter_spent_update:
  "i < length xs \<Longrightarrow> length (filter spent (xs[i := v])) + (if spent (xs ! i) then 1 else 0) =
     length (filter spent xs) + (if spent v then 1 else 0)"
proof (induction xs arbitrary: i)
  case (Cons x xs)
  then show ?case by (cases i) (auto simp: )
qed simp

lemma stale_forward_cases:
  assumes "\<not> up_receiver u" "holdback_ok a" "forwarder_turn (u, a) = (u', a')"
  shows "\<not> up_receiver u' \<and> (spent u \<longrightarrow> spent u') \<and>
    (up_forwarder u = FwDrain \<and> tb_inner (ag_holdback a) \<noteq> [] \<longrightarrow> \<not> spent u \<and> spent u') \<and> length (tb_inner (ag_holdback a)) \<le> 100"
  using assms
  by (cases "up_forwarder u")
    (auto simp: forwarder_turn_def uplink_send_def buffer_drain_def spent_def fw_pending_def holdback_ok_def buffer_ok_def
      split: list.splits if_splits)

lemma stale_ok_turn:
  assumes "stale_ok r" "run_ok r"
  shows "stale_ok (agent_turn node e r)"
proof (cases "\<exists>i < length (ar_stale r). e = EvStale i \<or> e = EvStaleClosed i")
  case False
  then have "ar_stale (agent_turn node e r) = ar_stale r \<and> ar_stolen (agent_turn node e r) = ar_stolen r"
    by (cases e) (auto simp: agent_turn_def stale_turn_def Let_def list_update_beyond split: sum.split option.split prod.split list.split)
  with assms(1) show ?thesis by (simp add: stale_ok_def)
next
  case True
  then obtain i where i: "i < length (ar_stale r)" and e: "e = EvStale i \<or> e = EvStaleClosed i" by blast
  let ?u = "ar_stale r ! i"
  have gone: "\<not> up_receiver ?u" using assms(1) i by (simp add: stale_ok_def)
  show ?thesis
  proof (cases "e = EvStale i")
    case True
    obtain u a where f: "forwarder_turn (?u, ar_agent r) = (u, a)" by fastforce
    have "holdback_ok (ar_agent r)" using assms(2) by (simp add: run_ok_def)
    note one = stale_forward_cases [OF gone this f]
    have "\<forall>x \<in> set ((ar_stale r)[i := u]). \<not> up_receiver x"
      using assms(1) one set_update_subset_insert [of "ar_stale r" i u] by (auto simp: stale_ok_def)
    moreover have "length (filter spent ((ar_stale r)[i := u])) + (if spent ?u then 1 else 0) =
        length (filter spent (ar_stale r)) + (if spent u then 1 else 0)" by (rule filter_spent_update [OF i])
    ultimately show ?thesis
      using True one f i assms(1) by (auto simp: agent_turn_def stale_turn_def stale_ok_def split: if_splits)
  next
    case False
    with e gone have "(ar_stale r)[i := ?u\<lparr>up_receiver := False\<rparr>] = ar_stale r" by (cases ?u) (metis list_update_id uplink.select_convs(3) uplink.update_convs(3))
    with False e assms(1) show ?thesis by (simp add: agent_turn_def stale_ok_def)
  qed
qed

lemma stale_length: "length (ar_stale (fold (agent_turn node) es r)) = length (ar_stale r)"
proof (induction es arbitrary: r)
  case (Cons e es)
  have "length (ar_stale (agent_turn node e r)) = length (ar_stale r)"
    by (cases e) (simp_all add: agent_turn_def stale_turn_def Let_def split: sum.split option.split prod.split list.split)
  with Cons show ?case by simp
qed simp

lemma stale_ok_fold: "stale_ok r \<Longrightarrow> run_ok r \<Longrightarrow> stale_ok (fold (agent_turn node) es r)"
  by (induction es arbitrary: r) (simp_all add: stale_ok_turn turn_run_ok)

lemma no_stale_fold:
  "ar_stale r = [] \<Longrightarrow> ar_stale (fold (agent_turn node) es r) = [] \<and> ar_stolen (fold (agent_turn node) es r) = ar_stolen r"
proof (induction es arbitrary: r)
  case (Cons e es)
  then have "ar_stale (agent_turn node e r) = []" "ar_stolen (agent_turn node e r) = ar_stolen r"
    by (cases e; simp add: agent_turn_def stale_turn_def Let_def split: sum.split option.split prod.split list.split)+
  with Cons.IH [of "agent_turn node e r"] show ?case by simp
qed simp

lemma holdback_ok_start: "holdback_ok (agent_start config)"
  by (simp add: holdback_ok_def agent_start_def telemetry_buffer_new_def buffer_ok_def)

text \<open>The node id of what an agent sends about itself.\<close>

fun agent_message :: "rstr \<Rightarrow> telemetry_message \<Rightarrow> bool" where
  "agent_message node (Some (PStats s)) \<longleftrightarrow> ns_node_id s = node"
| "agent_message node (Some (PHeartbeat h)) \<longleftrightarrow> hb_node_id h = node"
| "agent_message node (Some (PProbeResult r)) \<longleftrightarrow> True"
| "agent_message node None \<longleftrightarrow> False"

definition run_messages :: "agent_run \<Rightarrow> telemetry_message set" where
  "run_messages r = set (ar_taken r) \<union> set (up_queue (ar_uplink r)) \<union> set (fw_pending (up_forwarder (ar_uplink r))) \<union>
     set (tb_inner (ag_holdback (ar_agent r)))"

lemma set_buffer_push: "set (tb_inner (buffer_push m b)) \<subseteq> insert m (set (tb_inner b))"
  by (cases "tb_inner b") (auto simp: buffer_push_def Let_def)

lemma run_messages_send:
  "uplink_send m (ar_uplink r) = Some (taken, u) \<Longrightarrow> run_messages (r\<lparr>ar_uplink := u\<rparr>) \<subseteq> insert m (run_messages r)"
  by (auto simp: uplink_send_def run_messages_def split: if_splits)

lemma run_messages_forward: "run_messages (agent_turn node EvForward r) \<subseteq> run_messages r"
  by (auto simp: run_messages_def agent_turn_def forwarder_turn_def buffer_drain_def uplink_send_def fw_pending_def
      split: forwarder.splits list.splits if_splits)

lemma run_messages_stale: "run_messages (stale_turn i r) \<subseteq> run_messages r"
  by (auto simp: run_messages_def stale_turn_def forwarder_turn_def buffer_drain_def uplink_send_def Let_def
      split: forwarder.splits list.splits if_splits)

lemma run_messages_turn:
  assumes "m \<in> run_messages (agent_turn node e r)"
  shows "m \<in> run_messages r \<or> agent_message node m"
proof (cases e)
  case (EvCollect fs now ts)
  obtain res c where col: "collect fs now ts node (ag_collector (ar_agent r)) = (res, c)" by fastforce
  show ?thesis
  proof (cases res)
    case (Inl e')
    with EvCollect col assms show ?thesis by (simp add: agent_turn_def collection_turn_def run_messages_def)
  next
    case (Inr stats)
    have "ns_node_id stats = node" using col Inr by (auto elim!: collect_Inr)
    with EvCollect col Inr assms set_buffer_push [of "Some (PStats stats)" "ag_holdback (ar_agent r)"] show ?thesis
      by (auto simp: agent_turn_def collection_turn_def run_messages_def)
  qed
next
  case EvForward
  with assms run_messages_forward show ?thesis by blast
next
  case (EvBeat now)
  with assms run_messages_send [of "heartbeat_message node now" r] show ?thesis
    by (fastforce simp: agent_turn_def heartbeat_turn_def heartbeat_message_def split: option.splits)
next
  case (EvProbe results)
  with assms show ?thesis
    by (cases results) (fastforce simp: agent_turn_def probe_message_def first_def split: option.splits dest: run_messages_send)+
next
  case (EvCommand cmd)
  have "ag_holdback (snd (handle_command cmd (ar_agent r))) = ag_holdback (ar_agent r)"
    by (simp add: handle_command_def split: option.split server_payload.split)
  with EvCommand assms show ?thesis by (simp add: agent_turn_def run_messages_def)
next
  case EvTake
  with assms show ?thesis by (auto simp: agent_turn_def run_messages_def split: list.splits)
next
  case (EvStale i)
  with assms run_messages_stale [of i r] show ?thesis by (auto simp: agent_turn_def)
next
  case (EvStaleClosed i)
  with assms show ?thesis by (simp add: agent_turn_def run_messages_def)
qed

lemma run_messages_fold:
  "m \<in> run_messages (fold (agent_turn node) es r) \<Longrightarrow> m \<in> run_messages r \<or> agent_message node m"
  by (induction es arbitrary: r) (auto dest: run_messages_turn)

subsection \<open>Properties\<close>

text \<open>
  C7: what an open session does with the statistics. However the turns of the collector, the forwarder,
  the heartbeat, the probes, the commands, the stream and the forwarders left behind by failed sessions
  interleave, the statistics taken by the stream, in the channel, in the hands of the session's forwarder
  and in the buffer are together a subsequence of what was collected; missing are exactly the overflows of
  the buffer and what the forwarders left behind have drained, which is at most one buffer of 100 messages
  for each of them once their receivers are gone, and nothing where no session has failed before. So
  without an overflow and a theft they are everything that was collected, in order. The channel holds at
  most 64 messages, and whenever the buffer holds something a forwarder is about to drain it or will
  be woken, the session's own where no other is left.
\<close>

theorem open_session_keeps_statistics:
  fixes a :: agent and node :: rstr and es :: "agent_event list" and stale :: "uplink list"
  assumes "holdback_ok a"
  defines "r \<equiv> fold (agent_turn node) es (session_start a stale)"
  shows "subseq (stats_flow r) (ar_collected r) \<and>
    length (stats_flow r) + ar_overflows r + length (ar_stolen r) = length (ar_collected r) \<and>
    ((\<forall>u \<in> set stale. \<not> up_receiver u) \<longrightarrow> length (ar_stolen r) \<le> 100 * length stale) \<and>
    (ar_overflows r = 0 \<and> ar_stolen r = [] \<longrightarrow> stats_flow r = ar_collected r) \<and> length (up_queue (ar_uplink r)) \<le> 64 \<and>
    (buffer_is_empty (ag_holdback (ar_agent r)) \<or> ag_permit (ar_agent r) \<or>
       (\<exists>u \<in> insert (ar_uplink r) (set (ar_stale r)). up_forwarder u = FwDrain)) \<and>
    (stale = [] \<longrightarrow> ar_stolen r = [] \<and> ar_stale r = [])"
proof -
  have start: "run_ok (session_start a stale)" by (rule run_ok_start [OF assms(1)])
  then have "run_ok r" unfolding r_def by (rule run_ok_fold)
  then have ok: "subseq (stats_flow r) (ar_collected r)"
    "length (stats_flow r) + ar_overflows r + length (ar_stolen r) = length (ar_collected r)"
    "length (up_queue (ar_uplink r)) \<le> 64"
    "tb_inner (ag_holdback (ar_agent r)) \<noteq> [] \<longrightarrow>
       ag_permit (ar_agent r) \<or> (\<exists>u \<in> insert (ar_uplink r) (set (ar_stale r)). up_forwarder u = FwDrain)"
    by (simp_all add: run_ok_def)
  have "length (ar_stolen r) \<le> 100 * length stale" if "\<forall>u \<in> set stale. \<not> up_receiver u"
  proof -
    have "stale_ok (session_start a stale)" using that by (simp add: stale_ok_def session_start_def)
    from stale_ok_fold [OF this start, of node es] have "stale_ok r" by (simp add: r_def)
    moreover have "length (ar_stale r) = length stale" unfolding r_def by (simp add: stale_length session_start_def)
    ultimately show ?thesis using length_filter_le [of spent "ar_stale r"] by (simp add: stale_ok_def)
  qed
  moreover have "stats_flow r = ar_collected r" if "ar_overflows r = 0" "ar_stolen r = []"
    using subseq_same_length [OF ok(1)] ok(2) that by simp
  moreover have "ar_stolen r = [] \<and> ar_stale r = []" if "stale = []"
    using no_stale_fold [of "session_start a stale" node es] that by (simp add: r_def session_start_def)
  ultimately show ?thesis using ok unfolding buffer_is_empty_def by blast
qed

theorem open_session_keeps_statistics_witness:
  "ar_taken (fold (agent_turn (lit ''n'')) [EvCollect (demo_fs (lit ''1'')) 5 7, EvForward, EvForward, EvTake]
     (session_start (agent_start \<lparr>ac_server_addr = [], ac_auth_secret = [], ac_node_id = lit ''n'', ac_interval = 0\<rparr>) [])) \<noteq> [] \<and>
   buffer_is_empty (ag_holdback (agent_start \<lparr>ac_server_addr = [], ac_auth_secret = [], ac_node_id = lit ''n'', ac_interval = 0\<rparr>))"
proof -
  let ?c = "\<lparr>ac_server_addr = [], ac_auth_secret = [], ac_node_id = lit ''n'', ac_interval = 0\<rparr>"
  let ?es = "[EvCollect (demo_fs (lit ''1'')) 5 7, EvForward, EvForward, EvTake]"
  let ?r = "fold (agent_turn (lit ''n'')) ?es (session_start (agent_start ?c) [])"
  obtain stats c where col: "collect (demo_fs (lit ''1'')) 5 7 (lit ''n'') collector_new = (Inr stats, c)"
    using demo_collect(1) [of 5 7 "lit ''n''"] by blast
  have run: "ar_taken ?r = [Some (PStats stats)]" "ar_overflows ?r = 0" "ar_collected ?r = [Some (PStats stats)]"
    by (simp_all add: agent_turn_def collection_turn_def session_start_def agent_start_def col telemetry_buffer_new_def
        buffer_push_def forwarder_turn_def uplink_new_def buffer_drain_def uplink_send_def buffer_len_def)
  have "stats_flow ?r = ar_collected ?r"
    using open_session_keeps_statistics [OF holdback_ok_start [of ?c], of "lit ''n''" ?es "[]"] run by simp
  with run show ?thesis by (simp add: agent_start_def telemetry_buffer_new_def buffer_is_empty_def)
qed

text \<open>
  An agent speaks for itself only. Every message that a session has taken, queued, drained or
  buffered about the agent's node carries the node id of the configuration, and none is empty.
\<close>

theorem agent_messages_carry_node_id:
  assumes "\<forall>m \<in> set (tb_inner (ag_holdback a)). agent_message node m"
    and "m \<in> set (ar_taken (fold (agent_turn node) es (session_start a stale)))"
  shows "agent_message node m"
  using run_messages_fold [of m node es "session_start a stale"] assms
  by (auto simp: run_messages_def session_start_def uplink_new_def fw_pending_def)

theorem agent_messages_carry_node_id_witness:
  "agent_message (lit ''n'') (Some (PHeartbeat \<lparr>hb_node_id = lit ''n'', hb_timestamp_ms = 9\<rparr>))"
proof (rule agent_messages_carry_node_id)
  let ?a = "agent_start \<lparr>ac_server_addr = [], ac_auth_secret = [], ac_node_id = lit ''n'', ac_interval = 0\<rparr>"
  show "\<forall>m \<in> set (tb_inner (ag_holdback ?a)). agent_message (lit ''n'') m"
    by (simp add: agent_start_def telemetry_buffer_new_def)
  show "Some (PHeartbeat \<lparr>hb_node_id = lit ''n'', hb_timestamp_ms = 9\<rparr>)
      \<in> set (ar_taken (fold (agent_turn (lit ''n'')) [EvBeat 9, EvTake] (session_start ?a [])))"
    by (simp add: agent_turn_def session_start_def uplink_new_def heartbeat_turn_def heartbeat_message_def uplink_send_def)
qed

text \<open>
  A session that fails leaves its tasks behind. Once connected, \<open>run_session\<close> aborts the
  forwarder and the heartbeat task exactly when it returns without an error; on every error of the
  stream it returns past the clean-up.
\<close>

theorem failed_session_leaks_tasks:
  assumes "run_session (Inr ()) opened events a = (out, a')" "so_result out = Some result"
  shows "so_tasks out \<longleftrightarrow> (\<exists>e. result = Inl e)"
  using assms by (cases opened; cases result) (auto simp: run_session_def split: prod.splits)

theorem failed_session_leaks_tasks_witness:
  "\<exists>out a'. run_session (Inr ()) (Inr ()) [InCommand (Some (ConfigUpdate 500)), InError (lit ''reset'')]
      (agent_start \<lparr>ac_server_addr = [], ac_auth_secret = [], ac_node_id = [], ac_interval = 0\<rparr>) = (out, a') \<and>
    so_tasks out \<and> ag_interval_ms a' = 500"
proof -
  let ?a = "agent_start \<lparr>ac_server_addr = [], ac_auth_secret = [], ac_node_id = [], ac_interval = 0\<rparr>"
  obtain out a' where r: "run_session (Inr ()) (Inr ()) [InCommand (Some (ConfigUpdate 500)), InError (lit ''reset'')] ?a = (out, a')"
    by fastforce
  then have "so_result out = Some (Inl (lit ''error reading server command: '' @ lit ''reset''))" "ag_interval_ms a' = 500"
    by (auto simp: run_session_def handle_command_def)
  with failed_session_leaks_tasks [OF r] r show ?thesis by blast
qed

text \<open>
  C30: a forwarder left behind by a failed session throws the buffered telemetry away. Its channel
  has no receiver any more; when the next collection wakes it, it drains the whole buffer, fails to
  send the first message and ends, and none of the drained messages is anywhere.
\<close>

theorem stale_forwarder_discards_holdback:
  assumes "\<not> up_receiver u" "up_forwarder u = FwWait" "ag_permit a" "\<not> buffer_is_empty (ag_holdback a)"
  shows "forwarder_turn (forwarder_turn (forwarder_turn (u, a))) =
    (u\<lparr>up_forwarder := FwDone\<rparr>, a\<lparr>ag_permit := False, ag_holdback := snd (buffer_drain (ag_holdback a))\<rparr>) \<and>
    buffer_is_empty (snd (buffer_drain (ag_holdback a)))"
  using assms by (cases "tb_inner (ag_holdback a)")
    (auto simp: forwarder_turn_def buffer_drain_def uplink_send_def buffer_is_empty_def)

theorem stale_forwarder_discards_holdback_witness:
  "\<exists>u a. forwarder_turn (forwarder_turn (forwarder_turn
      (\<lparr>up_forwarder = FwWait, up_queue = [], up_receiver = False\<rparr>,
       \<lparr>ag_holdback = buffer_push (heartbeat_message [] 1) (telemetry_buffer_new 100), ag_permit = True,
        ag_interval_ms = 1, ag_collector = collector_new\<rparr>))) = (u, a) \<and> up_forwarder u = FwDone \<and> tb_inner (ag_holdback a) = []"
  using stale_forwarder_discards_holdback [of "\<lparr>up_forwarder = FwWait, up_queue = [], up_receiver = False\<rparr>"
      "\<lparr>ag_holdback = buffer_push (heartbeat_message [] 1) (telemetry_buffer_new 100), ag_permit = True,
        ag_interval_ms = 1, ag_collector = collector_new\<rparr>"]
  by (simp add: buffer_push_def telemetry_buffer_new_def buffer_is_empty_def buffer_drain_def)

text \<open>
  A probe command for a port beyond 65535 probes another port: the port of the command is cut to
  its low 16 bits.
\<close>

theorem probe_port_truncated:
  "\<exists>port. handle_command (Some (AddTcpProbe probe)) a = (Some (tp_host probe, port, tp_timeout_ms probe), a) \<and>
     unat port = unat (tp_port probe) mod 65536"
  by (simp add: handle_command_def unsigned_ucast_eq take_bit_eq_mod)

end
