(* ===== verification/Pulse_Agent_Main.thy ===== *)
theory Pulse_Agent_Main
  imports Pulse_Agent
begin

text \<open>
  \<open>main\<close> and \<open>run_agent_loop\<close> of src/pulse-agent/src/main.rs: the health check, the configuration, and
  the loop that opens one session after the other until Ctrl-C. The loop waits at two places, in a
  session and in the delay after a failed one; \<open>loop_step\<close> is what happens at each of them, \<open>None\<close>
  where the event cannot happen. A branch of a \<open>select!\<close> can be taken when its future is ready, and either
  one when both are: the session when it has a result, the sleep when its timer has gone off, the token
  once it is cancelled.
\<close>

subsection \<open>Definitions\<close>

datatype loop_phase = InSession | Sleeping duration | Returned

text \<open>
  \<open>lp_elapsed\<close> says whether the timer of the sleep has gone off, \<open>lp_collecting\<close> whether the collection
  task runs; it is aborted when the loop ends.
\<close>

record agent_loop =
  lp_phase :: loop_phase
  lp_backoff :: exponential_backoff
  lp_elapsed :: bool
  lp_cancelled :: bool
  lp_collecting :: bool

definition loop_start :: agent_loop where
  "loop_start = \<lparr>lp_phase = InSession, lp_backoff = backoff_new, lp_elapsed = False, lp_cancelled = False, lp_collecting = True\<rparr>"

text \<open>
  What happens to the loop: the timer of the sleep goes off and Ctrl-C sets the token. What the loop
  does: a session ends with its result (and the random bytes of the next delay), the sleep ends by its
  timer or is cut short by the token, the loop takes the branch of the token and breaks.
\<close>

datatype loop_event = LTimer | LCtrlC | LSession "u8 list" "rstr + unit" | LWake bool | LBreak

primrec loop_step :: "loop_event \<Rightarrow> agent_loop \<Rightarrow> agent_loop option" where
  "loop_step (LSession random result) l =
     (if lp_phase l \<noteq> InSession then None
      else (let (delay, b) = after_session random result (lp_backoff l)
            in Some (l\<lparr>lp_backoff := b, lp_elapsed := False,
                       lp_phase := (case result of Inr _ \<Rightarrow> InSession | Inl _ \<Rightarrow> Sleeping delay)\<rparr>)))"
| "loop_step (LWake cut_short) l =
     (case lp_phase l of
        Sleeping _ \<Rightarrow> if (if cut_short then lp_cancelled l else lp_elapsed l) then Some (l\<lparr>lp_phase := InSession\<rparr>) else None
      | _ \<Rightarrow> None)"
| "loop_step LTimer l =
     (case lp_phase l of Sleeping _ \<Rightarrow> if lp_elapsed l then None else Some (l\<lparr>lp_elapsed := True\<rparr>) | _ \<Rightarrow> None)"
| "loop_step LCtrlC l = Some (l\<lparr>lp_cancelled := True\<rparr>)"
| "loop_step LBreak l =
     (if lp_phase l = InSession \<and> lp_cancelled l then Some (l\<lparr>lp_phase := Returned, lp_collecting := False\<rparr>) else None)"

fun loop_run :: "loop_event list \<Rightarrow> agent_loop \<Rightarrow> agent_loop option" where
  "loop_run [] l = Some l"
| "loop_run (e # es) l = (case loop_step e l of None \<Rightarrow> None | Some l \<Rightarrow> loop_run es l)"

datatype agent_outcome = ExitCode nat | ConfigError rstr | Runs agent_config agent agent_loop

definition agent_main :: "rstr list \<Rightarrow> (rstr \<rightharpoonup> rstr) \<Rightarrow> (rstr \<Rightarrow> bool option) \<Rightarrow> agent_outcome" where
  "agent_main args env is_file =
     (if lit ''--health-check'' \<in> set args then ExitCode (agent_health_check env is_file)
      else (case agent_config_from_env env of
              Inl e \<Rightarrow> ConfigError e
            | Inr config \<Rightarrow> Runs config (agent_start config) loop_start))"

subsection \<open>Specification\<close>

text \<open>The failed sessions since the last one that ended cleanly.\<close>

fun failures_in_row :: "loop_event list \<Rightarrow> nat \<Rightarrow> nat" where
  "failures_in_row [] n = n"
| "failures_in_row (LSession _ (Inr _) # es) n = failures_in_row es 0"
| "failures_in_row (LSession _ (Inl _) # es) n = failures_in_row es (Suc n)"
| "failures_in_row (_ # es) n = failures_in_row es n"

text \<open>The delay before the next attempt, in seconds, that \<open>n\<close> failures in a row ask for.\<close>

definition delay_secs :: "nat \<Rightarrow> nat" where
  "delay_secs n = min (2 ^ n) 60"

text \<open>The turns of the loop itself, and how many of them lead from a state out of the loop.\<close>

fun loop_turn :: "loop_event \<Rightarrow> bool" where
  "loop_turn LTimer = False"
| "loop_turn LCtrlC = False"
| "loop_turn _ = True"

fun session_turn :: "loop_event \<Rightarrow> bool" where
  "session_turn (LSession _ _) = True"
| "session_turn _ = False"

fun turns_left :: "loop_phase \<Rightarrow> nat" where
  "turns_left (Sleeping _) = 2"
| "turns_left InSession = 1"
| "turns_left Returned = 0"

definition loop_inv :: "nat \<Rightarrow> agent_loop \<Rightarrow> bool" where
  "loop_inv n l \<longleftrightarrow>
     eb_current (lp_backoff l) = from_secs (delay_secs n) \<and>
     eb_base (lp_backoff l) = from_secs 1 \<and> eb_max (lp_backoff l) = from_secs 60 \<and>
     (\<forall>d. lp_phase l = Sleeping d \<longrightarrow> 0 < n \<and>
        from_millis 1 * (700 * delay_secs (n - 1)) \<le> d \<and> d \<le> from_millis 1 * (1300 * delay_secs (n - 1))) \<and>
     (lp_phase l = Returned \<longleftrightarrow> \<not> lp_collecting l) \<and> (lp_phase l = Returned \<longrightarrow> lp_cancelled l)"

subsection \<open>Lemmas\<close>

lemma delay_secs_bounds: "1 \<le> delay_secs n" "delay_secs n \<le> 60" "delay_secs 0 = 1"
  by (simp_all add: delay_secs_def)

lemma delay_secs_Suc: "delay_secs (Suc n) = min (delay_secs n * 2) 60"
  by (simp add: delay_secs_def min_def)

lemma next_delay_state:
  "eb_current (snd (next_delay buf b)) = min (eb_current b * 2) (eb_max b)"
  "eb_base (snd (next_delay buf b)) = eb_base b" "eb_max (snd (next_delay buf b)) = eb_max b"
  by (simp_all add: next_delay_def Let_def)

lemma loop_inv_session:
  assumes "loop_inv n l" "lp_phase l = InSession" "loop_step (LSession random result) l = Some l'"
  shows "loop_inv (failures_in_row [LSession random result] n) l'"
proof (cases result)
  case (Inl e)
  let ?b = "lp_backoff l"
  from assms(1) have b: "eb_current ?b = from_secs (delay_secs n)" "eb_base ?b = from_secs 1" "eb_max ?b = from_secs 60"
    by (simp_all add: loop_inv_def)
  obtain d b' where nd: "next_delay random ?b = (d, b')" by (cases "next_delay random ?b")
  with next_delay_state [of random ?b] b have "eb_current b' = from_secs (delay_secs (Suc n))"
    "eb_base b' = from_secs 1" "eb_max b' = from_secs 60"
    by (simp_all add: delay_secs_Suc from_secs_def min_def)
  with next_delay_fst_within [OF b(1) delay_secs_bounds(1,2), of random] nd assms Inl show ?thesis
    by (auto simp: loop_inv_def after_session_def)
next
  case (Inr u)
  with assms show ?thesis by (auto simp: loop_inv_def after_session_def backoff_reset_def delay_secs_bounds)
qed

lemma loop_inv_step:
  assumes "loop_inv n l" "loop_step e l = Some l'"
  shows "loop_inv (failures_in_row [e] n) l'"
proof (cases e)
  case (LSession random result)
  with assms(2) have "lp_phase l = InSession" by (simp split: if_splits)
  with assms LSession loop_inv_session show ?thesis by blast
qed (use assms in \<open>auto simp: loop_inv_def split: loop_phase.splits if_splits\<close>)

lemma failures_Cons: "failures_in_row (e # es) n = failures_in_row es (failures_in_row [e] n)"
  by (cases "(e # es, n)" rule: failures_in_row.cases) simp_all

lemma loop_inv_run: "loop_run es l = Some l' \<Longrightarrow> loop_inv n l \<Longrightarrow> loop_inv (failures_in_row es n) l'"
proof (induction es arbitrary: l n)
  case (Cons e es)
  then obtain l1 where "loop_step e l = Some l1" "loop_run es l1 = Some l'" by (auto split: option.splits)
  with Cons.IH [OF this(2) loop_inv_step [OF Cons.prems(2) this(1)]] show ?case by (simp add: failures_Cons [of e es])
qed simp

lemma loop_inv_start: "loop_inv 0 loop_start"
  by (simp add: loop_inv_def loop_start_def backoff_new_def delay_secs_bounds)

lemma not_cancelled_run: "loop_run es l = Some l' \<Longrightarrow> LCtrlC \<notin> set es \<Longrightarrow> lp_cancelled l' = lp_cancelled l"
proof (induction es arbitrary: l)
  case (Cons e es)
  then obtain l1 where "loop_step e l = Some l1" "loop_run es l1 = Some l'" by (auto split: option.splits)
  moreover from this(1) Cons.prems(2) have "lp_cancelled l1 = lp_cancelled l"
    by (cases e) (auto split: loop_phase.splits if_splits prod.splits)
  ultimately show ?case using Cons by simp
qed simp

lemma loop_run_append: "loop_run (xs @ ys) l = Option.bind (loop_run xs l) (loop_run ys)"
  by (induction xs arbitrary: l) (simp_all split: option.split)

lemma cancelled_run: "loop_run es l = Some l' \<Longrightarrow> lp_cancelled l \<Longrightarrow> lp_cancelled l'"
proof (induction es arbitrary: l)
  case (Cons e es)
  then obtain l1 where "loop_step e l = Some l1" "loop_run es l1 = Some l'" by (auto split: option.splits)
  moreover from this(1) Cons.prems(2) have "lp_cancelled l1"
    by (cases e) (auto split: loop_phase.splits if_splits prod.splits)
  ultimately show ?case using Cons.IH by blast
qed simp

text \<open>A turn that is not the end of a session brings the loop one turn nearer to its end.\<close>

lemma turns_left_step:
  "loop_step e l = Some l' \<Longrightarrow> turns_left (lp_phase l') + (if loop_turn e \<and> \<not> session_turn e then 1 else 0) \<le>
     turns_left (lp_phase l) + (if session_turn e then 1 else 0)"
  by (cases e) (auto split: loop_phase.splits if_splits prod.splits sum.splits)

lemma turns_bounded:
  "loop_run es l = Some l' \<Longrightarrow>
     turns_left (lp_phase l') + length (filter loop_turn es) \<le> turns_left (lp_phase l) + 2 * length (filter session_turn es)"
proof (induction es arbitrary: l)
  case (Cons e es)
  then obtain l1 where step: "loop_step e l = Some l1" and run: "loop_run es l1 = Some l'" by (auto split: option.splits)
  have "session_turn e \<Longrightarrow> loop_turn e" by (cases e) simp_all
  with turns_left_step [OF step] Cons.IH [OF run] show ?case by (auto split: if_splits)
qed simp

lemma stuck_iff_returned:
  assumes "lp_cancelled l"
  shows "(\<forall>e. loop_turn e \<longrightarrow> loop_step e l = None) \<longleftrightarrow> lp_phase l = Returned"
proof (cases "lp_phase l")
  case InSession
  with assms have "loop_step LBreak l \<noteq> None" by simp
  with InSession show ?thesis by (metis loop_turn.simps(5) loop_phase.distinct(3))
next
  case (Sleeping d)
  with assms have "loop_step (LWake True) l \<noteq> None" by simp
  with Sleeping show ?thesis by (metis loop_turn.simps(4) loop_phase.distinct(5))
next
  case Returned
  then have "loop_step e l = None" if "loop_turn e" for e using that by (cases e) simp_all
  with Returned show ?thesis by simp
qed

subsection \<open>Properties\<close>

text \<open>
  C28: the agent reconnects with an exponential backoff. In every state the loop can come to, a delay
  follows a failed session and is within thirty per cent of one second doubled for every failure in
  a row before it, sixty seconds at most; a session that ended cleanly starts the count afresh; and
  the loop is left, with the collection aborted, only after Ctrl-C.
\<close>

theorem agent_loop_backs_off:
  assumes "loop_run es loop_start = Some l"
  defines "n \<equiv> failures_in_row es 0"
  shows "(\<forall>d. lp_phase l = Sleeping d \<longrightarrow> 0 < n \<and>
       from_millis 1 * (700 * min (2 ^ (n - 1)) 60) \<le> d \<and> d \<le> from_millis 1 * (1300 * min (2 ^ (n - 1)) 60)) \<and>
    (lp_phase l = Returned \<longleftrightarrow> \<not> lp_collecting l) \<and> (lp_phase l = Returned \<longrightarrow> LCtrlC \<in> set es)"
proof -
  have "loop_inv n l" unfolding n_def by (rule loop_inv_run [OF assms(1) loop_inv_start])
  moreover from this have "lp_phase l = Returned \<longrightarrow> LCtrlC \<in> set es"
    using not_cancelled_run [OF assms(1)] by (auto simp: loop_inv_def loop_start_def)
  ultimately show ?thesis by (simp add: loop_inv_def delay_secs_def)
qed

theorem agent_loop_backs_off_witness:
  "\<exists>l d. loop_run [LSession [] (Inl []), LTimer, LWake False, LSession [] (Inl [])] loop_start = Some l \<and>
     lp_phase l = Sleeping d \<and> from_millis 1 * 1400 \<le> d \<and> d \<le> from_millis 1 * 2600"
proof -
  let ?es = "[LSession [] (Inl []), LTimer, LWake False, LSession [] (Inl [])]"
  obtain l d where l: "loop_run ?es loop_start = Some l" "lp_phase l = Sleeping d"
    by (simp add: loop_start_def after_session_def split_def Let_def)
  from agent_loop_backs_off [OF l(1)] l(2) have "from_millis 1 * 1400 \<le> d \<and> d \<le> from_millis 1 * 2600" by auto
  with l show ?thesis by blast
qed

text \<open>
  C29: Ctrl-C ends the agent. Once it has been received, the loop never waits again for a timer or for the
  server: in every state it can come to then, the token alone lets it go on, out of a session at
  once, and out of a delay, which is cut short, with the turn after that. It takes no more than two
  turns beyond those that sessions ending by themselves give it, so it stops turning only when it
  has returned; and then the collection is aborted and no session is opened any more.
\<close>

theorem agent_stops_on_ctrl_c:
  assumes "loop_run es loop_start = Some l" "LCtrlC \<in> set es" "loop_run es' l = Some l'"
  shows "length (filter loop_turn es') \<le> 2 * length (filter session_turn es') + 2 \<and>
    (lp_phase l' = InSession \<longrightarrow> map_option lp_phase (loop_step LBreak l') = Some Returned) \<and>
    (\<forall>d. lp_phase l' = Sleeping d \<longrightarrow> map_option lp_phase (loop_run [LWake True, LBreak] l') = Some Returned) \<and>
    ((\<forall>e. loop_turn e \<longrightarrow> loop_step e l' = None) \<longleftrightarrow> lp_phase l' = Returned) \<and>
    (lp_phase l' = Returned \<longrightarrow> \<not> lp_collecting l')"
proof -
  from assms(2) obtain xs ys where es: "es = xs @ LCtrlC # ys" by (meson split_list)
  with assms(1) obtain k where "loop_run ys (k\<lparr>lp_cancelled := True\<rparr>) = Some l" by (auto simp: loop_run_append bind_eq_Some_conv)
  then have "lp_cancelled l" by (rule cancelled_run) simp
  with assms(3) have c: "lp_cancelled l'" by (rule cancelled_run)
  have "loop_run (es @ es') loop_start = Some l'" using assms by (simp add: loop_run_append)
  from loop_inv_run [OF this loop_inv_start] have inv: "lp_phase l' = Returned \<longrightarrow> \<not> lp_collecting l'" by (simp add: loop_inv_def)
  have "turns_left (lp_phase l) \<le> 2" by (cases "lp_phase l") simp_all
  with turns_bounded [OF assms(3)] have "length (filter loop_turn es') \<le> 2 * length (filter session_turn es') + 2" by linarith
  moreover have "(\<forall>e. loop_turn e \<longrightarrow> loop_step e l' = None) \<longleftrightarrow> lp_phase l' = Returned"
    by (rule stuck_iff_returned [OF c])
  ultimately show ?thesis using inv c by simp
qed

theorem agent_stops_on_ctrl_c_witness:
  "\<exists>l l'. loop_run [LSession [] (Inl []), LCtrlC] loop_start = Some l \<and> loop_run [LWake True, LBreak] l = Some l' \<and>
     lp_phase l' = Returned \<and> \<not> lp_collecting l'"
proof -
  obtain l d where l: "loop_run [LSession [] (Inl []), LCtrlC] loop_start = Some l" "lp_phase l = Sleeping d"
    by (simp add: loop_start_def after_session_def split_def Let_def)
  with agent_stops_on_ctrl_c [OF l(1), of "[]" l] obtain l' where l': "loop_run [LWake True, LBreak] l = Some l'" "lp_phase l' = Returned"
    by (auto simp del: loop_run.simps(2))
  with agent_stops_on_ctrl_c [OF l(1) _ l'(1)] have "\<not> lp_collecting l'" by simp
  with l l' show ?thesis by blast
qed

end
