(* ===== verification/Pulse_Http.thy ===== *)
theory Pulse_Http
  imports Pulse_Server Pulse_Backoff
begin

text \<open>
  The layers that src/pulse-server/src/main.rs puts around its routes, from the outside: the timeout of
  ten seconds with the handler of its error, the rate limit, the layer of origins, and the routes. The
  layer of traces only logs, and the limit of bodies concerns extractors of bodies, of which no handler
  has one.

  Only the handlers wait, so that the timeout concerns them alone. It drops a handler that waits for the database, so that the handlers are divided at that wait:
  \<open>route_start\<close> runs a handler until it answers or waits, \<open>route_resume\<close> from the answer of the database
  on; \<open>serve_route\<close> is the two in a row.

  The rate limit is the crate \<open>tower_governor\<close>, here a parameter: the key it takes from the address of
  the peer among the extensions of a request, and its check of a key against the quota, which has a
  state of its own. A request whose key cannot be extracted is answered 500, one over the quota 429.
  The layer of origins (\<open>tower_http\<close>, configured by \<open>cors_layer_from_env\<close>) answers every request with the
  method OPTIONS itself, as a preflight request; what it adds to other answers is left out. The routes are
  registered for GET; HEAD, which \<open>axum\<close> serves as GET without the body, is left out.
\<close>

subsection \<open>Handlers that wait\<close>

datatype pending =
    PendingNode rstr
  | PendingHistory rstr history_query i64 i64
  | PendingReady

datatype 'j route_state =
    Panicked
  | Answered "http_status + 'j http_body" "'j app_state"
  | Waiting pending "'j app_state"

definition when_claims ::
  "('v, 'j) http_io \<Rightarrow> 'v http_request \<Rightarrow> ('j app_state \<Rightarrow> 'j route_state) \<Rightarrow> 'j app_state \<Rightarrow> 'j route_state" where
  "when_claims io req run st =
     (case claims_from_request_parts (hi_to_str io) (hi_secret_var io) req (as_metrics st) of
        (Inl code, m) \<Rightarrow> Answered (Inl code) (st\<lparr>as_metrics := m\<rparr>)
      | (Inr _, m) \<Rightarrow> run (st\<lparr>as_metrics := m\<rparr>))"

definition answered :: "(http_status + 'j) \<times> 'j app_state \<Rightarrow> 'j route_state" where
  "answered r = Answered (map_sum id JsonBody (fst r)) (snd r)"

text \<open>The handlers without a wait run to their end at once.\<close>

fun route_start :: "('v, 'j) http_io \<Rightarrow> 'v http_request \<Rightarrow> route \<Rightarrow> 'j app_state \<Rightarrow> 'j route_state" where
  "route_start io req (RGetNode node_id) st =
     when_claims io req (\<lambda>st.
       case get_node_lookup (hi_json io) (hi_unicode io) node_id st of
         Some r \<Rightarrow> answered (finish_request (lit ''/api/v1/nodes/:id'') (r, st))
       | None \<Rightarrow> Waiting (PendingNode node_id) st) st"
| "route_start io req (RHistory node_id params) st =
     when_claims io req (\<lambda>st.
       case history_lookup (hi_unicode io) (hi_now_ms io) node_id params of
         None \<Rightarrow> Panicked
       | Some (Inl code) \<Rightarrow> answered (finish_request (lit ''/api/v1/nodes/:id/history'') (Inl code, st))
       | Some (Inr (from_ms, limit)) \<Rightarrow> Waiting (PendingHistory node_id params from_ms limit) st) st"
| "route_start io req RReadyz st = Waiting PendingReady st"
| "route_start io req r st = (case serve_route io req r st of None \<Rightarrow> Panicked | Some (reply, st) \<Rightarrow> Answered reply st)"

fun route_resume :: "('v, 'j) http_io \<Rightarrow> pending \<Rightarrow> 'j app_state \<Rightarrow> (http_status + 'j http_body) \<times> 'j app_state" where
  "route_resume io (PendingNode node_id) st =
     map_prod (map_sum id JsonBody) id (get_node_reply (hi_json io)
       (fst (run_stmt (hi_outcome io) (select_node (hi_scan io) node_id) (as_db st))) st)"
| "route_resume io (PendingHistory node_id params from_ms limit) st =
     map_prod (map_sum id JsonBody) id (history_reply (hi_json io) node_id params from_ms (hi_now_ms io)
       (fst (run_stmt (hi_outcome io) (select_snapshots (hi_scan io) node_id from_ms (hi_now_ms io) limit) (as_db st))) st)"
| "route_resume io PendingReady st = (map_sum id JsonBody (readiness_check (hi_json io) (hi_outcome io)), st)"

subsection \<open>The layers\<close>

datatype http_method = MGet | MOptions | MOther

record ('p, 'k, 'g) governor =
  gv_key :: "'p option \<Rightarrow> 'k option"
  gv_check :: "'k \<Rightarrow> 'g \<Rightarrow> bool \<times> 'g"

datatype 'j http_answer =
    Routed "http_status + 'j http_body"
  | Preflight
  | MethodNotAllowed
  | UnableToExtractKey
  | TooManyRequests
  | RequestTimeout rstr

definition request_timeout :: duration where
  "request_timeout = from_secs 10"

text \<open>\<open>elapsed\<close> is the time the handler waits; a handler that is dropped leaves the state as it was when it began to.\<close>

definition timeout_layer ::
  "duration \<Rightarrow> rstr \<Rightarrow> ('v, 'j) http_io \<Rightarrow> 'v http_request \<Rightarrow> route \<Rightarrow> 'j app_state \<Rightarrow> ('j http_answer \<times> 'j app_state) option" where
  "timeout_layer elapsed err io req r st =
     (case route_start io req r st of
        Panicked \<Rightarrow> None
      | Answered reply st \<Rightarrow> Some (Routed reply, st)
      | Waiting p st \<Rightarrow>
          if request_timeout < elapsed then Some (RequestTimeout (lit ''Request timed out: '' @ err), st)
          else (let (reply, st) = route_resume io p st in Some (Routed reply, st)))"

definition http_service ::
  "('p, 'k, 'g) governor \<Rightarrow> 'p option \<Rightarrow> http_method \<Rightarrow> duration \<Rightarrow> rstr \<Rightarrow> ('v, 'j) http_io \<Rightarrow> 'v http_request \<Rightarrow> route \<Rightarrow>
   'g \<times> 'j app_state \<Rightarrow> ('j http_answer \<times> 'g \<times> 'j app_state) option" where
  "http_service G peer meth elapsed err io req r s =
     (let (g, st) = s in
      case gv_key G peer of
        None \<Rightarrow> Some (UnableToExtractKey, g, st)
      | Some k \<Rightarrow>
          (case gv_check G k g of
             (False, g) \<Rightarrow> Some (TooManyRequests, g, st)
           | (True, g) \<Rightarrow>
               (case meth of
                  MOptions \<Rightarrow> Some (Preflight, g, st)
                | MOther \<Rightarrow> Some (MethodNotAllowed, g, st)
                | MGet \<Rightarrow> map_option (\<lambda>(a, st). (a, g, st)) (timeout_layer elapsed err io req r st))))"

text \<open>
  \<open>axum::serve(listener, app)\<close> with a \<open>Router\<close>: the address of the peer becomes an extension of the
  requests only with \<open>into_make_service_with_connect_info\<close>, which the source does not call.
\<close>

definition connect_info :: "'p \<Rightarrow> 'p option" where
  "connect_info addr = None"

record ('p, 'v, 'j) http_call =
  hc_peer :: 'p
  hc_method :: http_method
  hc_elapsed :: duration
  hc_err :: rstr
  hc_io :: "('v, 'j) http_io"
  hc_req :: "'v http_request"
  hc_route :: route

fun http_serve ::
  "('p, 'k, 'g) governor \<Rightarrow> ('p, 'v, 'j) http_call list \<Rightarrow> 'g \<times> 'j app_state \<Rightarrow>
   ('j http_answer list \<times> 'g \<times> 'j app_state) option" where
  "http_serve G [] s = Some ([], s)"
| "http_serve G (c # cs) s =
     (case http_service G (connect_info (hc_peer c)) (hc_method c) (hc_elapsed c) (hc_err c) (hc_io c) (hc_req c) (hc_route c) s of
        None \<Rightarrow> None
      | Some (a, s) \<Rightarrow> map_option (\<lambda>(as, s). (a # as, s)) (http_serve G cs s))"

subsection \<open>Lemmas\<close>

lemma claims_accept_frame:
  "claims_from_request_parts ts sv req m = (Inr x, m') \<Longrightarrow> m' = m"
  by (auto simp: claims_from_request_parts_def Let_def split: option.splits if_splits)

text \<open>A handler that comes to wait has changed nothing so far.\<close>

lemma waiting_unchanged:
  assumes "route_start io req r st = Waiting p st'"
  shows "st' = st"
  using assms
  by (cases r) (auto simp: when_claims_def answered_def dest!: claims_accept_frame split: prod.splits sum.splits option.splits)

text \<open>A handler whose wait is not interrupted is the handler of the route.\<close>

lemma serve_route_split:
  "serve_route io req r st =
     (case route_start io req r st of
        Panicked \<Rightarrow> None
      | Answered reply st \<Rightarrow> Some (reply, st)
      | Waiting p st \<Rightarrow> Some (route_resume io p st))"
proof (cases r)
  case (RGetNode node_id)
  then show ?thesis
    by (simp add: with_claims_def when_claims_def json_reply_def answered_def get_node_handler_def map_prod_def split_def
        split: prod.split sum.split option.split)
next
  case (RHistory node_id params)
  then show ?thesis
    by (simp add: with_claims_def when_claims_def json_reply_def answered_def get_node_history_def map_prod_def split_def
        split: prod.split sum.split option.split)
qed (simp_all split: option.split prod.split)

text \<open>A request that changes the state is a step of the server.\<close>

lemma route_is_step:
  fixes io :: "('v, 'j) http_io" and L :: "'v auth_lib"
  assumes "serve_route io req r (sv_state s) = Some (reply, st)" "scan_ok (hi_scan io)"
  shows "\<exists>s'. server_step L J hash secret vm_url THttp s s' \<and> sv_state s' = st"
proof (cases "\<exists>flt. r = RWs flt")
  case False
  with server_step.http_request [OF assms(1) _ assms(2)] show ?thesis by (metis set_state_simps(1))
next
  case True
  then obtain flt where r: "r = RWs flt" ..
  show ?thesis
  proof (cases "\<exists>d. reply = Inr (Upgraded (Some d))")
    case True
    then obtain d where "reply = Inr (Upgraded (Some d))" ..
    with server_step.dashboard_connects [of io req flt s d st L J hash secret vm_url] assms(1) r show ?thesis by fastforce
  next
    case False
    with server_step.dashboard_refused [of io req flt s reply st L J hash secret vm_url] assms(1) r show ?thesis by fastforce
  qed
qed

text \<open>
  The layers around the routes refine the server: an answer of the layers leaves the state as it was,
  every other answer is that of the route, and the state after it is one the server can step to.
\<close>

lemma http_layers_refine_server:
  fixes io :: "('v, 'j) http_io" and L :: "'v auth_lib"
  assumes "scan_ok (hi_scan io)" "http_service G peer meth elapsed err io req r (g, sv_state s) = Some (a, g', st)"
  shows "(\<exists>reply. a = Routed reply \<and> meth = MGet \<and> serve_route io req r (sv_state s) = Some (reply, st) \<and>
      (\<exists>s'. server_step L J hash secret vm_url THttp s s' \<and> sv_state s' = st)) \<or> (\<forall>reply. a \<noteq> Routed reply) \<and> st = sv_state s"
proof -
  consider "\<forall>reply. a \<noteq> Routed reply" "st = sv_state s" | "meth = MGet" "timeout_layer elapsed err io req r (sv_state s) = Some (a, st)"
    using assms(2) by (auto simp: http_service_def split: option.splits prod.splits bool.splits http_method.splits)
  then show ?thesis
  proof cases
    case 2
    then have "(\<forall>reply. a \<noteq> Routed reply) \<and> st = sv_state s \<or> (\<exists>reply. a = Routed reply \<and> serve_route io req r (sv_state s) = Some (reply, st))"
      using waiting_unchanged [of io req r "sv_state s"]
      by (auto simp: timeout_layer_def serve_route_split [of io req r] split: route_state.splits if_splits prod.splits)
    with 2 route_is_step [OF _ assms(1), of req r s _ st L J hash secret vm_url] show ?thesis by blast
  qed blast
qed

subsection \<open>Properties\<close>

text \<open>
  The HTTP side of the server answers nothing but errors. The address of the peer is not among the
  extensions of the requests, as \<open>main\<close> serves its router; where the key extractor of the rate limit
  has no key for a request without it, as the crate documents, every request, the health checks and
  the dashboards included, is answered 500 before it comes to its route, and none changes anything.
\<close>

theorem http_requests_refused:
  assumes "gv_key G None = None"
  shows "http_serve G cs (g, st) = Some (replicate (length cs) UnableToExtractKey, g, st)"
  using assms by (induction cs) (simp_all add: http_service_def connect_info_def)

text \<open>The demonstration limit admits each address once.\<close>

definition demo_governor :: "(nat, nat, nat set) governor" where
  "demo_governor = \<lparr>gv_key = id, gv_check = (\<lambda>k g. (k \<notin> g, insert k g))\<rparr>"

theorem http_requests_refused_witness:
  "http_serve demo_governor
     [\<lparr>hc_peer = 4, hc_method = MGet, hc_elapsed = 0, hc_err = [], hc_io = demo_http None,
       hc_req = \<lparr>hr_headers = Map.empty, hr_query = None\<rparr>, hc_route = RHealth\<rparr>]
     ({}, demo_state) = Some ([UnableToExtractKey], {}, demo_state)"
  by (subst http_requests_refused) (simp_all add: demo_governor_def)

end
