(* ===== verification/Pulse_Tests.thy ===== *)
theory Pulse_Tests
  imports Pulse_Agent Pulse_Api
begin

text \<open>
  The unit tests of the sources, run on the model: those of src/pulse-agent/src/buffer.rs, of
  src/pulse-core/src/auth.rs and of src/pulse-server/src/api.rs. Each test is a Boolean that holds when
  none of its assertions fails and nothing in it panics. The clock, the random bytes, the header value
  and the indexing of a JSON array, which the tests take from libraries, are arguments.
\<close>

subsection \<open>The holdback buffer\<close>

definition make_msg :: "i64 \<Rightarrow> telemetry_message" where
  "make_msg i = Some (PHeartbeat \<lparr>hb_node_id = lit ''test'', hb_timestamp_ms = i\<rparr>)"

definition evicts_oldest_when_full :: bool where
  "evicts_oldest_when_full \<longleftrightarrow>
     (let buf = telemetry_buffer_new 3;
          buf = buffer_push (make_msg 4) (buffer_push (make_msg 3) (buffer_push (make_msg 2) (buffer_push (make_msg 1) buf)));
          (drained, _) = buffer_drain buf
      in buffer_len buf = 3 \<and> length drained = 3 \<and>
         (case drained of Some (PHeartbeat hb) # _ \<Rightarrow> hb_timestamp_ms hb = 2 | _ \<Rightarrow> True))"

definition drain_empties_buffer :: bool where
  "drain_empties_buffer \<longleftrightarrow>
     (let buf = buffer_push (make_msg 2) (buffer_push (make_msg 1) (telemetry_buffer_new 10));
          (_, buf) = buffer_drain buf
      in buffer_is_empty buf)"

subsection \<open>Authentication\<close>

definition test_secret :: "u8 list" where
  "test_secret = utf8 (lit ''test-secret-key'')"

text \<open>\<open>clock\<close> is read by the test, \<open>clock'\<close> by \<open>verify_request\<close>.\<close>

definition sign_and_verify_roundtrip :: "'v auth_lib \<Rightarrow> u64 option \<Rightarrow> u64 option \<Rightarrow> rstr \<Rightarrow> bool" where
  "sign_and_verify_roundtrip L clock clock' nonce \<longleftrightarrow>
     (case clock of
        None \<Rightarrow> False
      | Some timestamp \<Rightarrow>
          (case sign_request L test_secret (lit ''node-01'') timestamp nonce of
             None \<Rightarrow> False
           | Some sig \<Rightarrow> verify_request L clock' test_secret (lit ''node-01'') timestamp nonce sig = Inr ()))"

fun is_expired :: "auth_error + unit \<Rightarrow> bool" where
  "is_expired (Inl (ExpiredTimestamp _ _)) = True"
| "is_expired _ = False"

definition reject_expired_timestamp :: "'v auth_lib \<Rightarrow> u64 option \<Rightarrow> rstr \<Rightarrow> bool" where
  "reject_expired_timestamp L clock nonce \<longleftrightarrow>
     (case sign_request L test_secret (lit ''node-01'') 1000000 nonce of
        None \<Rightarrow> False
      | Some sig \<Rightarrow> is_expired (verify_request L clock test_secret (lit ''node-01'') 1000000 nonce sig))"

definition reject_wrong_signature :: "'v auth_lib \<Rightarrow> u64 option \<Rightarrow> u64 option \<Rightarrow> rstr \<Rightarrow> bool" where
  "reject_wrong_signature L clock clock' nonce \<longleftrightarrow>
     (case clock of
        None \<Rightarrow> False
      | Some timestamp \<Rightarrow>
          verify_request L clock' test_secret (lit ''node-01'') timestamp nonce (lit ''deadbeef'') = Inl InvalidSignature)"

definition nonce_is_unique :: "rstr \<Rightarrow> rstr \<Rightarrow> bool" where
  "nonce_is_unique n1 n2 \<longleftrightarrow> n1 \<noteq> n2 \<and> str_len n1 = 32"

subsection \<open>The REST API\<close>

definition mock_secret :: rstr where
  "mock_secret = lit ''testsecret-64-character-hex-string-for-integrity-test-321''"

definition get_mock_state :: "'j app_state" where
  "get_mock_state = app_state_new database_new metrics_new [channel_new 100]"

definition insert_node :: "'j node_info \<Rightarrow> 'j app_state \<Rightarrow> 'j app_state" where
  "insert_node n st = st\<lparr>as_nodes := (as_nodes st)(nf_node_id n \<mapsto> n)\<rparr>"

text \<open>\<open>value["key"]\<close>\<close>

definition json_field :: "'j json_lib \<Rightarrow> 'j \<Rightarrow> rstr \<Rightarrow> 'j option" where
  "json_field J v key = Option.bind (jl_as_object J v) (\<lambda>obj. obj key)"

definition test_api_list_nodes ::
  "'j json_lib \<Rightarrow> ('j \<Rightarrow> nat \<Rightarrow> 'j option) \<Rightarrow> ('v \<Rightarrow> rstr option) \<Rightarrow> 'v \<Rightarrow> 'j \<Rightarrow> bool" where
  "test_api_list_nodes J index to_str bearer cpu \<longleftrightarrow>
     (let n = \<lparr>nf_node_id = lit ''node-test'', nf_hostname = lit ''node-test-host'', nf_last_seen_ms = 1000,
               nf_status = Online, nf_latest_stats = Some cpu\<rparr>;
          state = insert_node n get_mock_state;
          req = \<lparr>hr_headers = [lit ''authorization'' \<mapsto> bearer], hr_query = None\<rparr>
      in case with_claims to_str (Some mock_secret) req (\<lambda>st. Some (list_nodes J [lit ''node-test''] st)) state of
           Some (Inr body, _) \<Rightarrow>
             json_field J body (lit ''count'') = Some (jl_u64 J 1) \<and>
             Option.bind (Option.bind (json_field J body (lit ''nodes'')) (\<lambda>ns. index ns 0)) (\<lambda>x. json_field J x (lit ''node_id'')) =
               Some (jl_string J (lit ''node-test''))
         | _ \<Rightarrow> False)"

definition test_api_get_node_cache_hit ::
  "'j json_lib \<Rightarrow> unicode \<Rightarrow> db_outcome \<Rightarrow> ('v \<Rightarrow> rstr option) \<Rightarrow> 'v \<Rightarrow> 'j \<Rightarrow> bool" where
  "test_api_get_node_cache_hit J U outcome to_str bearer cpu \<longleftrightarrow>
     (let n = \<lparr>nf_node_id = lit ''node-test-2'', nf_hostname = lit ''node-test-host-2'', nf_last_seen_ms = 2000,
               nf_status = Online, nf_latest_stats = Some cpu\<rparr>;
          state = insert_node n get_mock_state;
          req = \<lparr>hr_headers = [lit ''authorization'' \<mapsto> bearer], hr_query = None\<rparr>
      in case with_claims to_str (Some mock_secret) req (\<lambda>st. Some (get_node_handler J U id outcome (lit ''node-test-2'') st)) state of
           Some (Inr body, _) \<Rightarrow>
             json_field J body (lit ''node_id'') = Some (jl_string J (lit ''node-test-2'')) \<and>
             json_field J body (lit ''hostname'') = Some (jl_string J (lit ''node-test-host-2''))
         | _ \<Rightarrow> False)"

subsection \<open>Lemmas\<close>

lemma buffer_tests: evicts_oldest_when_full drain_empties_buffer
  by (simp_all add: evicts_oldest_when_full_def drain_empties_buffer_def telemetry_buffer_new_def buffer_push_def
      buffer_drain_def buffer_len_def buffer_is_empty_def make_msg_def)

lemma roundtrip_test:
  assumes "auth_lib_ok L" "\<bar>sint now - sint ts\<bar> \<le> 60"
  shows "sign_and_verify_roundtrip L (Some ts) (Some now) nonce"
proof -
  obtain mac where "al_hmac L test_secret = Some mac" using auth_lib_okD(1) [OF assms(1)] by blast
  with fresh_within_skew [OF assms(2)] auth_lib_okD(2) [OF assms(1)] show ?thesis
    by (simp add: sign_and_verify_roundtrip_def sign_request_def verify_request_Inr_iff Let_def)
qed

lemma expired_test:
  assumes "auth_lib_ok L" "1000060 < sint now" "sint now < 2 ^ 62"
  shows "reject_expired_timestamp L (Some now) nonce"
proof -
  obtain mac where mac: "al_hmac L test_secret = Some mac" using auth_lib_okD(1) [OF assms(1)] by blast
  have "MAX_CLOCK_SKEW <s wrapping_abs (now - 1000000)" using drift_accepts_iff [of now 1000000] assms(2,3) by simp
  with mac show ?thesis by (simp add: reject_expired_timestamp_def sign_request_def verify_request_def Let_def)
qed

lemma wrong_signature_test:
  assumes "auth_lib_ok L" "\<bar>sint now - sint ts\<bar> \<le> 60" "al_hex_decode L (lit ''deadbeef'') = Some [0xde, 0xad, 0xbe, 0xef]"
    and "\<forall>k mac msg. al_hmac L k = Some mac \<longrightarrow> length (mac msg) = 32"
  shows "reject_wrong_signature L (Some ts) (Some now) nonce"
proof -
  obtain mac where mac: "al_hmac L test_secret = Some mac" using auth_lib_okD(1) [OF assms(1)] by blast
  have "length (mac msg) \<noteq> length [0xde, 0xad, 0xbe, 0xef :: u8]" for msg using assms(4) mac by simp
  then have "mac msg \<noteq> [0xde, 0xad, 0xbe, 0xef]" for msg by metis
  with mac assms(3) fresh_within_skew [OF assms(2)] show ?thesis by (simp add: reject_wrong_signature_def verify_request_def Let_def)
qed

lemma nonce_test:
  assumes "auth_lib_ok L" "\<forall>b. length (al_hex_encode L b) = 2 * length b" "length b1 = 16" "b1 \<noteq> b2"
  shows "nonce_is_unique (generate_nonce L (Some b1) ns1 th1 pid) (generate_nonce L (Some b2) ns2 th2 pid)"
proof -
  have "al_hex_encode L b1 \<noteq> al_hex_encode L b2" using auth_lib_okD(2) [OF assms(1)] assms(4) by (metis option.inject)
  moreover have "lower_hex_char c" if "c \<in> set (al_hex_encode L b1)" for c using assms(1) that by (simp add: auth_lib_ok_def)
  then have "list_all (\<lambda>c. c < 128) (al_hex_encode L b1)" by (fastforce simp: list_all_iff lower_hex_char_def)
  ultimately show ?thesis using assms(2,3) by (simp add: nonce_is_unique_def generate_nonce_def ascii_str_len)
qed

lemma mock_secret_text:
  "trim mock_secret = mock_secret" "strip_prefix (lit ''Bearer '') (lit ''Bearer '' @ mock_secret) = Some mock_secret"
proof -
  show "trim mock_secret = mock_secret" by (rule trim_no_ws) (simp add: mock_secret_def lit_def is_ws_def)
  show "strip_prefix (lit ''Bearer '') (lit ''Bearer '' @ mock_secret) = Some mock_secret" by (simp add: strip_prefix_Some_iff)
qed

lemma mock_claims:
  assumes "to_str bearer = Some (lit ''Bearer '' @ mock_secret)"
  shows "with_claims to_str (Some mock_secret) \<lparr>hr_headers = [lit ''authorization'' \<mapsto> bearer], hr_query = None\<rparr> handler st = handler st"
  using assms mock_secret_text
  by (simp add: validate_token_bytes with_claims_def claims_from_request_parts_def opt_filter_def Let_def)

lemma list_nodes_test:
  assumes "json_lib_ok J" "to_str bearer = Some (lit ''Bearer '' @ mock_secret)" "\<forall>x xs. index (jl_array J (x # xs)) 0 = Some x"
  shows "test_api_list_nodes J index to_str bearer cpu"
  using assms json_lib_okD(1) [OF assms(1)]
  by (simp add: test_api_list_nodes_def mock_claims list_nodes_def insert_node_def finish_request_def Let_def json_field_def
      node_json_def List.map_filter_simps) (simp add: lit_def)

lemma get_node_test:
  assumes "json_lib_ok J" "to_str bearer = Some (lit ''Bearer '' @ mock_secret)"
  shows "test_api_get_node_cache_hit J U outcome to_str bearer cpu"
proof -
  have "is_valid_node_id U (lit ''node-test-2'')"
    by (simp add: is_valid_node_id_def is_alphanumeric_def lit_def utf8_len_def)
  with assms json_lib_okD(1) [OF assms(1)] show ?thesis
    by (simp add: test_api_get_node_cache_hit_def mock_claims get_node_handler_eq insert_node_def finish_request_def Let_def json_field_def
        node_json_def) (simp add: lit_def)
qed

subsection \<open>Properties\<close>

text \<open>
  The model passes the unit tests of the sources. With a clock that moves at most a minute
  during a test and lies after January 12, 1970, two different readings of sixteen random bytes, HMAC
  results of 32 bytes and hexadecimal digits as the crates document them, and the header the API tests
  send, no assertion of the tests of the buffer, of the authentication and of the API fails.
\<close>

theorem unit_tests_pass:
  assumes "auth_lib_ok L" "\<forall>b. length (al_hex_encode L b) = 2 * length b"
    and "al_hex_decode L (lit ''deadbeef'') = Some [0xde, 0xad, 0xbe, 0xef]"
    and "\<forall>k mac msg. al_hmac L k = Some mac \<longrightarrow> length (mac msg) = 32"
    and "1000060 < sint now" "sint now < 2 ^ 62" "\<bar>sint now - sint ts\<bar> \<le> 60" "length b1 = 16" "b1 \<noteq> b2"
    and "json_lib_ok J" "\<forall>x xs. index (jl_array J (x # xs)) 0 = Some x"
    and "to_str bearer = Some (lit ''Bearer '' @ mock_secret)"
  shows "evicts_oldest_when_full \<and> drain_empties_buffer \<and>
    sign_and_verify_roundtrip L (Some ts) (Some now) nonce \<and> reject_expired_timestamp L (Some now) nonce \<and>
    reject_wrong_signature L (Some ts) (Some now) nonce \<and>
    nonce_is_unique (generate_nonce L (Some b1) ns1 th1 pid) (generate_nonce L (Some b2) ns2 th2 pid) \<and>
    test_api_list_nodes J index to_str bearer cpu \<and> test_api_get_node_cache_hit J U outcome to_str bearer cpu"
  using assms by (intro conjI buffer_tests roundtrip_test expired_test wrong_signature_test nonce_test list_nodes_test get_node_test)

definition test_lib :: "rstr auth_lib" where
  "test_lib = demo_lib\<lparr>al_hmac := \<lambda>k. Some (\<lambda>m. replicate 32 0)\<rparr>"

fun demo_index :: "demo_json \<Rightarrow> nat \<Rightarrow> demo_json option" where
  "demo_index (DArray xs) i = (if i < length xs then Some (xs ! i) else None)"
| "demo_index _ _ = None"

lemma demo_hex_length: "length (demo_hex_encode b) = 2 * length b"
  by (induction b) simp_all

lemma test_lib_laws:
  "auth_lib_ok test_lib" "\<forall>b. length (al_hex_encode test_lib b) = 2 * length b"
  "al_hex_decode test_lib (lit ''deadbeef'') = Some [0xde, 0xad, 0xbe, 0xef]"
  "\<forall>k mac msg. al_hmac test_lib k = Some mac \<longrightarrow> length (mac msg) = 32"
proof -
  show "auth_lib_ok test_lib" using demo_lib_ok by (simp add: test_lib_def auth_lib_ok_def)
  show "al_hex_decode test_lib (lit ''deadbeef'') = Some [0xde, 0xad, 0xbe, 0xef]"
    by (simp add: test_lib_def demo_lib_def lit_def hex_val_def)
qed (auto simp: test_lib_def demo_lib_def demo_hex_length)

theorem unit_tests_pass_witness:
  "evicts_oldest_when_full \<and> drain_empties_buffer \<and>
    sign_and_verify_roundtrip test_lib (Some 1700000000) (Some 1700000001) (lit ''ab'') \<and>
    reject_expired_timestamp test_lib (Some 1700000001) (lit ''ab'') \<and>
    reject_wrong_signature test_lib (Some 1700000000) (Some 1700000001) (lit ''ab'') \<and>
    nonce_is_unique (generate_nonce test_lib (Some (replicate 16 0)) 0 [] 0) (generate_nonce test_lib (Some (replicate 16 1)) 0 [] 0) \<and>
    test_api_list_nodes demo_json_lib demo_index Some (lit ''Bearer '' @ mock_secret) (DInt 45) \<and>
    test_api_get_node_cache_hit demo_json_lib \<lparr>un_alphanumeric = (\<lambda>_. False), un_lowercase = id\<rparr> Executed Some
      (lit ''Bearer '' @ mock_secret) (DInt 45)"
  by (rule unit_tests_pass [OF test_lib_laws]) (simp_all add: demo_json_lib_ok)

end
