(* ===== verification/Pulse_Integration.thy ===== *)
theory Pulse_Integration
  imports Pulse_Tests Pulse_Lifecycle "HOL-Library.Monad_Syntax"
begin

text \<open>
  The tests of src/pulse-server/src/integrity_tests.rs, run on the model. They need a database; without
  one they are skipped. The DELETE statements are those of the tests, with the cascade of the schema
  (migrations/001_init.sql). A test is the Boolean that nothing in it panics and no assertion fails.
  The transport between client and server, and the encoding of the JSON answer, are left out: the
  headers, the messages and the answer arrive as they were sent.
\<close>

subsection \<open>The statements of the tests\<close>

definition delete_snapshots_of :: "rstr \<Rightarrow> 'j database \<Rightarrow> unit \<times> 'j database" where
  "delete_snapshots_of node_id db = ((), db\<lparr>db_snapshots := filter (\<lambda>r. sr_node_id r \<noteq> node_id) (db_snapshots db)\<rparr>)"

definition delete_probes_of :: "rstr \<Rightarrow> 'j database \<Rightarrow> unit \<times> 'j database" where
  "delete_probes_of node_id db = ((), db\<lparr>db_probes := filter (\<lambda>r. pw_node_id r \<noteq> node_id) (db_probes db)\<rparr>)"

text \<open>\<open>ON DELETE CASCADE\<close> takes the rows of the child tables along.\<close>

definition delete_node :: "rstr \<Rightarrow> 'j database \<Rightarrow> unit \<times> 'j database" where
  "delete_node node_id db =
     ((), (snd (delete_probes_of node_id (snd (delete_snapshots_of node_id db))))\<lparr>db_nodes := (db_nodes db)(node_id := None)\<rparr>)"

text \<open>\<open>unwrap\<close>: a panic is \<open>None\<close>.\<close>

definition unwrap_db :: "('e + 'r) \<times> 's \<Rightarrow> ('r \<times> 's) option" where
  "unwrap_db x = (case x of (Inl e, s) \<Rightarrow> None | (Inr r, s) \<Rightarrow> Some (r, s))"

definition unwrap_res :: "'e + 'r \<Rightarrow> 'r option" where
  "unwrap_res x = (case x of Inl e \<Rightarrow> None | Inr r \<Rightarrow> Some r)"

subsection \<open>The tests of the repository\<close>

definition test_node_upsert_and_retrieve ::
  "'j database option \<Rightarrow> rstr + unit \<Rightarrow> ('j snapshot_row list \<Rightarrow> 'j snapshot_row list) \<Rightarrow> rstr list \<Rightarrow> db_outcome \<Rightarrow> i64 \<Rightarrow> bool" where
  "test_node_upsert_and_retrieve pool migrations scan ids outcome now_ms \<longleftrightarrow>
     (case pool of
        None \<Rightarrow> True
      | Some db \<Rightarrow>
          do {
            unwrap_res (migrate migrations);
            (_, db) \<leftarrow> unwrap_db (execute outcome (delete_snapshots_of (lit ''test-node-1'')) db);
            (_, db) \<leftarrow> unwrap_db (execute outcome (delete_node (lit ''test-node-1'')) db);
            (_, s) \<leftarrow> unwrap_db (upsert_node outcome now_ms (lit ''test-node-1'') (lit ''test-host'') (lit ''online'') (db, metrics_new));
            (node, s) \<leftarrow> unwrap_db (get_node scan outcome (lit ''test-node-1'') s);
            node \<leftarrow> node;
            (nodes, s) \<leftarrow> unwrap_db (get_all_nodes scan ids outcome s);
            Some (nf_node_id node = lit ''test-node-1'' \<and> nf_hostname node = lit ''test-host'' \<and> nf_status node = Online \<and>
                  list_ex (\<lambda>n. nf_node_id n = lit ''test-node-1'') nodes)
          } = Some True)"

definition test_snapshot_insert_and_cleanup ::
  "'j json_lib \<Rightarrow> 'j database option \<Rightarrow> rstr + unit \<Rightarrow> ('j snapshot_row list \<Rightarrow> 'j snapshot_row list) \<Rightarrow> db_outcome \<Rightarrow> i64 \<Rightarrow> bool" where
  \<open>test_snapshot_insert_and_cleanup J pool migrations scan outcome now_ms \<longleftrightarrow>
     (case pool of
        None \<Rightarrow> True
      | Some db \<Rightarrow>
          do {
            unwrap_res (migrate migrations);
            (_, db) \<leftarrow> unwrap_db (execute outcome (delete_snapshots_of (lit ''test-node-2'')) db);
            (_, db) \<leftarrow> unwrap_db (execute outcome (delete_node (lit ''test-node-2'')) db);
            (_, s) \<leftarrow> unwrap_db (upsert_node outcome now_ms (lit ''test-node-2'') (lit ''test-host'') (lit ''online'') (db, metrics_new));
            (_, s) \<leftarrow> unwrap_db (insert_snapshot J outcome (lit ''test-node-2'') 1721634839000 (lit ''{"cpu_percent": 12.5}'') s);
            (snapshots, s) \<leftarrow> unwrap_db (get_snapshots scan outcome (lit ''test-node-2'') 1721634830000 1721634845000 10 s);
            (deleted, s) \<leftarrow> unwrap_db (cleanup_old_snapshots outcome outcome (now_ms + 10000) s);
            Some (length snapshots = 1 \<and> sd_node_id (snapshots ! 0) = lit ''test-node-2'' \<and>
                  sd_timestamp (snapshots ! 0) = 1721634839000 \<and> 1 \<le> deleted)
          } = Some True)\<close>

subsection \<open>The end-to-end test\<close>

definition integrity_node :: rstr where
  "integrity_node = lit ''node-integrity-test''"

definition integrity_stats :: "i64 \<Rightarrow> node_stats" where
  "integrity_stats now_ms =
     \<lparr>ns_node_id = integrity_node, ns_timestamp_ms = now_ms, ns_cpu_percent = f64_of_rat (4242 / 100), ns_cpu_per_core = [],
      ns_load_avg_1 = FNum False 0, ns_load_avg_5 = FNum False 0, ns_load_avg_15 = FNum False 0, ns_mem_total = 1000,
      ns_mem_used = 500, ns_mem_free = 500, ns_mem_available = 500, ns_mem_buffers = 0, ns_mem_cached = 0,
      ns_swap_total = 0, ns_swap_used = 0, ns_disk_read_bytes_sec = 0, ns_disk_write_bytes_sec = 0,
      ns_net_interfaces = [], ns_tcp_connections = 5, ns_udp_connections = 2, ns_uptime_seconds = 1234, ns_temperatures = []\<rparr>"

text \<open>The worker of the test; a failed statement panics and ends it. The outcomes bound its turns.\<close>

fun integrity_worker :: "'j json_lib \<Rightarrow> (db_outcome \<times> db_outcome \<times> i64) list \<Rightarrow> 'j app_state \<Rightarrow> 'j app_state" where
  "integrity_worker J [] st = st"
| "integrity_worker J ((o1, o2, now_ms) # ios) st =
     (case worker_recv 0 st of
        None \<Rightarrow> st
      | Some (IStats node_id timestamp_ms stats_str stats_json, st) \<Rightarrow>
          (case with_db (upsert_node o1 now_ms node_id node_id (lit ''online'')) st of
             (Inl e, st) \<Rightarrow> st
           | (Inr _, st) \<Rightarrow>
               (case with_db (insert_snapshot J o2 node_id timestamp_ms stats_str) st of
                  (Inl e, st) \<Rightarrow> st
                | (Inr _, st) \<Rightarrow> integrity_worker J ios st))
      | Some (IProbe _ _ _ _ _ _, st) \<Rightarrow> integrity_worker J ios st)"

text \<open>The clocks of the client and of the interceptor, the nonce, the outcomes of the database.\<close>

record integrity_io =
  it_client_secs :: u64
  it_new_clock :: "u64 option"
  it_server_secs :: u64
  it_nonce_clock :: "u64 option"
  it_nonce :: rstr
  it_now_ms :: i64
  it_deletes :: "db_outcome \<times> db_outcome \<times> db_outcome"
  it_worker :: "(db_outcome \<times> db_outcome \<times> i64) list"

definition integrity_start :: "integrity_io \<Rightarrow> 'j database \<Rightarrow> 'j app_state" where
  "integrity_start io db =
     (let (o1, o2, o3) = it_deletes io;
          db = snd (execute o1 (delete_snapshots_of integrity_node) db);
          db = snd (execute o2 (delete_probes_of integrity_node) db);
          db = snd (execute o3 (delete_node integrity_node) db)
      in app_state_new db metrics_new [channel_new 100])"

definition test_end_to_end_integrity ::
  "'v auth_lib \<Rightarrow> 'j json_lib \<Rightarrow> (rstr \<Rightarrow> u64) \<Rightarrow> ('j \<Rightarrow> nat \<Rightarrow> 'j option) \<Rightarrow> ('h \<Rightarrow> rstr option) \<Rightarrow> 'h \<Rightarrow>
   'j database option \<Rightarrow> integrity_io \<Rightarrow> bool" where
  "test_end_to_end_integrity L J hash index to_str bearer pool io \<longleftrightarrow>
     (case pool of
        None \<Rightarrow> True
      | Some db \<Rightarrow>
          do {
            let secret = utf8 mock_secret;
            injected \<leftarrow> inject_auth_headers L (Some (it_client_secs io)) (it_nonce io) secret integrity_node Map.empty;
            md \<leftarrow> unwrap_res injected;
            md \<leftarrow> unwrap_res (fst (interceptor_call L (Some (it_server_secs io)) (it_nonce_clock io) md
                     (auth_interceptor_new (it_new_clock io) secret)));
            response \<leftarrow> stream_telemetry L J hash md
              [\<lparr>se_msg = Some (Some (PStats (integrity_stats (it_now_ms io)))), se_now_ms = it_now_ms io, se_reads = 0, se_client_gone = False\<rparr>]
              (integrity_start io db);
            t \<leftarrow> unwrap_res response;
            let st = integrity_worker J (it_worker io) (sk_state t);
            (res, st) \<leftarrow> with_claims to_str (Some mock_secret) \<lparr>hr_headers = [lit ''authorization'' \<mapsto> bearer], hr_query = None\<rparr>
              (\<lambda>st. Some (list_nodes J [integrity_node] st)) st;
            body \<leftarrow> unwrap_res res;
            count \<leftarrow> json_field J body (lit ''count'');
            nodes \<leftarrow> json_field J body (lit ''nodes'');
            first_node \<leftarrow> index nodes 0;
            latest \<leftarrow> json_field J first_node (lit ''latest_stats'');
            cpu \<leftarrow> json_field J latest (lit ''cpu_percent'');
            Some (jl_as_u64 J count = Some 1 \<and>
                  json_field J first_node (lit ''node_id'') = Some (jl_string J integrity_node) \<and>
                  json_field J first_node (lit ''status'') = Some (jl_string J (lit ''online'')) \<and>
                  jl_as_f64 J cpu = Some (f64_of_rat (4242 / 100)))
          } = Some True)"

subsection \<open>Lemmas\<close>

lemma unwrap_simps [simp]:
  "unwrap_db (Inr r, s) = Some (r, s)" "unwrap_db (Inl e, s) = None" "unwrap_res (Inr r) = Some r" "unwrap_res (Inl e) = None"
  by (simp_all add: unwrap_db_def unwrap_res_def)

lemma fresh_node_row:
  assumes "db_nodes db k = Some r" "scan_ok scan" "\<forall>q \<in> set (db_snapshots db). sr_node_id q \<noteq> k"
  shows "joined_rows scan db k = [\<lparr>nw_id = k, nw_hostname = nr_hostname r, nw_last_seen = nr_last_seen r,
      nw_status = nr_status r, nw_stats_json = None\<rparr>]"
proof -
  have "filter (\<lambda>q. sr_node_id q = k) (scan (db_snapshots db)) = []"
    using assms(3) scan_set [OF assms(2)] by (auto simp: filter_empty_conv)
  then show ?thesis by (simp add: joined_rows_def assms(1) order_by_timestamp_desc_def)
qed

lemma node_upsert_passes:
  assumes "scan_ok scan" "lit ''test-node-1'' \<in> set ids"
  shows "test_node_upsert_and_retrieve (Some db) (Inr ()) scan ids Executed now_ms"
proof -
  let ?k = "lit ''test-node-1''"
  let ?r = "\<lparr>nr_hostname = lit ''test-host'', nr_last_seen = now_ms, nr_status = lit ''online''\<rparr>"
  let ?db = "(snd (delete_node ?k (snd (delete_snapshots_of ?k db))))"
  let ?db' = "?db\<lparr>db_nodes := (db_nodes ?db)(?k \<mapsto> ?r)\<rparr>"
  have row: "joined_rows scan ?db' ?k = [\<lparr>nw_id = ?k, nw_hostname = lit ''test-host'', nw_last_seen = now_ms,
      nw_status = lit ''online'', nw_stats_json = None\<rparr>]"
    by (subst fresh_node_row [OF _ assms(1)]) (auto simp: delete_node_def delete_snapshots_of_def delete_probes_of_def)
  have "?k \<in> nw_id ` set (all_rows scan ?db' ids)"
    by (rule all_rows_member [OF assms(2)]) simp
  then have "list_ex (\<lambda>n. nf_node_id n = ?k) (map node_info_of_row (all_rows scan ?db' ids))"
    by (auto simp: list_ex_iff node_info_of_row_def Let_def)
  with row show ?thesis
    by (simp add: test_node_upsert_and_retrieve_def migrate_def execute_def upsert_node_def get_node_def select_node_def get_all_nodes_def query_Executed
        node_info_of_row_def split_def)
qed

text \<open>A query that only the row inserted last satisfies.\<close>

lemma scan_finds_last:
  assumes "scan_ok scan" "P r" "\<forall>q \<in> set rs. \<not> P q"
  shows "filter P (scan (rs @ [r])) = [r]"
proof -
  have "mset (filter P (scan (rs @ [r]))) = filter_mset P (mset (rs @ [r]))" using assms(1) by (simp only: scan_ok_def mset_filter)
  also have "\<dots> = {#r#}" using assms(2,3) by (simp add: mset_filter [symmetric])
  finally show ?thesis by (simp only: mset_single_iff)
qed

lemma snapshot_cleanup_passes:
  assumes "scan_ok scan" "1721634839000 < sint (now_ms + 10000)"
  shows "test_snapshot_insert_and_cleanup J (Some db) (Inr ()) scan Executed now_ms"
proof -
  let ?k = "lit ''test-node-2''"
  define db1 where "db1 = snd (delete_node ?k (snd (delete_snapshots_of ?k db)))"
  define row where
    \<open>row = \<lparr>sr_node_id = ?k, sr_timestamp = 1721634839000, sr_stats_json = unwrap_or (jl_from_str J (lit ''{"cpu_percent": 12.5}'')) (jl_null J)\<rparr>\<close>
  have none: "\<forall>q \<in> set (db_snapshots db1). sr_node_id q \<noteq> ?k"
    by (auto simp: db1_def delete_node_def delete_snapshots_of_def delete_probes_of_def)
  have found: "filter (\<lambda>q. sr_node_id q = ?k \<and> 1721634830000 \<le>s sr_timestamp q \<and> sr_timestamp q \<le>s 1721634845000)
      (scan (db_snapshots db1 @ [row])) = [row]"
    using none by (intro scan_finds_last [OF assms(1)]) (simp_all add: row_def word_sle_eq)
  have old: "row \<in> set (filter (\<lambda>q. sr_timestamp q <s now_ms + 10000) (db_snapshots db1 @ [row]))"
    using assms(2) by (simp add: row_def word_sless_alt)
  then have "1 \<le> length (filter (\<lambda>q. sr_timestamp q <s now_ms + 10000) (db_snapshots db1 @ [row]))"
    using length_pos_if_in_set by (metis One_nat_def Suc_leI)
  moreover have "execute Executed (delete_node ?k) (snd (delete_snapshots_of ?k db)) = (Inr (), db1)"
    by (simp add: db1_def execute_def delete_node_def)
  ultimately show ?thesis
    using found
    by (simp add: test_snapshot_insert_and_cleanup_def migrate_def execute_def [of Executed "delete_snapshots_of ?k"] split_def
        upsert_node_def insert_snapshot_def get_snapshots_def select_snapshots_def query_Executed row_def [symmetric] order_by_timestamp_desc_def
        cleanup_old_snapshots_def delete_snapshots_def delete_probes_def execute_def [of Executed "delete_snapshots _"]
        execute_def [of Executed "delete_probes _"] Let_def)
      (simp add: row_def)
qed

lemma integrity_worker_nodes: "as_nodes (integrity_worker J ios st) = as_nodes st"
proof (induction J ios st rule: integrity_worker.induct)
  case (2 J o1 o2 now_ms ios st)
  then show ?case
    by (auto simp: worker_recv_def with_db_eq split: option.split ingestion_item.split prod.split sum.split if_splits)
qed simp

lemma integrity_stats_sent:
  assumes "json_lib_ok J"
  shows "\<exists>t. stream_loop J hash integrity_node
      [\<lparr>se_msg = Some (Some (PStats (integrity_stats now_ms))), se_now_ms = now_ms, se_reads = 0, se_client_gone = False\<rparr>]
      \<lparr>sk_state = integrity_start io db, sk_cmds = [], sk_ack = None\<rparr> = Some t \<and>
    as_nodes (sk_state t) = [integrity_node \<mapsto> \<lparr>nf_node_id = integrity_node, nf_hostname = integrity_node, nf_last_seen_ms = now_ms,
      nf_status = Online, nf_latest_stats = Some (jl_object J (stats_fields J (stats_serializable_from (integrity_stats now_ms))))\<rparr>]"
proof -
  have "as_worker_txs (integrity_start io db) = [channel_new 100]" "as_nodes (integrity_start io db) = Map.empty"
    by (simp_all add: integrity_start_def app_state_new_def Let_def split: prod.split)
  then show ?thesis
    by (simp add: handle_event_def handle_stats_def integrity_stats_def json_lib_okD(5) [OF assms] Let_def send_to_worker_cases try_send_def
        channel_new_def broadcast_send_def send_ack_def)
qed

lemma integrity_cpu_finite: "is_finite (f64_of_rat (4242 / 100))"
  by code_simp

lemma end_to_end_passes:
  assumes "auth_lib_ok L" "json_lib_ok J" "\<bar>sint (it_server_secs io) - sint (it_client_secs io)\<bar> \<le> 60"
    and "\<forall>c \<in> set (it_nonce io). visible_ascii c" "\<forall>x xs. index (jl_array J (x # xs)) 0 = Some x"
    and "to_str bearer = Some (lit ''Bearer '' @ mock_secret)"
  shows "test_end_to_end_integrity L J hash index to_str bearer (Some db) io"
proof -
  let ?secret = "utf8 mock_secret"
  have node: "\<forall>c \<in> set integrity_node. visible_ascii c" by (simp add: integrity_node_def lit_def visible_ascii_def)
  obtain md where md: "inject_auth_headers L (Some (it_client_secs io)) (it_nonce io) ?secret integrity_node Map.empty = Some (Inr md)"
    "stream_open L md = Inr integrity_node" by (rule injected_opens [OF assms(1) node assms(4)])
  have "check_headers L (Some (it_server_secs io)) ?secret md = Inr (it_nonce io)"
    by (rule check_headers_injected [OF assms(1) md(1) node assms(4) fresh_within_skew [OF assms(3)]])
  note acc = fresh_call_accepts [OF this]
  let ?n = "\<lparr>nf_node_id = integrity_node, nf_hostname = integrity_node, nf_last_seen_ms = it_now_ms io, nf_status = Online,
      nf_latest_stats = Some (jl_object J (stats_fields J (stats_serializable_from (integrity_stats (it_now_ms io)))))\<rparr>"
  obtain t where t: "stream_loop J hash integrity_node
      [\<lparr>se_msg = Some (Some (PStats (integrity_stats (it_now_ms io)))), se_now_ms = it_now_ms io, se_reads = 0, se_client_gone = False\<rparr>]
      \<lparr>sk_state = integrity_start io db, sk_cmds = [], sk_ack = None\<rparr> = Some t" "as_nodes (sk_state t) = [integrity_node \<mapsto> ?n]"
    using integrity_stats_sent [OF assms(2)] by metis
  let ?st = "integrity_worker J (it_worker io) (sk_state t)"
  have list: "fst (list_nodes J [integrity_node] ?st) =
      Inr (jl_object J [(lit ''nodes'', jl_array J [node_json J ?n]), (lit ''count'', jl_u64 J 1)])"
    using t(2) by (simp add: list_nodes_def integrity_worker_nodes finish_request_def Let_def List.map_filter_simps)
  have fields: "json_field J (jl_object J (stats_fields J (stats_serializable_from (integrity_stats (it_now_ms io))))) (lit ''cpu_percent'') =
      Some (jl_f64 J (f64_of_rat (4242 / 100)))"
    using json_lib_okD(1) [OF assms(2) stats_fields_distinct, of J "stats_serializable_from (integrity_stats (it_now_ms io))"]
    by (simp add: json_field_def stats_fields_def [of J] stats_serializable_from_def integrity_stats_def)
  have nodes: "json_field J (node_json J ?n) (lit ''node_id'') = Some (jl_string J integrity_node)"
    "json_field J (node_json J ?n) (lit ''status'') = Some (jl_string J (lit ''online''))"
    "json_field J (node_json J ?n) (lit ''latest_stats'') = Some (jl_object J (stats_fields J (stats_serializable_from (integrity_stats (it_now_ms io)))))"
    using json_lib_okD(1) [OF assms(2)] by (simp_all add: json_field_def node_json_def display_node_status_def) (simp_all add: lit_def)
  have body: "json_field J (jl_object J [(lit ''nodes'', jl_array J [node_json J ?n]), (lit ''count'', jl_u64 J 1)]) (lit ''count'') = Some (jl_u64 J 1)"
    "json_field J (jl_object J [(lit ''nodes'', jl_array J [node_json J ?n]), (lit ''count'', jl_u64 J 1)]) (lit ''nodes'') =
      Some (jl_array J [node_json J ?n])"
    using json_lib_okD(1) [OF assms(2)] by (simp_all add: json_field_def) (simp_all add: lit_def)
  obtain st' where "list_nodes J [integrity_node] ?st =
      (Inr (jl_object J [(lit ''nodes'', jl_array J [node_json J ?n]), (lit ''count'', jl_u64 J 1)]), st')"
    using list by (metis prod.collapse)
  then show ?thesis
    using md acc t(1) nodes body fields assms(5,6) json_lib_okD(2,3) [OF assms(2)] integrity_cpu_finite
    by (simp add: test_end_to_end_integrity_def stream_telemetry_def mock_claims del: stream_loop.simps)
qed

subsection \<open>Properties\<close>

text \<open>
  C37: the model passes the integration tests of the server. With or without a database, whatever it
  holds at the start, with statements that are executed and a clock after July 2024, the tests of the
  repository find what they wrote; and the end-to-end test, whatever happens to the statements of its
  worker, gets the statistics that a client with the shared secret has streamed back from the REST
  API, for clocks at most a minute apart and a nonce of visible characters.
\<close>

theorem integration_tests_pass:
  assumes "auth_lib_ok L" "json_lib_ok J" "scan_ok scan" "lit ''test-node-1'' \<in> set ids" "1721634839000 < sint (now_ms + 10000)"
    and "\<bar>sint (it_server_secs io) - sint (it_client_secs io)\<bar> \<le> 60" "\<forall>c \<in> set (it_nonce io). visible_ascii c"
    and "\<forall>x xs. index (jl_array J (x # xs)) 0 = Some x" "to_str bearer = Some (lit ''Bearer '' @ mock_secret)"
  shows "test_node_upsert_and_retrieve pool (Inr ()) scan ids Executed now_ms \<and>
    test_snapshot_insert_and_cleanup J pool (Inr ()) scan Executed now_ms \<and>
    test_end_to_end_integrity L J hash index to_str bearer pool io"
proof (cases pool)
  case None
  then show ?thesis
    by (simp add: test_node_upsert_and_retrieve_def test_snapshot_insert_and_cleanup_def test_end_to_end_integrity_def)
next
  case (Some db)
  show ?thesis unfolding Some
    by (intro conjI node_upsert_passes snapshot_cleanup_passes end_to_end_passes assms)
qed

definition demo_integrity :: integrity_io where
  "demo_integrity = \<lparr>it_client_secs = 1700000000, it_new_clock = None, it_server_secs = 1700000001, it_nonce_clock = None,
     it_nonce = lit ''ab'', it_now_ms = 1700000000000, it_deletes = (Executed, NotExecuted, Executed), it_worker = [(Executed, Executed, 7)]\<rparr>"

theorem integration_tests_pass_witness:
  "test_node_upsert_and_retrieve (Some demo_db) (Inr ()) id [[110], lit ''test-node-1''] Executed 1750000000000 \<and>
    test_snapshot_insert_and_cleanup demo_json_lib (Some demo_db) (Inr ()) id Executed 1750000000000 \<and>
    test_end_to_end_integrity demo_lib demo_json_lib (\<lambda>_. 7) demo_index Some (lit ''Bearer '' @ mock_secret) (Some demo_db) demo_integrity"
  by (rule integration_tests_pass [OF demo_lib_ok demo_json_lib_ok demo_start(1)])
    (simp_all add: demo_integrity_def, simp add: lit_def visible_ascii_def)

end
