(* ===== verification/Spec2Isabelle.thy ===== *)
theory Spec2Isabelle
  imports Pulse_Values Pulse_Bench Pulse_Agent_Main Pulse_Http Pulse_Integration
begin

text \<open>
  Hakuraku (the crates \<^verbatim>\<open>pulse-core\<close>, \<^verbatim>\<open>pulse-agent\<close> and \<^verbatim>\<open>pulse-server\<close>) is a telemetry
  system.  An agent on every machine samples \<^verbatim>\<open>/proc\<close> and \<^verbatim>\<open>/sys\<close>, keeps the samples in a bounded
  holdback buffer, and streams them over gRPC, with signed request headers, to one server.  The server
  keeps a registry of nodes, hands every message to one of four ingestion workers, stores it in
  PostgreSQL and VictoriaMetrics, marks silent nodes offline, and serves a REST API and a WebSocket feed.
  This development models the three crates from their sources and proves what makes them correct.

  \<^bold>\<open>The parts and the theories that model them.\<close>
  \<^item> \<^verbatim>\<open>Pulse_Prelude\<close>: the Rust values the code uses: strings as lists of scalar values with their UTF-8
    encoding, splitting, trimming and integer parsing, wrapping, saturating and checked integer
    operations, \<^verbatim>\<open>Duration\<close>; lemmas on lists and words shared by the components.  \<^verbatim>\<open>Pulse_F64\<close>: binary64
    values as exact rationals, infinities and not-a-number, with round-to-nearest-even.
  \<^item> \<^verbatim>\<open>Pulse_Proto\<close> (\<^verbatim>\<open>telemetry.proto\<close>, \<^verbatim>\<open>error.rs\<close>): the messages and the error enums.
  \<^item> \<^verbatim>\<open>Pulse_Auth\<close> (\<^verbatim>\<open>pulse-core/src/auth.rs\<close>): \<^term>\<open>sign_request\<close>, \<^term>\<open>verify_request\<close>, the nonce tracker,
    the interceptor and \<^term>\<open>inject_auth_headers\<close>.
  \<^item> \<^verbatim>\<open>Pulse_Buffer\<close> (\<^verbatim>\<open>buffer.rs\<close>), \<^verbatim>\<open>Pulse_Backoff\<close> (\<^verbatim>\<open>ExponentialBackoff\<close> and \<^verbatim>\<open>rand_simple\<close> of the agent's
    \<^verbatim>\<open>main.rs\<close>), \<^verbatim>\<open>Pulse_Collector\<close> (\<^verbatim>\<open>collector.rs\<close>, every reader and \<^term>\<open>collect\<close>), \<^verbatim>\<open>Pulse_Prober\<close>
    (\<^verbatim>\<open>prober.rs\<close>) and \<^verbatim>\<open>Pulse_Agent\<close> (the agent's \<^verbatim>\<open>main.rs\<close>: configuration, the turns of the collection,
    forwarding and heartbeat tasks, the forwarders of failed sessions among them, the commands of the server
    and \<^term>\<open>run_session\<close>)
    and \<^verbatim>\<open>Pulse_Agent_Main\<close> (its \<^verbatim>\<open>main\<close> and \<^verbatim>\<open>run_agent_loop\<close>: sessions, backoff and Ctrl-C).
  \<^item> \<^verbatim>\<open>Pulse_Metrics\<close> (\<^verbatim>\<open>metrics.rs\<close>), \<^verbatim>\<open>Pulse_Node\<close> (the data of \<^verbatim>\<open>state.rs\<close> and the serialised statistics of
    \<^verbatim>\<open>grpc.rs\<close>), \<^verbatim>\<open>Pulse_Db\<close> (\<^verbatim>\<open>db.rs\<close>, its statements clause by clause,
    and the tables of \<^verbatim>\<open>001_init.sql\<close>), \<^verbatim>\<open>Pulse_State\<close> (\<^verbatim>\<open>AppState\<close>, the
    worker channels and \<^term>\<open>send_to_worker\<close>), \<^verbatim>\<open>Pulse_Grpc\<close> (\<^verbatim>\<open>stream_telemetry\<close>), \<^verbatim>\<open>Pulse_Worker\<close> (the
    ingestion workers and the VictoriaMetrics export of the server's \<^verbatim>\<open>main.rs\<close>), \<^verbatim>\<open>Pulse_Liveness\<close>
    (startup load, cleanup and liveness tasks), \<^verbatim>\<open>Pulse_Api\<close> (\<^verbatim>\<open>api.rs\<close>), \<^verbatim>\<open>Pulse_Ws\<close> (\<^verbatim>\<open>ws.rs\<close>) and
    \<^verbatim>\<open>Pulse_Server\<close> (configuration, CORS, interceptor and routes of \<^verbatim>\<open>main.rs\<close>, and the running server) and
    \<^verbatim>\<open>Pulse_Lifecycle\<close> (\<^verbatim>\<open>main\<close> itself: the start with its errors, Ctrl-C, the end of the servers, the draining),
    and \<^verbatim>\<open>Pulse_Http\<close> (the layers around the routes: timeout, rate limit and origins).
  \<^item> \<^verbatim>\<open>Pulse_Values\<close>: the typing of the JSON values the server passes around.  \<^verbatim>\<open>Pulse_Bench\<close> (\<^verbatim>\<open>bin/bench.rs\<close>):
    the benchmark of the repository.  \<^verbatim>\<open>Pulse_Tests\<close>: the unit tests of \<^verbatim>\<open>buffer.rs\<close>, \<^verbatim>\<open>auth.rs\<close> and \<^verbatim>\<open>api.rs\<close>.
    \<^verbatim>\<open>Pulse_Integration\<close>: the tests of \<^verbatim>\<open>integrity_tests.rs\<close>.
  \<^item> This theory composes the agent with the server.

  \<^bold>\<open>State and steps.\<close>  Every struct is a record and every function or task turn takes the state and
  returns it changed.  A panic or a call that does not return is the value \<^term>\<open>None\<close>, an error is \<^term>\<open>Inl\<close>.
  What runs concurrently is divided at the points where the tasks meet: one stream event
  (\<^term>\<open>handle_event\<close>), the acknowledgement of a heartbeat, which waits for one of the 32 places of the
  command channel (\<^term>\<open>send_ack\<close>), a command that the agent reads, one item of a worker (\<^term>\<open>worker_step\<close>), the end of one push, one scan of the
  registry, one write of an offline node, one request (\<^term>\<open>serve_route\<close>; a request for a node that waits for
  the database in two steps: \<^term>\<open>get_node_lookup\<close> with the statement, then \<^term>\<open>get_node_reply\<close>), one dashboard connecting
  or leaving.  A scan of the registry is one step, although the code locks entry by entry: its visits of
  other nodes commute with what a stream does to its own.  \<^term>\<open>server_step\<close>, labelled with the \<^typ>\<open>task\<close> that takes the step, interleaves them in any
  order and \<^term>\<open>server_reachable\<close> is what it reaches from \<^term>\<open>server_start\<close>.  \<^term>\<open>lifecycle_step\<close> adds which
  tasks are there: Ctrl-C, servers that end or fail, tasks that stop, workers that end when their queue is
  empty and no clone of the state is left, and the return of \<^verbatim>\<open>main\<close>.  On the agent's side \<^term>\<open>agent_turn\<close>
  interleaves the turns of one session with those of the forwarders left behind by earlier ones, and
  \<^term>\<open>loop_step\<close> strings sessions together: each branch of its two \<^verbatim>\<open>select!\<close> can be taken when its future is
  ready.  For the timeout, which drops a handler where it waits, \<^term>\<open>route_start\<close> and \<^term>\<open>route_resume\<close>
  divide every handler at its wait.

  \<^bold>\<open>Parameters.\<close>  What the crates take from libraries and from outside is an argument: \<^typ>\<open>'v auth_lib\<close>
  (HMAC-SHA256, hex and header values, with the laws \<^term>\<open>auth_lib_ok\<close>), \<^typ>\<open>'j json_lib\<close> (\<^verbatim>\<open>serde_json\<close>
  values, with \<^term>\<open>json_lib_ok\<close>), \<^typ>\<open>unicode\<close> (character tables beyond ASCII), the hash of a node id, the
  order in which a hash map lists its entries or a statement meets the rows of a table, the outcome of every
  database call (\<^typ>\<open>db_outcome\<close>: done, failed, or done with the answer lost), the files the collector
  reads, resolved addresses and connection attempts, random bytes and clock readings.  Each theorem that
  assumes a law has a witness on a concrete instance.

  \<^bold>\<open>What the theorems show.\<close>
  \<^item> Authentication: an accepted request carries the HMAC of exactly its node id, timestamp and nonce and a
    fresh timestamp; one interceptor admits a nonce once between two purges; the headers the agent injects
    open a stream for its node.  The gaps are theorems too: the server builds an interceptor per request,
    so it admits replays; the purge forgets fresh nonces; the clock difference wraps; colons move a signature.
  \<^item> Ingestion: a stream touches its own node only, spoofed messages close it, and the sharded channels
    refine one first-in-first-out queue per node (interface \<^verbatim>\<open>bounded_queue\<close>, interpreted on the channels);
    a worker that drains its queue stores every snapshot in order; the export has one line per metric.
  \<^item> Storage: what the queries answer after any history of calls that may fail is computed from the history
    alone (\<^term>\<open>last_upsert\<close>, \<^term>\<open>stored_by\<close>), and the tables stay referentially consistent (interface
    \<^verbatim>\<open>node_repository\<close>, interpreted on the SQL model); what is written is read back; cleanup keeps exactly
    seven days; the registry after startup answers as the database does, up to ties of timestamps, which the
    two statements may break differently.
  \<^item> Server: \<^term>\<open>server_inv\<close> is an invariant of \<^term>\<open>server_step\<close>; an open stream handles every
    event, and waits only where its agent leaves 32 commands unread;
    no route but the health checks answers without the secret; the history endpoint and the dashboards
    deliver exactly the rows and updates they should; a range with a letter beyond ASCII panics.  Every JSON
    value in queues, registry, broadcast and tables is well typed (\<^term>\<open>typed_server\<close>).
    As the source serves its router, the rate limit finds no address and refuses everything; a request can overwrite a fresh entry of the registry with a stored one.
  \<^item> Start and shutdown: when \<^verbatim>\<open>main\<close> returns, queues and offline transitions are drained and no client is
    left; the draining ends within \<^term>\<open>drain_work\<close> steps; a gRPC server that fails at any time goes unreported.
  \<^item> Agent: processor percentages and memory figures, the rates between two collections, the reconnection
    delays of the whole loop, that the loop waits for nothing any more after Ctrl-C, and that an open session
    loses no statistics but the counted overflows of the buffer (interface \<^verbatim>\<open>holdback\<close>) and what the
    forwarders of failed sessions drain, which they discard.
  \<^item> Both: no message of an agent makes the server close its stream, and what a session collects and sends
    becomes exactly one row per sample, in order (\<^term>\<open>message_rows\<close>).
  \<^item> The benchmark completes under every interleaving of its tasks, and the model passes the unit and the
    integration tests.

  \<^bold>\<open>Bounds and termination.\<close>  Integers keep their width (64-bit and 32-bit words) wherever the source's
  type can overflow; a release build is modelled, in which \<^verbatim>\<open>+\<close> and \<^verbatim>\<open>-\<close> wrap.  Doubles are rounded exactly
  after every operation.  No definition needs fuel: loops over files, streams and queues recurse on the
  list they consume, and every function of the model is total.

  \<^bold>\<open>Not modelled.\<close>  The wire encoding of protobuf and HTTP, TLS and keep-alive options, the quota of the rate
  limit (a parameter), logging and traces, the printed lines of the benchmark and the timers that trigger
  the tasks are calls into libraries without logic of the program; the limit of bodies has no effect, since
  no handler reads one; of the signals the code handles Ctrl-C only.  When a server ends after the
  cancellation, and whether it waits for its connections, is left open.  Histograms are their number of
  observations: the observed times come from the clock, and no code of the program reads them back.
  \<^verbatim>\<open>build.rs\<close> calls the protobuf compiler.
\<close>

section \<open>The agent and the server together\<close>

subsection \<open>Lemmas\<close>

lemma own_message_continues:
  assumes "agent_message node m" "se_msg e = Some m" "\<not> se_client_gone e" "as_worker_txs (sk_state t) \<noteq> []"
  shows "\<exists>t'. handle_event J hash node e t = Some (Continue, t') \<and>
    (\<forall>t''. send_ack (se_client_gone e) (agent_reads (se_reads e) t') \<noteq> Some (Break, t'')) \<and>
    AUTH_FAILURES (as_metrics (sk_state t')) = AUTH_FAILURES (as_metrics (sk_state t))"
proof -
  have ack: "send_ack (se_client_gone e) t' \<noteq> Some (Break, t'')" for t' t'' :: "'a stream_task"
    using assms(3) by (auto simp: send_ack_def split: option.split)
  from assms(1) obtain p where p: "m = Some p" by (cases m) auto
  have "\<exists>t'. handle_event J hash node e t = Some (Continue, t') \<and>
    AUTH_FAILURES (as_metrics (sk_state t')) = AUTH_FAILURES (as_metrics (sk_state t))"
  proof (cases p)
    case (PStats s)
    with assms p show ?thesis
      by (auto simp: handle_event_def handle_stats_def Let_def count_metric_def broadcast_send_def inc_grpc_message_def
          send_to_worker_cases inc_ingestion_drop_def split: option.split)
  next
    case (PHeartbeat hb)
    with assms p show ?thesis
      by (auto simp: handle_event_def handle_heartbeat_def Let_def count_metric_def inc_grpc_message_def split: option.split)
  next
    case (PProbeResult r)
    with assms p show ?thesis
      by (simp add: handle_event_def handle_probe_result_def Let_def count_metric_def inc_grpc_message_def
          send_to_worker_cases inc_ingestion_drop_def)
  qed
  with ack show ?thesis by blast
qed

text \<open>The rows a message of node \<open>a\<close> leaves in the table of snapshots.\<close>

fun message_rows :: "'j json_lib \<Rightarrow> rstr \<Rightarrow> telemetry_message \<Rightarrow> 'j snapshot_row list" where
  "message_rows J a (Some (PStats s)) =
     [\<lparr>sr_node_id = a, sr_timestamp = ns_timestamp_ms s, sr_stats_json =
        unwrap_or (jl_from_str J (jl_to_string J (jl_object J (stats_fields J (stats_serializable_from s))))) (jl_null J)\<rparr>]"
| "message_rows J a _ = []"

text \<open>A worker's channel with room for \<open>n\<close> more items.\<close>

definition has_room :: "nat \<Rightarrow> 'a channel \<Rightarrow> bool" where
  "has_room n c \<longleftrightarrow> ch_open c \<and> length (ch_queue c) + n \<le> ch_capacity c"

text \<open>
  The agent keeps up with its commands: of the \<open>n\<close> it has not read, and those that follow, never so many
  are unread when a heartbeat is acknowledged that the channel is full.
\<close>

fun is_beat :: "telemetry_message option \<Rightarrow> bool" where
  "is_beat (Some (Some (PHeartbeat _))) = True"
| "is_beat _ = False"

fun keeps_up :: "nat \<Rightarrow> stream_event list \<Rightarrow> bool" where
  "keeps_up n [] = True"
| "keeps_up n (e # es) =
     (let n = n - se_reads e in if is_beat (se_msg e) then n < cmd_capacity \<and> keeps_up (Suc n) es else keeps_up n es)"

lemma ack_taken:
  assumes "sk_ack t \<noteq> None \<longrightarrow> length (sk_cmds t) < cmd_capacity" "\<not> gone"
  shows "\<exists>t'. send_ack gone t = Some (Continue, t') \<and> sk_state t' = sk_state t \<and> sk_ack t' = None \<and>
    length (sk_cmds t') = length (sk_cmds t) + (if sk_ack t = None then 0 else 1)"
  using assms by (cases "sk_ack t") (simp_all add: send_ack_def)

lemma event_queued:
  assumes "json_lib_ok J" "agent_message a m" "se_msg e = Some m" "\<not> se_client_gone e"
    and "i = unat (hash a) mod length (as_worker_txs (sk_state t))" "as_worker_txs (sk_state t) \<noteq> []"
    and "has_room (Suc n) (as_worker_txs (sk_state t) ! i)"
  shows "\<exists>t' xs. handle_event J hash a e t = Some (Continue, t') \<and> length (as_worker_txs (sk_state t')) = length (as_worker_txs (sk_state t)) \<and>
    ch_queue (as_worker_txs (sk_state t') ! i) = ch_queue (as_worker_txs (sk_state t) ! i) @ xs \<and> length xs \<le> 1 \<and>
    has_room n (as_worker_txs (sk_state t') ! i) \<and> concat (map (snapshot_of_item J) xs) = message_rows J a m \<and>
    as_db (sk_state t') = as_db (sk_state t) \<and> sk_cmds t' = sk_cmds t \<and>
    (sk_ack t = None \<longrightarrow> (sk_ack t' \<noteq> None \<longleftrightarrow> is_beat (se_msg e)))"
proof -
  let ?w = "as_worker_txs (sk_state t)"
  have i: "i < length ?w" using assms(5,6) by simp
  from assms(2) obtain p where p: "m = Some p" by (cases m) auto
  have "?w ! i = ?w ! (unat (hash a) mod length ?w)" by (simp add: assms(5))
  with i assms p show ?thesis
    by (cases p)
      (auto simp: handle_event_def handle_stats_def handle_heartbeat_def handle_probe_result_def Let_def json_lib_okD(5) [OF assms(1)]
        send_to_worker_cases try_send_def has_room_def broadcast_send_def split: option.split)
qed

text \<open>One iteration of the loop, the acknowledgement included.\<close>

lemma turn_queued:
  assumes "json_lib_ok J" "agent_message a m" "se_msg e = Some m" "\<not> se_client_gone e"
    and "i = unat (hash a) mod length (as_worker_txs (sk_state t))" "as_worker_txs (sk_state t) \<noteq> []"
    and "has_room (Suc n) (as_worker_txs (sk_state t) ! i)" "sk_ack t = None" "keeps_up (length (sk_cmds t)) (e # es)"
  shows "\<exists>t' xs. stream_loop J hash a (e # es) t = stream_loop J hash a es t' \<and>
    length (as_worker_txs (sk_state t')) = length (as_worker_txs (sk_state t)) \<and>
    ch_queue (as_worker_txs (sk_state t') ! i) = ch_queue (as_worker_txs (sk_state t) ! i) @ xs \<and> length xs \<le> 1 \<and>
    has_room n (as_worker_txs (sk_state t') ! i) \<and> concat (map (snapshot_of_item J) xs) = message_rows J a m \<and>
    as_db (sk_state t') = as_db (sk_state t) \<and> sk_ack t' = None \<and> keeps_up (length (sk_cmds t')) es"
proof -
  from event_queued [of J a m e i hash t n, OF assms(1-7)] obtain t1 xs where
    t1: "handle_event J hash a e t = Some (Continue, t1)" "length (as_worker_txs (sk_state t1)) = length (as_worker_txs (sk_state t))"
    "ch_queue (as_worker_txs (sk_state t1) ! i) = ch_queue (as_worker_txs (sk_state t) ! i) @ xs" "length xs \<le> 1"
    "has_room n (as_worker_txs (sk_state t1) ! i)" "concat (map (snapshot_of_item J) xs) = message_rows J a m"
    "as_db (sk_state t1) = as_db (sk_state t)" "sk_cmds t1 = sk_cmds t" "sk_ack t1 \<noteq> None \<longleftrightarrow> is_beat (se_msg e)"
    using assms(8) by blast
  let ?t = "agent_reads (se_reads e) t1"
  have "sk_ack ?t \<noteq> None \<longrightarrow> length (sk_cmds ?t) < cmd_capacity" using t1(8,9) assms(9) by (auto simp: Let_def)
  from ack_taken [OF this assms(4)] obtain t' where
    t': "send_ack (se_client_gone e) ?t = Some (Continue, t')" "sk_state t' = sk_state t1" "sk_ack t' = None"
    "length (sk_cmds t') = length (sk_cmds t) - se_reads e + (if is_beat (se_msg e) then 1 else 0)"
    using t1(8,9) by (auto split: if_splits)
  have "keeps_up (length (sk_cmds t')) es" using assms(9) t'(4) by (simp add: Let_def split: if_splits)
  with t1 t' show ?thesis by (intro exI [of _ t'] exI [of _ xs]) simp
qed

lemma stream_queued:
  assumes "json_lib_ok J" "\<forall>m \<in> set ms. agent_message a m" "map se_msg es = map Some ms" "\<forall>e \<in> set es. \<not> se_client_gone e"
    and "i = unat (hash a) mod length (as_worker_txs (sk_state t))" "as_worker_txs (sk_state t) \<noteq> []"
    and "has_room (length ms) (as_worker_txs (sk_state t) ! i)" "sk_ack t = None" "keeps_up (length (sk_cmds t)) es"
  shows "\<exists>t' xs. stream_loop J hash a es t = Some t' \<and> length (as_worker_txs (sk_state t')) = length (as_worker_txs (sk_state t)) \<and>
    ch_queue (as_worker_txs (sk_state t') ! i) = ch_queue (as_worker_txs (sk_state t) ! i) @ xs \<and> length xs \<le> length ms \<and>
    concat (map (snapshot_of_item J) xs) = concat (map (message_rows J a) ms) \<and> as_db (sk_state t') = as_db (sk_state t)"
  using assms(2-9)
proof (induction ms arbitrary: es t)
  case (Cons m ms)
  then obtain e es' where es: "es = e # es'" "se_msg e = Some m" "map se_msg es' = map Some ms" by (cases es) auto
  with turn_queued [OF assms(1) _ es(2), of a i hash t "length ms" es'] Cons.prems obtain t1 ys where
    t1: "stream_loop J hash a es t = stream_loop J hash a es' t1" "length (as_worker_txs (sk_state t1)) = length (as_worker_txs (sk_state t))"
    "ch_queue (as_worker_txs (sk_state t1) ! i) = ch_queue (as_worker_txs (sk_state t) ! i) @ ys" "length ys \<le> 1"
    "has_room (length ms) (as_worker_txs (sk_state t1) ! i)" "concat (map (snapshot_of_item J) ys) = message_rows J a m"
    "as_db (sk_state t1) = as_db (sk_state t)" "sk_ack t1 = None" "keeps_up (length (sk_cmds t1)) es'" by auto
  moreover have "as_worker_txs (sk_state t1) \<noteq> []" using t1(2) Cons.prems(5) by (metis length_0_conv)
  ultimately obtain t' zs where t': "stream_loop J hash a es' t1 = Some t'"
    "length (as_worker_txs (sk_state t')) = length (as_worker_txs (sk_state t))"
    "ch_queue (as_worker_txs (sk_state t') ! i) = ch_queue (as_worker_txs (sk_state t) ! i) @ ys @ zs" "length zs \<le> length ms"
    "concat (map (snapshot_of_item J) zs) = concat (map (message_rows J a) ms)" "as_db (sk_state t') = as_db (sk_state t)"
    using Cons.IH [OF _ es(3), of t1] Cons.prems(1,3,4) es(1) by auto
  with t1 show ?case by (intro exI [of _ t'] exI [of _ "ys @ zs"]) simp
qed simp

lemma rows_of_stats: "concat (map (message_rows J a) (filter is_stats ms)) = concat (map (message_rows J a) ms)"
proof (induction ms)
  case (Cons m ms)
  then show ?case by (cases "(J, a, m)" rule: message_rows.cases) simp_all
qed simp

subsection \<open>Properties\<close>

text \<open>
  C3: an agent that shares the server's secret gets a stream for its own node. For a node id and a
  nonce of visible characters and clocks at most 60 seconds apart, the headers the agent injects are
  accepted by the server's interceptor, which passes them on unchanged and counts no failure, and
  the telemetry stream is opened for exactly that node id.
\<close>

theorem agent_stream_opens:
  assumes "auth_lib_ok L" "\<forall>c \<in> set node. visible_ascii c" "\<forall>c \<in> set nonce. visible_ascii c"
    and "\<bar>sint now - sint ts\<bar> \<le> 60"
  shows "\<exists>md'. inject_auth_headers L (Some ts) nonce secret node md = Some (Inr md') \<and>
    grpc_intercept L clock0 (Some now) clock' secret md' m = (Inr md', m) \<and> stream_open L md' = Inr node"
proof -
  obtain md' where inj: "inject_auth_headers L (Some ts) nonce secret node md = Some (Inr md')" "stream_open L md' = Inr node"
    by (rule injected_opens [OF assms(1-3)])
  have "check_headers L (Some now) secret md' = Inr nonce"
    by (rule check_headers_injected [OF assms(1) inj(1) assms(2,3) fresh_within_skew [OF assms(4)]])
  with inj show ?thesis using fresh_interceptor_accepts by blast
qed

theorem agent_stream_opens_witness:
  "\<exists>md'. grpc_intercept demo_lib (Some 990) (Some 1040) (Some 1040) [1, 2, 3] md' metrics_new = (Inr md', metrics_new) \<and>
     stream_open demo_lib md' = Inr demo_node"
  using agent_stream_opens [OF demo_lib_ok demo_visible(1,2), of 1040 1000 "[1, 2, 3]" Map.empty "Some 990" "Some 1040" metrics_new]
  by auto

text \<open>
  C13: the server never closes the stream of an agent that runs this code. Whatever messages a
  session of the agent puts into the stream, each of them is handled by the server's loop for the
  agent's node without ending it, the acknowledgement of a heartbeat included, and without a count of
  spoofing, as long as the agent has not dropped the stream.
\<close>

theorem agent_messages_accepted:
  assumes "\<forall>m \<in> set (tb_inner (ag_holdback a)). agent_message node m"
    and "m \<in> set (ar_taken (fold (agent_turn node) es (session_start a stale)))"
    and "se_msg e = Some m" "\<not> se_client_gone e" "as_worker_txs (sk_state t) \<noteq> []"
  shows "\<exists>t'. handle_event J hash node e t = Some (Continue, t') \<and>
    (\<forall>t''. send_ack (se_client_gone e) (agent_reads (se_reads e) t') \<noteq> Some (Break, t'')) \<and>
    AUTH_FAILURES (as_metrics (sk_state t')) = AUTH_FAILURES (as_metrics (sk_state t))"
proof -
  have "agent_message node m" by (rule agent_messages_carry_node_id [OF assms(1,2)])
  from own_message_continues [OF this assms(3-5)] show ?thesis .
qed

theorem agent_messages_accepted_witness:
  "\<exists>t'. handle_event demo_json_lib (\<lambda>_. 0) (lit ''n'')
     \<lparr>se_msg = Some (heartbeat_message (lit ''n'') 9), se_now_ms = 10, se_reads = 0, se_client_gone = False\<rparr>
     \<lparr>sk_state = demo_state, sk_cmds = [], sk_ack = None\<rparr> = Some (Continue, t')"
proof -
  let ?a = "agent_start \<lparr>ac_server_addr = [], ac_auth_secret = [], ac_node_id = lit ''n'', ac_interval = 0\<rparr>"
  have "\<forall>m \<in> set (tb_inner (ag_holdback ?a)). agent_message (lit ''n'') m"
    by (simp add: agent_start_def telemetry_buffer_new_def)
  moreover have "heartbeat_message (lit ''n'') 9
      \<in> set (ar_taken (fold (agent_turn (lit ''n'')) [EvBeat 9, EvTake] (session_start ?a [])))"
    by (simp add: agent_turn_def session_start_def uplink_new_def heartbeat_turn_def uplink_send_def)
  ultimately show ?thesis
    using agent_messages_accepted [of ?a "lit ''n''" "heartbeat_message (lit ''n'') 9" "[EvBeat 9, EvTake]" "[]"
        "\<lparr>se_msg = Some (heartbeat_message (lit ''n'') 9), se_now_ms = 10, se_reads = 0, se_client_gone = False\<rparr>"
        "\<lparr>sk_state = demo_state, sk_cmds = [], sk_ack = None\<rparr>" demo_json_lib "\<lambda>_. 0"]
    by auto
qed

text \<open>
  C6: what an agent collects reaches the tables. When a session has sent everything it collected
  without an overflow of the buffer and without a loss to forwarders that earlier sessions left behind,
  the server's stream for its node reads the messages the session put into it while the agent keeps up
  with the acknowledgements (32 may be unread), and the node's worker, whose queue had room for them, has handled what was queued with
  the statements executed, then the table of snapshots has grown by the rows of what was queued
  before and then by exactly one row per collected sample, in the order of collection, with its
  time and its statistics as the database reads their text.
\<close>

theorem session_reaches_database:
  assumes "json_lib_ok J" "holdback_ok a" "\<forall>m \<in> set (tb_inner (ag_holdback a)). agent_message node m"
    and "r = fold (agent_turn node) es (session_start a stale)" "ar_overflows r = 0" "ar_stolen r = []"
    and "stats_flow r = filter is_stats (ar_taken r)"
    and "map se_msg inbound = map Some (ar_taken r)" "\<forall>e \<in> set inbound. \<not> se_client_gone e" "keeps_up 0 inbound"
    and "as_worker_txs (ig_state ig) \<noteq> []" "i = unat (hash node) mod length (as_worker_txs (ig_state ig))"
    and "c = as_worker_txs (ig_state ig) ! i" "has_room (length (ar_taken r)) c"
    and "length (ch_queue c) + length (ar_taken r) \<le> length ios"
    and "\<forall>io \<in> set ios. io_first io \<noteq> NotExecuted \<and> io_second io \<noteq> NotExecuted"
  shows "\<exists>t. stream_loop J hash node inbound \<lparr>sk_state = ig_state ig, sk_cmds = [], sk_ack = None\<rparr> = Some t \<and>
    db_snapshots (as_db (ig_state (worker_drain J vm_url i ios (ig\<lparr>ig_state := sk_state t\<rparr>)))) =
      db_snapshots (as_db (ig_state ig)) @ concat (map (snapshot_of_item J) (ch_queue c)) @
      concat (map (message_rows J node) (ar_collected r))"
proof -
  have i: "i < length (as_worker_txs (ig_state ig))" using assms(11,12) by simp
  have "\<forall>m \<in> set (ar_taken r). agent_message node m" using agent_messages_carry_node_id [OF assms(3)] assms(4) by blast
  from stream_queued [OF assms(1) this assms(8,9), of i hash "\<lparr>sk_state = ig_state ig, sk_cmds = [], sk_ack = None\<rparr>"] assms(10-14)
  obtain t xs where t: "stream_loop J hash node inbound \<lparr>sk_state = ig_state ig, sk_cmds = [], sk_ack = None\<rparr> = Some t"
    "length (as_worker_txs (sk_state t)) = length (as_worker_txs (ig_state ig))"
    "ch_queue (as_worker_txs (sk_state t) ! i) = ch_queue c @ xs" "length xs \<le> length (ar_taken r)"
    "concat (map (snapshot_of_item J) xs) = concat (map (message_rows J node) (ar_taken r))" "as_db (sk_state t) = as_db (ig_state ig)"
    by auto
  have "run_ok r" unfolding assms(4) by (rule run_ok_fold [OF run_ok_start [OF assms(2)]])
  then have "stats_flow r = ar_collected r"
    using subseq_same_length [of "stats_flow r" "ar_collected r"] assms(5,6) by (simp add: run_ok_def)
  with assms(7) rows_of_stats have "concat (map (message_rows J node) (ar_taken r)) = concat (map (message_rows J node) (ar_collected r))"
    by metis
  with worker_drain_queue [of i "ig\<lparr>ig_state := sk_state t\<rparr>" ios J vm_url] t i assms(15,16) show ?thesis by simp
qed

theorem session_reaches_database_witness:
  "\<exists>t stats. stream_loop demo_json_lib (\<lambda>_. 0) (lit ''n'')
       [\<lparr>se_msg = Some (Some (PStats stats)), se_now_ms = 9, se_reads = 0, se_client_gone = False\<rparr>] \<lparr>sk_state = demo_state, sk_cmds = [], sk_ack = None\<rparr> = Some t \<and>
     db_snapshots (as_db (ig_state (worker_drain demo_json_lib None 0 [\<lparr>io_first = Executed, io_second = Executed, io_now_ms = 9\<rparr>]
       (ingest_new demo_state\<lparr>ig_state := sk_state t\<rparr>)))) = db_snapshots demo_db @ message_rows demo_json_lib (lit ''n'') (Some (PStats stats))"
proof -
  let ?a = "agent_start \<lparr>ac_server_addr = [], ac_auth_secret = [], ac_node_id = lit ''n'', ac_interval = 0\<rparr>"
  let ?es = "[EvCollect (demo_fs (lit ''1'')) 5 7, EvForward, EvForward, EvTake]"
  let ?r = "fold (agent_turn (lit ''n'')) ?es (session_start ?a [])"
  obtain stats c where col: "collect (demo_fs (lit ''1'')) 5 7 (lit ''n'') collector_new = (Inr stats, c)"
    using demo_collect(1) [of 5 7 "lit ''n''"] by blast
  let ?in = "[\<lparr>se_msg = Some (Some (PStats stats)), se_now_ms = 9, se_reads = 0, se_client_gone = False\<rparr>]"
  let ?ios = "[\<lparr>io_first = Executed, io_second = Executed, io_now_ms = 9\<rparr>]"
  have run: "ar_taken ?r = [Some (PStats stats)]" "ar_overflows ?r = 0" "ar_stolen ?r = []" "ar_collected ?r = [Some (PStats stats)]"
    "stats_flow ?r = [Some (PStats stats)]"
    by (simp_all add: agent_turn_def collection_turn_def session_start_def agent_start_def col telemetry_buffer_new_def
        buffer_push_def forwarder_turn_def uplink_new_def buffer_drain_def uplink_send_def buffer_len_def stats_flow_def fw_pending_def)
  have "\<exists>t. stream_loop demo_json_lib (\<lambda>_. 0) (lit ''n'') ?in \<lparr>sk_state = ig_state (ingest_new demo_state), sk_cmds = [], sk_ack = None\<rparr> = Some t \<and>
    db_snapshots (as_db (ig_state (worker_drain demo_json_lib None 0 ?ios (ingest_new demo_state\<lparr>ig_state := sk_state t\<rparr>)))) =
      db_snapshots (as_db (ig_state (ingest_new demo_state))) @
      concat (map (snapshot_of_item demo_json_lib) (ch_queue (channel_new 1024 :: demo_json ingestion_item channel))) @
      concat (map (message_rows demo_json_lib (lit ''n'')) (ar_collected ?r))"
    by (rule session_reaches_database [OF demo_json_lib_ok holdback_ok_start _ refl])
      (simp_all only: run, simp_all add: agent_start_def telemetry_buffer_new_def ingest_new_def has_room_def channel_new_def)
  moreover have "ig_state (ingest_new demo_state) = demo_state" "as_db demo_state = demo_db"
    "ch_queue (channel_new 1024 :: demo_json ingestion_item channel) = []"
    by (simp_all add: ingest_new_def channel_new_def)
  ultimately show ?thesis unfolding run(4) by (simp only: list.map concat.simps append_Nil append_Nil2) blast
qed

end
